(* ===== verification/Prelude.thy ===== *)
theory Prelude
  imports Main "HOL-Library.Word" "HOL-Library.AList" "HOL-Library.Multiset"
    "HOL-Library.Char_ord" "HOL-Library.List_Lexorder" "HOL-Library.Product_Lexorder"
begin

text \<open>
  Shared ground of the development: the names of the model's base types, Go's run-time panics as
  values, slice indexing and remainder with Go's conventions, the search loops
  (\<^verbatim>\<open>for i, x := range xs { if p(x) { return i } }\<close>) that several files of
  the source repeat, Go maps as association lists, the insertion sort behind
  \<^verbatim>\<open>sort.Slice\<close>, and the two interfaces every component uses: a slice sorter and an
  event machine with an invariant.
\<close>

named_theorems go_simps \<open>evaluation of the Go primitives\<close>
named_theorems inv_intros \<open>preservation of the components' invariants\<close>

type_synonym byte = "8 word"
type_synonym bytes = "byte list"
type_synonym u64 = "64 word"

text \<open>An instant or a duration is a number of nanoseconds; instants count from the Unix epoch.\<close>

type_synonym instant = int
type_synonym duration = int

section \<open>Panics, indexing and remainder\<close>

datatype go_panic = IndexOutOfRange | NilDereference | NegativeLength

text \<open>\<^verbatim>\<open>xs[i]\<close> panics outside \<^verbatim>\<open>0 <= i < len(xs)\<close>.\<close>

definition go_nth :: "'a list \<Rightarrow> int \<Rightarrow> go_panic + 'a" where
  "go_nth xs i =
     (if 0 \<le> i \<and> i < int (length xs) then Inr (xs ! nat i) else Inl IndexOutOfRange)"

text \<open>Go's \<^verbatim>\<open>%\<close> truncates: the remainder has the sign of the dividend.\<close>

definition go_mod :: "int \<Rightarrow> int \<Rightarrow> int" where
  "go_mod a n = sgn a * (\<bar>a\<bar> mod \<bar>n\<bar>)"

lemma go_nth_nat [go_simps]: "k < length xs \<Longrightarrow> go_nth xs (int k) = Inr (xs ! k)"
  by (simp add: go_nth_def)

lemma go_nth_Inl_iff: "(\<exists>e. go_nth xs i = Inl e) \<longleftrightarrow> i < 0 \<or> int (length xs) \<le> i"
  by (auto simp: go_nth_def)

lemma go_mod_nonneg [go_simps]: "0 \<le> a \<Longrightarrow> 0 < n \<Longrightarrow> go_mod a n = a mod n"
  by (cases "a = 0") (simp_all add: go_mod_def)

lemma go_mod_nat [go_simps]: "0 < n \<Longrightarrow> go_mod (int a) (int n) = int (a mod n)"
  by (simp add: go_simps zmod_int)

section \<open>Search loops\<close>

text \<open>The index of the first element that satisfies \<open>p\<close>, counting from \<open>i\<close>; \<open>-1\<close> if none.\<close>

fun first_index_from :: "int \<Rightarrow> ('a \<Rightarrow> bool) \<Rightarrow> 'a list \<Rightarrow> int" where
  "first_index_from i p [] = - 1"
| "first_index_from i p (x # xs) = (if p x then i else first_index_from (i + 1) p xs)"

definition first_index :: "('a \<Rightarrow> bool) \<Rightarrow> 'a list \<Rightarrow> int" where
  "first_index p xs = first_index_from 0 p xs"

lemma first_index_from_cases:
  "(first_index_from i p xs = - 1 \<and> (\<forall>x \<in> set xs. \<not> p x)) \<or>
   (\<exists>k < length xs. first_index_from i p xs = i + int k \<and> p (xs ! k) \<and> (\<forall>j < k. \<not> p (xs ! j)))"
proof (induction xs arbitrary: i)
  case Nil
  then show ?case by simp
next
  case (Cons x xs)
  show ?case
  proof (cases "p x")
    case True
    then show ?thesis by (intro disjI2 exI [of _ 0]) simp
  next
    case False
    from Cons.IH [of "i + 1"] show ?thesis
    proof (elim disjE exE conjE)
      fix k assume k: "k < length xs" "first_index_from (i + 1) p xs = i + 1 + int k"
        "p (xs ! k)" "\<forall>j < k. \<not> p (xs ! j)"
      then show ?thesis
        using False by (intro disjI2 exI [of _ "Suc k"]) (auto simp: nth_Cons split: nat.splits)
    qed (use False in simp)
  qed
qed

lemma first_index_none: "first_index p xs = - 1 \<longleftrightarrow> (\<forall>x \<in> set xs. \<not> p x)"
  using first_index_from_cases [of 0 p xs] by (fastforce simp: first_index_def in_set_conv_nth)

lemma first_index_none_nth: "first_index p xs = - 1 \<longleftrightarrow> (\<forall>j < length xs. \<not> p (xs ! j))"
  by (simp add: first_index_none all_set_conv_all_nth)

lemma first_index_eqI:
  "k < length xs \<Longrightarrow> p (xs ! k) \<Longrightarrow> \<forall>j < k. \<not> p (xs ! j) \<Longrightarrow> first_index p xs = int k"
  using first_index_from_cases [of 0 p xs]
  by (auto simp: first_index_def) (metis nat_neq_iff)+

lemma first_index_someE:
  assumes "first_index p xs \<noteq> - 1"
  obtains k where "k < length xs" "first_index p xs = int k" "p (xs ! k)" "\<forall>j < k. \<not> p (xs ! j)"
  using assms first_index_from_cases [of 0 p xs] by (auto simp: first_index_def)

lemma first_index_range: "- 1 \<le> first_index p xs \<and> first_index p xs < int (length xs)"
  using first_index_from_cases [of 0 p xs] by (auto simp: first_index_def)

section \<open>Go maps\<close>

text \<open>
  A Go map is an association list with distinct keys: \<open>m[k] = v\<close> is \<open>AList.update k v m\<close>,
  \<open>delete(m, k)\<close> is \<open>AList.delete k m\<close> and \<open>m[k]\<close> is \<open>map_of m k\<close>. Where the source ranges over
  a map, the operation takes the order the runtime picks as an argument, a permutation of the keys.
\<close>

type_synonym 'v go_map = "(string \<times> 'v) list"

definition map_keys :: "'v go_map \<Rightarrow> string list" where
  "map_keys m = map fst m"

definition wf_map :: "'v go_map \<Rightarrow> bool" where
  "wf_map m \<longleftrightarrow> distinct (map fst m)"

lemma wf_map_empty [inv_intros]: "wf_map []"
  by (simp add: wf_map_def)

lemma wf_map_update [inv_intros]: "wf_map m \<Longrightarrow> wf_map (AList.update k v m)"
  by (simp add: wf_map_def distinct_update)

lemma wf_map_delete [inv_intros]: "wf_map m \<Longrightarrow> wf_map (AList.delete k m)"
  by (simp add: wf_map_def distinct_delete)

lemma alist_update [simp]: "map_of (AList.update k v m) = (map_of m)(k \<mapsto> v)"
  by (rule update_conv')

lemma alist_delete [simp]: "map_of (AList.delete k m) = (map_of m)(k := None)"
  by (rule delete_conv')

lemma set_map_keys: "set (map_keys m) = dom (map_of m)"
  by (simp add: map_keys_def dom_map_of_conv_image_fst)

section \<open>Sorting a slice\<close>

text \<open>
  \<^verbatim>\<open>sort.Slice(xs, less)\<close>. Up to twelve elements, more than the ten addresses of
  \<^verbatim>\<open>NodeMap\<close>, the library runs an insertion sort: element \<open>i\<close> moves left past its
  neighbours as long as it is \<open>lt\<close> than the neighbour. The sorted prefix is kept reversed, so
  that the neighbour to the left is the head.
\<close>

fun sift :: "('a \<Rightarrow> 'a \<Rightarrow> bool) \<Rightarrow> 'a \<Rightarrow> 'a list \<Rightarrow> 'a list" where
  "sift lt x [] = [x]"
| "sift lt x (y # ys) = (if lt x y then y # sift lt x ys else x # y # ys)"

definition sort_slice :: "('a \<Rightarrow> 'a \<Rightarrow> bool) \<Rightarrow> 'a list \<Rightarrow> 'a list" where
  "sort_slice lt xs = rev (fold (sift lt) xs [])"

lemma mset_sift [simp]: "mset (sift lt x ys) = add_mset x (mset ys)"
  by (induction ys) auto

lemma mset_fold_sift: "mset (fold (sift lt) xs acc) = mset xs + mset acc"
  by (induction xs arbitrary: acc) auto

lemma mset_sort_slice [simp]: "mset (sort_slice lt xs) = mset xs"
  by (simp add: sort_slice_def mset_fold_sift)

lemma set_sift [simp]: "set (sift lt x ys) = insert x (set ys)"
  by (induction ys) auto

lemma sorted_rev_sift:
  fixes key :: "'a \<Rightarrow> 'k::linorder"
  shows "sorted_wrt (\<lambda>a b. key b \<le> key a) ys \<Longrightarrow>
    sorted_wrt (\<lambda>a b. key b \<le> key a) (sift (\<lambda>a b. key a < key b) x ys)"
  by (induction ys) (auto intro: order.trans)

lemma sorted_sort_slice:
  fixes key :: "'a \<Rightarrow> 'k::linorder"
  shows "sorted (map key (sort_slice (\<lambda>a b. key a < key b) xs))"
proof -
  have "sorted_wrt (\<lambda>a b. key b \<le> key a) (fold (sift (\<lambda>a b. key a < key b)) xs acc)"
    if "sorted_wrt (\<lambda>a b. key b \<le> key a) acc" for acc
    using that by (induction xs arbitrary: acc) (auto intro: sorted_rev_sift)
  then show ?thesis
    by (simp add: sort_slice_def sorted_map sorted_wrt_rev)
qed

text \<open>Elements of equal keys keep their order: a sifted element stops at its equals.\<close>

lemma filter_sift:
  fixes key :: "'a \<Rightarrow> 'k::linorder"
  assumes "sorted_wrt (\<lambda>a b. key b \<le> key a) ys"
  shows "filter (\<lambda>z. key z = k) (sift (\<lambda>a b. key a < key b) x ys) =
    (if key x = k then x # filter (\<lambda>z. key z = k) ys else filter (\<lambda>z. key z = k) ys)"
  using assms by (induction ys) auto

lemma filter_fold_sift:
  fixes key :: "'a \<Rightarrow> 'k::linorder"
  assumes "sorted_wrt (\<lambda>a b. key b \<le> key a) acc"
  shows "filter (\<lambda>z. key z = k) (fold (sift (\<lambda>a b. key a < key b)) xs acc) =
    rev (filter (\<lambda>z. key z = k) xs) @ filter (\<lambda>z. key z = k) acc"
  using assms
  by (induction xs arbitrary: acc) (simp_all add: sorted_rev_sift filter_sift)

text \<open>So the insertion sort computes the library's stable \<open>sort_key\<close>.\<close>

lemma sort_slice_eq_sort_key:
  fixes key :: "'a \<Rightarrow> 'k::linorder"
  shows "sort_slice (\<lambda>a b. key a < key b) xs = sort_key key xs"
proof (rule properties_for_sort_key [symmetric])
  fix k
  have "filter (\<lambda>x. key x = key k) (sort_slice (\<lambda>a b. key a < key b) xs)
      = filter (\<lambda>x. key x = key k) xs"
    by (simp add: sort_slice_def filter_fold_sift flip: rev_filter)
  then show "filter (\<lambda>x. key k = key x) (sort_slice (\<lambda>a b. key a < key b) xs)
      = filter (\<lambda>x. key k = key x) xs"
    by (simp add: eq_commute)
qed (simp_all add: sorted_sort_slice)

text \<open>
  What the clients of a sort rely on. The order of equal keys is no part of it, so what is proved
  from it holds for every order that \<^verbatim>\<open>sort.Slice\<close> may leave equal keys in.
\<close>

locale slice_sorter =
  fixes key :: "'a \<Rightarrow> 'k::linorder" and srt :: "'a list \<Rightarrow> 'a list"
  assumes srt_mset: "mset (srt xs) = mset xs"
    and srt_sorted: "sorted (map key (srt xs))"
begin

lemma srt_set: "set (srt xs) = set xs"
  by (metis srt_mset set_mset_mset)

lemma srt_length: "length (srt xs) = length xs"
  by (metis srt_mset size_mset)

lemma srt_distinct_map: "distinct (map f (srt xs)) \<longleftrightarrow> distinct (map f xs)"
  by (metis srt_mset mset_map mset_eq_imp_distinct_iff)

lemma srt_strict:
  "distinct (map key xs) \<Longrightarrow> sorted_wrt (\<lambda>a b. key a < key b) (srt xs)"
  using srt_sorted [of xs] srt_distinct_map [of key xs]
  by (simp add: strict_sorted_iff flip: sorted_wrt_map)

lemma srt_unique:
  assumes "distinct (map key xs)" and "mset ys = mset xs" and "sorted (map key ys)"
  shows "srt xs = ys"
proof (rule map_inj_on [of key])
  show "map key (srt xs) = map key ys"
    using assms srt_sorted [of xs] by (metis mset_map properties_for_sort srt_mset)
  show "inj_on key (set (srt xs) \<union> set ys)"
    using assms(1,2) by (metis distinct_map set_mset_mset srt_set sup.idem)
qed

end

section \<open>Event machines\<close>

text \<open>A state changed by events, with a property that every event keeps.\<close>

locale event_machine =
  fixes step :: "'e \<Rightarrow> 's \<Rightarrow> 's" and good :: "'s \<Rightarrow> bool" and allowed :: "'e \<Rightarrow> bool"
  assumes step_good: "good s \<Longrightarrow> allowed e \<Longrightarrow> good (step e s)"
begin

lemma run_good: "good s \<Longrightarrow> \<forall>e \<in> set es. allowed e \<Longrightarrow> good (fold step es s)"
  by (induction es arbitrary: s) (auto intro: step_good)

end

end
