(* ===== verification/Go_Strings.thy ===== *)
theory Go_Strings
  imports Prelude
begin

text \<open>
  What the source uses of Go's \<^verbatim>\<open>fmt\<close>, \<^verbatim>\<open>strconv\<close>,
  \<^verbatim>\<open>strings\<close> and \<^verbatim>\<open>math/big\<close> on strings: decimal printing and
  parsing, splitting at a character, the last occurrence of a character, prefixes, lower case and
  fields. A Go string is its list of bytes; letters and blanks are the ASCII ones.
\<close>

section \<open>Decimal printing: \<open>%d\<close> and \<open>String()\<close>\<close>

definition digit_char :: "nat \<Rightarrow> char" where
  "digit_char d = char_of (48 + d)"

fun digits :: "nat \<Rightarrow> string" where
  "digits n = (if n < 10 then [digit_char n] else digits (n div 10) @ [digit_char (n mod 10)])"

declare digits.simps [simp del]

definition itoa :: "int \<Rightarrow> string" where
  "itoa i = (if i < 0 then ''-'' @ digits (nat (- i)) else digits (nat i))"

section \<open>Decimal parsing: \<open>strconv.Atoi\<close>, \<open>big.Int.SetString(s, 10)\<close>\<close>

definition char_digit :: "char \<Rightarrow> nat option" where
  "char_digit c = (let n = of_char c :: nat in if 48 \<le> n \<and> n \<le> 57 then Some (n - 48) else None)"

fun parse_digits :: "nat \<Rightarrow> string \<Rightarrow> nat option" where
  "parse_digits acc [] = Some acc"
| "parse_digits acc (c # cs) =
     (case char_digit c of None \<Rightarrow> None | Some d \<Rightarrow> parse_digits (10 * acc + d) cs)"

definition parse_nat :: "string \<Rightarrow> nat option" where
  "parse_nat s = (if s = [] then None else parse_digits 0 s)"

definition parse_int :: "string \<Rightarrow> int option" where
  "parse_int s = (case s of
     [] \<Rightarrow> None
   | c # cs \<Rightarrow>
       if c = CHR ''-'' then map_option (\<lambda>n. - int n) (parse_nat cs)
       else if c = CHR ''+'' then map_option int (parse_nat cs)
       else map_option int (parse_nat s))"

text \<open>\<^verbatim>\<open>Atoi\<close> also fails outside the 64-bit range.\<close>

definition atoi :: "string \<Rightarrow> int option" where
  "atoi s = (case parse_int s of
     None \<Rightarrow> None
   | Some i \<Rightarrow> if - (2 ^ 63) \<le> i \<and> i < 2 ^ 63 then Some i else None)"

lemma char_digit_digit [simp]: "d < 10 \<Longrightarrow> char_digit (digit_char d) = Some d"
  by (simp add: char_digit_def digit_char_def Let_def)

lemma digit_char_0 [simp]: "digit_char 0 = CHR ''0''"
  by code_simp

lemma digit_char_is_digit: "c = digit_char d \<Longrightarrow> d < 10 \<Longrightarrow> char_digit c \<noteq> None"
  by simp

lemma digits_all: "c \<in> set (digits n) \<Longrightarrow> char_digit c \<noteq> None"
proof (induction n rule: digits.induct)
  case (1 n)
  show ?case
  proof (cases "n < 10")
    case True
    with "1.prems" show ?thesis by (simp add: digits.simps [of n])
  next
    case False
    with "1.prems" have "c \<in> set (digits (n div 10)) \<or> c = digit_char (n mod 10)"
      by (auto simp: digits.simps [of n])
    with False "1.IH" show ?thesis by auto
  qed
qed

lemma digits_nonempty: "digits n \<noteq> []"
  by (subst digits.simps) simp

lemma parse_digits_append:
  "parse_digits acc (s @ t) = (case parse_digits acc s of None \<Rightarrow> None | Some a \<Rightarrow> parse_digits a t)"
  by (induction s arbitrary: acc) (auto split: option.splits)

lemma parse_digits_digits: "parse_digits 0 (digits n) = Some n"
proof (induction n rule: digits.induct)
  case (1 n)
  show ?case
  proof (cases "n < 10")
    case True
    then show ?thesis by (simp add: digits.simps [of n])
  next
    case False
    with "1.IH" show ?thesis
      by (subst digits.simps) (simp add: parse_digits_append)
  qed
qed

lemma parse_nat_digits: "parse_nat (digits n) = Some n"
  by (simp add: parse_nat_def digits_nonempty parse_digits_digits)

lemma char_digit_sign: "char_digit (CHR ''-'') = None" "char_digit (CHR ''+'') = None"
  "char_digit (CHR '':'') = None"
  by (simp_all add: char_digit_def)

lemma sign_notin_digits: "CHR ''-'' \<notin> set (digits n)" "CHR ''+'' \<notin> set (digits n)"
  "CHR '':'' \<notin> set (digits n)"
  using digits_all char_digit_sign by blast+

lemma parse_int_itoa: "parse_int (itoa i) = Some i"
proof (cases "i < 0")
  case True
  then show ?thesis
    by (simp add: itoa_def parse_int_def parse_nat_digits)
next
  case False
  obtain c cs where c: "digits (nat i) = c # cs"
    using digits_nonempty by (cases "digits (nat i)") auto
  then have "c \<noteq> CHR ''-''" "c \<noteq> CHR ''+''"
    using sign_notin_digits [of "nat i"] by auto
  with False c show ?thesis
    using parse_nat_digits [of "nat i"] by (simp add: itoa_def parse_int_def)
qed

lemma itoa_inject [simp]: "itoa i = itoa j \<longleftrightarrow> i = j"
  by (metis option.inject parse_int_itoa)

lemma dash_notin_itoa: "0 \<le> i \<Longrightarrow> CHR ''-'' \<notin> set (itoa i)"
  by (simp add: itoa_def sign_notin_digits)

lemma colon_notin_itoa: "CHR '':'' \<notin> set (itoa i)"
  by (simp add: itoa_def sign_notin_digits)

lemma atoi_itoa: "- (2 ^ 63) \<le> i \<Longrightarrow> i < 2 ^ 63 \<Longrightarrow> atoi (itoa i) = Some i"
  by (simp add: atoi_def parse_int_itoa)

section \<open>Splitting and searching\<close>

text \<open>\<^verbatim>\<open>strings.Split(s, sep)\<close> for a one-character separator: always at least one part.\<close>

fun split_on :: "char \<Rightarrow> string \<Rightarrow> string list" where
  "split_on sep [] = [[]]"
| "split_on sep (c # cs) =
     (if c = sep then [] # split_on sep cs
      else case split_on sep cs of [] \<Rightarrow> [[c]] | p # ps \<Rightarrow> (c # p) # ps)"

text \<open>\<^verbatim>\<open>strings.LastIndex(s, sep)\<close>: the last position, \<open>-1\<close> if there is none.\<close>

fun last_index_from :: "int \<Rightarrow> int \<Rightarrow> char \<Rightarrow> string \<Rightarrow> int" where
  "last_index_from found i sep [] = found"
| "last_index_from found i sep (c # cs) =
     last_index_from (if c = sep then i else found) (i + 1) sep cs"

definition last_index :: "char \<Rightarrow> string \<Rightarrow> int" where
  "last_index sep s = last_index_from (- 1) 0 sep s"

definition has_prefix :: "string \<Rightarrow> string \<Rightarrow> bool" where
  "has_prefix s p \<longleftrightarrow> take (length p) s = p"

definition lower_char :: "char \<Rightarrow> char" where
  "lower_char c = (let n = of_char c :: nat in if 65 \<le> n \<and> n \<le> 90 then char_of (n + 32) else c)"

definition to_lower :: "string \<Rightarrow> string" where
  "to_lower s = map lower_char s"

definition is_blank :: "char \<Rightarrow> bool" where
  "is_blank c \<longleftrightarrow> (let n = of_char c :: nat in n = 32 \<or> (9 \<le> n \<and> n \<le> 13))"

text \<open>\<^verbatim>\<open>strings.Fields\<close>: the maximal runs of non-blanks; \<open>w\<close> is the run being read.\<close>

fun fields_from :: "string \<Rightarrow> string \<Rightarrow> string list" where
  "fields_from w [] = (if w = [] then [] else [w])"
| "fields_from w (c # cs) =
     (if is_blank c then (if w = [] then fields_from [] cs else w # fields_from [] cs)
      else fields_from (w @ [c]) cs)"

definition Fields :: "string \<Rightarrow> string list" where
  "Fields s = fields_from [] s"

lemma split_on_nonempty: "split_on sep s \<noteq> []"
  by (induction s) (auto split: list.splits)

lemma split_on_none: "sep \<notin> set s \<Longrightarrow> split_on sep s = [s]"
  by (induction s) auto

lemma split_on_append: "sep \<notin> set s \<Longrightarrow> split_on sep (s @ sep # t) = s # split_on sep t"
  by (induction s) auto

lemma last_index_from_none: "sep \<notin> set s \<Longrightarrow> last_index_from f i sep s = f"
  by (induction s arbitrary: f i) auto

lemma last_index_from_append:
  "sep \<notin> set t \<Longrightarrow> last_index_from f i sep (s @ sep # t) = i + int (length s)"
  by (induction s arbitrary: f i) (auto simp: last_index_from_none)

lemma last_index_append: "sep \<notin> set t \<Longrightarrow> last_index sep (s @ sep # t) = int (length s)"
  by (simp add: last_index_def last_index_from_append)

lemma last_index_none: "sep \<notin> set s \<Longrightarrow> last_index sep s = - 1"
  by (simp add: last_index_def last_index_from_none)

end
