(* ===== verification/Hashing.thy ===== *)
theory Hashing
  imports Go_Strings
begin

text \<open>
  Models \<^verbatim>\<open>HashToMbits\<close> of \<^verbatim>\<open>src/utils.go\<close>, which places servers
  and files on the ring, and the digests the source takes from Go's standard library:
  \<^verbatim>\<open>crypto/sha1\<close> and \<^verbatim>\<open>crypto/sha256\<close> as FIPS 180-4 defines them, on
  32-bit words. Nothing proved elsewhere depends on the digests' values; they are written out so
  that every definition that hashes can be evaluated.
\<close>

unbundle bit_operations_syntax

type_synonym u32 = "32 word"

definition string_bytes :: "string \<Rightarrow> bytes" where
  "string_bytes s = map of_char s"

section \<open>Blocks\<close>

text \<open>A message is padded with \<open>0x80\<close>, zeros and its length in bits to a multiple of 64 bytes.\<close>

definition be64 :: "nat \<Rightarrow> bytes" where
  "be64 n = map (\<lambda>i. ucast (drop_bit (8 * (7 - i)) (of_nat n :: 64 word))) [0..<8]"

definition sha_pad :: "bytes \<Rightarrow> bytes" where
  "sha_pad bs = bs @ 128 # replicate (nat ((55 - int (length bs)) mod 64)) 0 @ be64 (8 * length bs)"

fun words_of :: "bytes \<Rightarrow> u32 list" where
  "words_of (a # b # c # d # bs) =
     (ucast a * 16777216 + ucast b * 65536 + ucast c * 256 + ucast d) # words_of bs"
| "words_of _ = []"

text \<open>The 16-word blocks of a padded message.\<close>

function blocks_of :: "nat \<Rightarrow> 'a list \<Rightarrow> 'a list list" where
  "blocks_of n xs = (if n = 0 \<or> xs = [] then [] else take n xs # blocks_of n (drop n xs))"
  by pat_completeness auto
termination
  by (relation "measure (\<lambda>(n, xs). length xs)") auto

declare blocks_of.simps [simp del]

definition rotl :: "nat \<Rightarrow> u32 \<Rightarrow> u32" where
  "rotl n w = push_bit n w OR drop_bit (32 - n) w"

definition rotr :: "nat \<Rightarrow> u32 \<Rightarrow> u32" where
  "rotr n w = drop_bit n w OR push_bit (32 - n) w"

definition word_bytes :: "u32 \<Rightarrow> bytes" where
  "word_bytes w = [ucast (drop_bit 24 w), ucast (drop_bit 16 w), ucast (drop_bit 8 w), ucast w]"

section \<open>SHA-1\<close>

text \<open>The message schedule, latest word first.\<close>

fun sha1_schedule :: "nat \<Rightarrow> u32 list \<Rightarrow> u32 list" where
  "sha1_schedule 0 rs = rs"
| "sha1_schedule (Suc k) rs =
     sha1_schedule k (rotl 1 ((rs ! 2) XOR (rs ! 7) XOR (rs ! 13) XOR (rs ! 15)) # rs)"

definition sha1_f :: "nat \<Rightarrow> u32 \<Rightarrow> u32 \<Rightarrow> u32 \<Rightarrow> u32" where
  "sha1_f t b c d =
     (if t < 20 then (b AND c) OR (NOT b AND d)
      else if t < 40 then b XOR c XOR d
      else if t < 60 then (b AND c) OR (b AND d) OR (c AND d)
      else b XOR c XOR d)"

definition sha1_k :: "nat \<Rightarrow> u32" where
  "sha1_k t = (if t < 20 then 0x5A827999 else if t < 40 then 0x6ED9EBA1
     else if t < 60 then 0x8F1BBCDC else 0xCA62C1D6)"

type_synonym sha1_state = "u32 \<times> u32 \<times> u32 \<times> u32 \<times> u32"

fun sha1_rounds :: "nat \<Rightarrow> u32 list \<Rightarrow> sha1_state \<Rightarrow> sha1_state" where
  "sha1_rounds t [] st = st"
| "sha1_rounds t (w # ws) (a, b, c, d, e) =
     sha1_rounds (Suc t) ws (rotl 5 a + sha1_f t b c d + e + sha1_k t + w, a, rotl 30 b, c, d)"

fun sha1_block :: "u32 list \<Rightarrow> sha1_state \<Rightarrow> sha1_state" where
  "sha1_block ws (a, b, c, d, e) =
     (case sha1_rounds 0 (rev (sha1_schedule 64 (rev ws))) (a, b, c, d, e) of
        (a', b', c', d', e') \<Rightarrow> (a + a', b + b', c + c', d + d', e + e'))"

definition sha1_Sum :: "bytes \<Rightarrow> bytes" where
  "sha1_Sum bs =
     (case fold sha1_block (blocks_of 16 (words_of (sha_pad bs)))
         (0x67452301, 0xEFCDAB89, 0x98BADCFE, 0x10325476, 0xC3D2E1F0) of
        (a, b, c, d, e) \<Rightarrow> concat (map word_bytes [a, b, c, d, e]))"

section \<open>SHA-256\<close>

text \<open>
  The constants are the first 32 bits of the fractional parts of roots of small primes: cube roots
  for the rounds, square roots for the initial state. \<open>root_bits\<close> finds a root of a number below
  \<open>2 ^ (35 * k)\<close> bit by bit.
\<close>

definition root_bits :: "nat \<Rightarrow> int \<Rightarrow> int" where
  "root_bits k n = fold (\<lambda>b r. if (r + 2 ^ b) ^ k \<le> n then r + 2 ^ b else r) (rev [0..<35]) 0"

definition fraction32 :: "nat \<Rightarrow> int \<Rightarrow> u32" where
  "fraction32 k p = of_int (root_bits k (p * 2 ^ (32 * k)))"

definition small_primes :: "int list" where
  "small_primes = filter (\<lambda>n. \<forall>d \<in> set [2..20]. d < n \<longrightarrow> n mod d \<noteq> 0) [2..311]"

definition sha256_k :: "u32 list" where
  "sha256_k = map (fraction32 3) small_primes"

definition sha256_init :: "u32 list" where
  "sha256_init = map (fraction32 2) (take 8 small_primes)"

fun sha256_schedule :: "nat \<Rightarrow> u32 list \<Rightarrow> u32 list" where
  "sha256_schedule 0 rs = rs"
| "sha256_schedule (Suc k) rs =
     (let x = rs ! 14; y = rs ! 1;
          s0 = rotr 7 x XOR rotr 18 x XOR drop_bit 3 x;
          s1 = rotr 17 y XOR rotr 19 y XOR drop_bit 10 y
      in sha256_schedule k ((rs ! 15 + s0 + rs ! 6 + s1) # rs))"

type_synonym sha256_state = "u32 \<times> u32 \<times> u32 \<times> u32 \<times> u32 \<times> u32 \<times> u32 \<times> u32"

fun sha256_round :: "u32 \<times> u32 \<Rightarrow> sha256_state \<Rightarrow> sha256_state" where
  "sha256_round (k, w) (a, b, c, d, e, f, g, h) =
     (let t1 = h + (rotr 6 e XOR rotr 11 e XOR rotr 25 e) + ((e AND f) XOR (NOT e AND g)) + k + w;
          t2 = (rotr 2 a XOR rotr 13 a XOR rotr 22 a) + ((a AND b) XOR (a AND c) XOR (b AND c))
      in (t1 + t2, a, b, c, d + t1, e, f, g))"

fun sha256_block :: "u32 list \<Rightarrow> sha256_state \<Rightarrow> sha256_state" where
  "sha256_block ws (a, b, c, d, e, f, g, h) =
     (case fold sha256_round (zip sha256_k (rev (sha256_schedule 48 (rev ws)))) (a, b, c, d, e, f, g, h)
      of (a', b', c', d', e', f', g', h') \<Rightarrow>
        (a + a', b + b', c + c', d + d', e + e', f + f', g + g', h + h'))"

definition sha256_Sum256 :: "bytes \<Rightarrow> bytes" where
  "sha256_Sum256 bs =
     (let i = sha256_init
      in case fold sha256_block (blocks_of 16 (words_of (sha_pad bs)))
           (i ! 0, i ! 1, i ! 2, i ! 3, i ! 4, i ! 5, i ! 6, i ! 7)
         of (a, b, c, d, e, f, g, h) \<Rightarrow> concat (map word_bytes [a, b, c, d, e, f, g, h]))"

text \<open>\<^verbatim>\<open>fmt.Sprintf("%x", digest)\<close>.\<close>

definition hex_char :: "nat \<Rightarrow> char" where
  "hex_char d = (if d < 10 then char_of (48 + d) else char_of (87 + d))"

definition hex :: "bytes \<Rightarrow> string" where
  "hex bs = concat (map (\<lambda>b. [hex_char (unat b div 16), hex_char (unat b mod 16)]) bs)"

definition contentHash :: "bytes \<Rightarrow> string" where
  "contentHash bs = hex (sha256_Sum256 bs)"

lemma contentHash_nonempty: "contentHash bs \<noteq> []"
proof -
  have "sha256_Sum256 bs \<noteq> []"
    unfolding sha256_Sum256_def Let_def by (rule prod.exhaust) (auto split: prod.split simp: word_bytes_def)
  then show ?thesis by (auto simp: contentHash_def hex_def neq_Nil_conv)
qed

section \<open>HashToMbits\<close>

text \<open>\<^verbatim>\<open>new(big.Int).SetBytes(hash)\<close> reads the digest as a big-endian number.\<close>

fun big_SetBytes :: "int \<Rightarrow> bytes \<Rightarrow> int" where
  "big_SetBytes acc [] = acc"
| "big_SetBytes acc (b # bs) = big_SetBytes (256 * acc + uint b) bs"

text \<open>\<open>hashBits\<close> is \<^verbatim>\<open>Config.HashBits\<close>.\<close>

definition HashToMbits :: "nat \<Rightarrow> string \<Rightarrow> int" where
  "HashToMbits hashBits input =
     (let hashInt = big_SetBytes 0 (sha1_Sum (string_bytes input));
          m = push_bit hashBits 1
      in hashInt mod m)"

lemma HashToMbits_range: "0 \<le> HashToMbits n s \<and> HashToMbits n s < 2 ^ n"
  by (simp add: HashToMbits_def push_bit_eq_mult)

end
