(* ===== verification/Member_Model.thy ===== *)
theory Member_Model
  imports Hashing
begin

text \<open>
  Models \<^verbatim>\<open>src/member.go\<close>: the entry of a membership list and its identity, and
  \<^verbatim>\<open>GetAddressFromID\<close> and \<^verbatim>\<open>convertToGRPCAddress\<close> of
  \<^verbatim>\<open>src/utils.go\<close>, which take an identity or an address apart again.
\<close>

text \<open>
  \<^verbatim>\<open>Status\<close> is a string type with four named values; a list that arrives over the
  network may carry any other string, which \<open>StatusOther\<close> holds.
\<close>

datatype Status = StatusAlive | StatusSuspect | StatusDead | StatusVoluntaryLeave | StatusOther string

record Member =
  Address :: string
  NodeCreationTimestamp :: instant
  Status :: Status
  Heartbeat :: u64
  Incarnation :: u64
  LastUpdated :: instant
  Hash :: int

text \<open>\<^verbatim>\<open>time.Time.Unix()\<close>: whole seconds.\<close>

definition Unix :: "instant \<Rightarrow> int" where
  "Unix t = t div 1000000000"

text \<open>The zero \<^verbatim>\<open>time.Time\<close>, the first of January of year 1, and the zero \<^verbatim>\<open>Member\<close>.\<close>

definition zero_time :: instant where
  "zero_time = - 62135596800 * 1000000000"

definition zero_Member :: Member where
  "zero_Member = \<lparr>Address = '''', NodeCreationTimestamp = zero_time, Status = StatusOther '''',
     Heartbeat = 0, Incarnation = 0, LastUpdated = zero_time, Hash = 0\<rparr>"

text \<open>\<^verbatim>\<open>now.Sub(t)\<close> saturates at the largest and smallest 64-bit duration.\<close>

definition time_Sub :: "instant \<Rightarrow> instant \<Rightarrow> duration" where
  "time_Sub t u = max (- (2 ^ 63)) (min (2 ^ 63 - 1) (t - u))"

definition node_id :: "string \<Rightarrow> instant \<Rightarrow> string" where
  "node_id addr created = addr @ ''-'' @ itoa (Unix created)"

definition ID :: "Member \<Rightarrow> string" where
  "ID m = node_id (Address m) (NodeCreationTimestamp m)"

text \<open>The marks read the clock; \<open>now\<close> is that reading.\<close>

definition MarkSuspect :: "instant \<Rightarrow> Member \<Rightarrow> Member" where
  "MarkSuspect now m = m\<lparr>Status := StatusSuspect, LastUpdated := now\<rparr>"

definition MarkDead :: "instant \<Rightarrow> Member \<Rightarrow> Member" where
  "MarkDead now m = m\<lparr>Status := StatusDead, LastUpdated := now\<rparr>"

definition MarkVoluntaryLeave :: "instant \<Rightarrow> Member \<Rightarrow> Member" where
  "MarkVoluntaryLeave now m = m\<lparr>Status := StatusVoluntaryLeave, LastUpdated := now\<rparr>"

definition IsAlive :: "Member \<Rightarrow> bool" where
  "IsAlive m \<longleftrightarrow> Status m = StatusAlive"

text \<open>The parts of \<^verbatim>\<open>utils.go\<close> that read an identity or an address.\<close>

definition GetAddressFromID :: "string \<Rightarrow> string" where
  "GetAddressFromID memberID =
     (let lastDash = last_index (CHR ''-'') memberID
      in if lastDash = - 1 then '''' else take (nat lastDash) memberID)"

definition convertToGRPCAddress :: "string \<Rightarrow> string" where
  "convertToGRPCAddress udpAddr =
     (case split_on (CHR '':'') udpAddr of
        [host, portStr] \<Rightarrow>
          (case atoi portStr of
             None \<Rightarrow> udpAddr
           | Some port \<Rightarrow> host @ '':'' @ itoa (port + 1000))
      | _ \<Rightarrow> udpAddr)"

section \<open>Identities\<close>

lemma ID_marks [simp]:
  "ID (MarkSuspect t m) = ID m" "ID (MarkDead t m) = ID m" "ID (MarkVoluntaryLeave t m) = ID m"
  "ID (m\<lparr>LastUpdated := t\<rparr>) = ID m" "ID (m\<lparr>Incarnation := i\<rparr>) = ID m"
  "ID (m\<lparr>Hash := h\<rparr>) = ID m" "ID (m\<lparr>Status := st\<rparr>) = ID m"
  by (simp_all add: ID_def MarkSuspect_def MarkDead_def MarkVoluntaryLeave_def)

lemma Hash_marks [simp]:
  "Hash (MarkSuspect t m) = Hash m" "Hash (MarkDead t m) = Hash m"
  "Hash (MarkVoluntaryLeave t m) = Hash m"
  by (simp_all add: MarkSuspect_def MarkDead_def MarkVoluntaryLeave_def)

lemma Status_marks [simp]:
  "Status (MarkSuspect t m) = StatusSuspect" "Status (MarkDead t m) = StatusDead"
  "Status (MarkVoluntaryLeave t m) = StatusVoluntaryLeave"
  by (simp_all add: MarkSuspect_def MarkDead_def MarkVoluntaryLeave_def)

lemma Address_marks [simp]:
  "Address (MarkSuspect t m) = Address m" "Address (MarkDead t m) = Address m"
  "Address (MarkVoluntaryLeave t m) = Address m"
  by (simp_all add: MarkSuspect_def MarkDead_def MarkVoluntaryLeave_def)

lemma Unix_nonneg: "0 \<le> t \<Longrightarrow> 0 \<le> Unix t"
  by (simp add: Unix_def pos_imp_zdiv_nonneg_iff)

lemma GetAddressFromID_node_id:
  assumes "0 \<le> t"
  shows "GetAddressFromID (node_id a t) = a"
proof -
  have "last_index (CHR ''-'') (node_id a t) = int (length a)"
    using last_index_append [OF dash_notin_itoa [OF Unix_nonneg [OF assms]]]
    by (simp add: node_id_def)
  then show ?thesis
    by (simp add: GetAddressFromID_def node_id_def)
qed

lemma node_id_inject:
  assumes "0 \<le> t" and "0 \<le> u" and "node_id a t = node_id b u"
  shows "a = b \<and> Unix t = Unix u"
proof -
  have "a = b"
    using assms GetAddressFromID_node_id by metis
  with assms(3) show ?thesis by (simp add: node_id_def)
qed

lemma zero_Member_simps [simp]:
  "Address zero_Member = ''''" "Status zero_Member = StatusOther ''''" "Hash zero_Member = 0"
  by (simp_all add: zero_Member_def)

end
