(* ===== verification/Membership_List.thy ===== *)
theory Membership_List
  imports Member_Model
begin

text \<open>
  Models the pure operations of \<^verbatim>\<open>src/membership_list.go\<close>: the slice of members
  kept sorted by ring position. The mutex makes each operation atomic, so each is a function from
  the slice to the slice. \<^verbatim>\<open>MarkSuspectIfNeeded\<close>, which also starts
  stabilizations, is in \<^verbatim>\<open>Failure_Detector\<close>. The printing operations are not
  modelled.
\<close>

section \<open>Operations\<close>

definition sortNodes :: "Member list \<Rightarrow> Member list" where
  "sortNodes nodes =
     (if length nodes \<le> 1 then nodes else sort_slice (\<lambda>a b. Hash a < Hash b) nodes)"

text \<open>The loop that overwrites the first entry of the same identity; \<open>None\<close> when there is none.\<close>

fun overwrite_first :: "Member \<Rightarrow> Member list \<Rightarrow> Member list option" where
  "overwrite_first member [] = None"
| "overwrite_first member (m # ms) =
     (if ID m = ID member then Some (member # ms)
      else map_option ((#) m) (overwrite_first member ms))"

definition AddOrUpdate :: "Member \<Rightarrow> Member list \<Rightarrow> Member list" where
  "AddOrUpdate member nodes =
     (case overwrite_first member nodes of
        Some nodes' \<Rightarrow> sortNodes nodes'
      | None \<Rightarrow> sortNodes (nodes @ [member]))"

fun RemoveNode :: "string \<Rightarrow> Member list \<Rightarrow> Member list" where
  "RemoveNode nodeID [] = []"
| "RemoveNode nodeID (m # ms) = (if ID m = nodeID then ms else m # RemoveNode nodeID ms)"

definition Snapshot :: "Member list \<Rightarrow> Member go_map" where
  "Snapshot nodes = fold (\<lambda>m cp. AList.update (ID m) m cp) nodes []"

definition GetAll :: "Member list \<Rightarrow> Member list" where
  "GetAll nodes = nodes"

definition GetSuspectedNodes :: "Member list \<Rightarrow> Member list" where
  "GetSuspectedNodes nodes = filter (\<lambda>m. Status m = StatusSuspect) nodes"

section \<open>Sorting\<close>

lemma sortNodes_eq: "sortNodes nodes = sort_key Hash nodes"
proof (cases "length nodes \<le> 1")
  case True
  then show ?thesis
    by (cases nodes) (auto simp: sortNodes_def)
next
  case False
  then show ?thesis by (simp add: sortNodes_def sort_slice_eq_sort_key)
qed

interpretation ring_sort: slice_sorter Hash sortNodes
  by unfold_locales (simp_all add: sortNodes_eq)

section \<open>The invariant\<close>

text \<open>Entries are in ring order and no identity occurs twice.\<close>

definition wf_members :: "Member list \<Rightarrow> bool" where
  "wf_members nodes \<longleftrightarrow> sorted (map Hash nodes) \<and> distinct (map ID nodes)"

definition find_member :: "Member list \<Rightarrow> string \<Rightarrow> Member option" where
  "find_member nodes nodeID = map_of (map (\<lambda>m. (ID m, m)) nodes) nodeID"

lemma find_member_ID: "find_member nodes k = Some m \<Longrightarrow> ID m = k \<and> m \<in> set nodes"
  by (auto simp: find_member_def dest!: map_of_SomeD)

lemma find_member_None: "find_member nodes k = None \<longleftrightarrow> k \<notin> ID ` set nodes"
  by (auto simp: find_member_def map_of_eq_None_iff image_image)

lemma find_member_eq_Some:
  "distinct (map ID nodes) \<Longrightarrow> find_member nodes k = Some m \<longleftrightarrow> m \<in> set nodes \<and> ID m = k"
  by (auto simp: find_member_def o_def)

lemma find_member_mset_cong:
  assumes "distinct (map ID xs)" and "mset ys = mset xs"
  shows "find_member ys = find_member xs"
proof -
  have "distinct (map ID ys)" and "set ys = set xs"
    using assms by (metis mset_eq_imp_distinct_iff mset_map, metis set_mset_mset)
  then show ?thesis
    using assms(1) by (metis (no_types, opaque_lifting) ext find_member_eq_Some not_None_eq)
qed

lemma overwrite_first_None: "overwrite_first m nodes = None \<longleftrightarrow> ID m \<notin> ID ` set nodes"
  by (induction nodes) auto

lemma overwrite_first_map:
  "distinct (map ID nodes) \<Longrightarrow> overwrite_first m nodes = Some nodes' \<Longrightarrow>
    nodes' = map (\<lambda>x. if ID x = ID m then m else x) nodes"
proof (induction nodes arbitrary: nodes')
  case (Cons x xs)
  show ?case
  proof (cases "ID x = ID m")
    case True
    with Cons.prems have "\<forall>y \<in> set xs. ID y \<noteq> ID m"
      by (metis distinct.simps(2) image_eqI list.simps(9) set_map)
    with True Cons.prems show ?thesis by (auto intro!: map_idI [symmetric])
  next
    case False
    with Cons show ?thesis by auto
  qed
qed simp

lemma map_ID_overwrite: "map ID (map (\<lambda>x. if ID x = ID m then m else x) nodes) = map ID nodes"
  by simp

text \<open>On the entries as a map from identities, \<open>AddOrUpdate\<close> is a map update.\<close>

lemma AddOrUpdate_new: "ID m \<notin> ID ` set nodes \<Longrightarrow> AddOrUpdate m nodes = sortNodes (nodes @ [m])"
  unfolding AddOrUpdate_def by (simp add: overwrite_first_None [THEN iffD2])

lemma AddOrUpdate_old:
  assumes "distinct (map ID nodes)" and "ID m \<in> ID ` set nodes"
  shows "AddOrUpdate m nodes = sortNodes (map (\<lambda>x. if ID x = ID m then m else x) nodes)"
proof -
  obtain nodes' where "overwrite_first m nodes = Some nodes'"
    using assms(2) overwrite_first_None [of m nodes] by auto
  with overwrite_first_map [OF assms(1) this] show ?thesis
    by (simp only: AddOrUpdate_def option.case)
qed

lemma AddOrUpdate_distinct:
  assumes "distinct (map ID nodes)"
  shows "distinct (map ID (AddOrUpdate m nodes))"
proof (cases "ID m \<in> ID ` set nodes")
  case True
  have "map (ID \<circ> (\<lambda>x. if ID x = ID m then m else x)) nodes = map ID nodes"
    by simp
  with True assms show ?thesis
    by (simp add: AddOrUpdate_old ring_sort.srt_distinct_map del: map_eq_conv)
next
  case False
  with assms show ?thesis
    by (simp add: AddOrUpdate_new ring_sort.srt_distinct_map)
qed

lemma AddOrUpdate_set:
  assumes "distinct (map ID nodes)"
  shows "set (AddOrUpdate m nodes) = insert m {x \<in> set nodes. ID x \<noteq> ID m}"
proof (cases "ID m \<in> ID ` set nodes")
  case True
  with assms show ?thesis
    by (auto simp: AddOrUpdate_old ring_sort.srt_set)
next
  case False
  then have "ID x \<noteq> ID m" if "x \<in> set nodes" for x
    using that by (metis image_eqI)
  then have "{x \<in> set nodes. ID x \<noteq> ID m} = set nodes" by blast
  with False show ?thesis
    by (simp add: AddOrUpdate_new ring_sort.srt_set)
qed

lemma find_AddOrUpdate:
  assumes "distinct (map ID nodes)"
  shows "find_member (AddOrUpdate m nodes) = (find_member nodes)(ID m \<mapsto> m)"
proof
  fix k
  show "find_member (AddOrUpdate m nodes) k = ((find_member nodes)(ID m \<mapsto> m)) k"
  proof (cases "find_member (AddOrUpdate m nodes) k")
    case None
    then have "k \<notin> ID ` set (AddOrUpdate m nodes)"
      by (simp add: find_member_None)
    then have "k \<noteq> ID m" and "k \<notin> ID ` set nodes"
      using assms by (auto simp: AddOrUpdate_set)
    with None show ?thesis
      by (simp add: find_member_None [THEN iffD2])
  next
    case (Some x)
    then have "x \<in> insert m {x \<in> set nodes. ID x \<noteq> ID m}" and "ID x = k"
      using find_member_ID AddOrUpdate_set [OF assms] by blast+
    then have "((find_member nodes)(ID m \<mapsto> m)) k = Some x"
      using find_member_eq_Some [OF assms, of k x] by auto
    with Some show ?thesis by simp
  qed
qed

lemma wf_AddOrUpdate [inv_intros]: "wf_members nodes \<Longrightarrow> wf_members (AddOrUpdate m nodes)"
  using AddOrUpdate_distinct [of nodes m]
  by (auto simp: wf_members_def AddOrUpdate_def ring_sort.srt_sorted split: option.split)

lemma RemoveNode_filter:
  "distinct (map ID nodes) \<Longrightarrow> RemoveNode k nodes = filter (\<lambda>m. ID m \<noteq> k) nodes"
proof (induction nodes)
  case (Cons x xs)
  then show ?case
    by (cases "ID x = k") (auto intro!: filter_True [symmetric] simp: image_iff)
qed simp

lemma wf_filter: "wf_members nodes \<Longrightarrow> wf_members (filter P nodes)"
  by (simp add: wf_members_def sorted_filter distinct_map_filter)

lemma wf_RemoveNode [inv_intros]: "wf_members nodes \<Longrightarrow> wf_members (RemoveNode k nodes)"
  by (simp add: RemoveNode_filter wf_filter wf_members_def [THEN iffD1])

lemma wf_members_Nil [inv_intros]: "wf_members []"
  by (simp add: wf_members_def)

lemma wf_membersD: "wf_members nodes \<Longrightarrow> distinct (map ID nodes)"
  by (simp add: wf_members_def)

section \<open>Snapshots\<close>

lemma Snapshot_fold:
  "map_of (fold (\<lambda>m cp. AList.update (ID m) m cp) nodes acc) k =
     (case find_member (rev nodes) k of Some m \<Rightarrow> Some m | None \<Rightarrow> map_of acc k)"
proof (induction nodes arbitrary: acc)
  case (Cons x xs)
  then show ?case
    by (auto simp: find_member_def map_of_append map_add_def split: option.split)
qed (simp add: find_member_def)

lemma Snapshot_lookup:
  assumes "distinct (map ID nodes)"
  shows "map_of (Snapshot nodes) = find_member nodes"
proof
  fix k
  have "find_member (rev nodes) = find_member nodes"
    by (rule find_member_mset_cong [OF assms]) simp
  then show "map_of (Snapshot nodes) k = find_member nodes k"
    by (simp add: Snapshot_def Snapshot_fold split: option.split)
qed

lemma wf_Snapshot: "wf_map (Snapshot nodes)"
proof -
  have "wf_map (fold (\<lambda>m cp. AList.update (ID m) m cp) nodes acc)" if "wf_map acc" for acc
    using that by (induction nodes arbitrary: acc) (auto intro: inv_intros)
  then show ?thesis by (simp add: Snapshot_def inv_intros)
qed

end
