(* ===== verification/Metadata_Store.thy ===== *)
theory Metadata_Store
  imports Go_Strings
begin

text \<open>
  Models \<^verbatim>\<open>src/metadata.go\<close>: a node's table of files, each with the ordered list
  of its appends, and its JSON form. The map-level lock makes each access atomic; of the per-file
  locks the model keeps which files have one, because \<^verbatim>\<open>AppendToFile\<close> fails
  without. \<^verbatim>\<open>PrintFileMetadata\<close> is in \<open>Console\<close>.
\<close>

section \<open>Data\<close>

record AppendInfo =
  AppFileName :: string
  AppendID :: string
  ClientID :: string
  ClientTimestamp :: string
  AppendHash :: string
  Size :: int

record FileMetadata =
  FileName :: string
  FileContentHash :: string
  FileNameHash :: int
  CreationTime :: string
  Appends :: "AppendInfo list"

record Metadata =
  Files :: "FileMetadata go_map"
  locks :: "string list option"

definition zero_FileMetadata :: FileMetadata where
  "zero_FileMetadata = \<lparr>FileName = '''', FileContentHash = '''', FileNameHash = 0,
     CreationTime = '''', Appends = []\<rparr>"

text \<open>\<^verbatim>\<open>&Metadata{Files: make(map[string]FileMetadata)}\<close>: no lock table yet.\<close>

definition new_Metadata :: Metadata where
  "new_Metadata = \<lparr>Files = [], locks = None\<rparr>"

datatype metadata_error = FileDoesNotExist

section \<open>Operations\<close>

text \<open>Strings compare bytewise: \<open>>\<close> on timestamps is the lexicographic order.\<close>

fun insert_append :: "AppendInfo list \<Rightarrow> AppendInfo \<Rightarrow> AppendInfo list" where
  "insert_append [] newAppend = [newAppend]"
| "insert_append (a # as) newAppend =
     (if ClientID a = ClientID newAppend \<and> ClientTimestamp a > ClientTimestamp newAppend
      then newAppend # a # as
      else a # insert_append as newAppend)"

definition insertAppend :: "AppendInfo \<Rightarrow> FileMetadata \<Rightarrow> FileMetadata" where
  "insertAppend newAppend fileMeta =
     fileMeta\<lparr>Appends := insert_append (Appends fileMeta) newAppend\<rparr>"

text \<open>Whether \<^verbatim>\<open>m.locks[filename]\<close> is not nil.\<close>

definition getFileLock :: "Metadata \<Rightarrow> string \<Rightarrow> bool" where
  "getFileLock m filename = (case locks m of None \<Rightarrow> False | Some ls \<Rightarrow> filename \<in> set ls)"

definition AddFile :: "FileMetadata \<Rightarrow> Metadata \<Rightarrow> Metadata" where
  "AddFile meta m =
     (let ls = (case locks m of None \<Rightarrow> [] | Some ls \<Rightarrow> ls)
      in m\<lparr>Files := AList.update (FileName meta) meta (Files m),
           locks := Some (if FileName meta \<in> set ls then ls else FileName meta # ls)\<rparr>)"

definition GetFile :: "Metadata \<Rightarrow> string \<Rightarrow> FileMetadata option" where
  "GetFile m filename = map_of (Files m) filename"

definition AppendToFile ::
    "string \<Rightarrow> AppendInfo \<Rightarrow> Metadata \<Rightarrow> metadata_error option \<times> Metadata" where
  "AppendToFile filename appendInfo m =
     (if \<not> getFileLock m filename then (Some FileDoesNotExist, m)
      else
        let fileMeta = (case map_of (Files m) filename of None \<Rightarrow> zero_FileMetadata | Some f \<Rightarrow> f)
        in if \<exists>a \<in> set (Appends fileMeta). AppendID a = AppendID appendInfo then (None, m)
           else (None, m\<lparr>Files := AList.update filename (insertAppend appendInfo fileMeta) (Files m)\<rparr>))"

text \<open>\<open>ord\<close> is the order in which the runtime ranges over the map.\<close>

definition ListFiles :: "(string list \<Rightarrow> string list) \<Rightarrow> Metadata \<Rightarrow> string list" where
  "ListFiles ord m = ord (map_keys (Files m))"

definition DeleteFile :: "string \<Rightarrow> Metadata \<Rightarrow> bool \<times> Metadata" where
  "DeleteFile filename m =
     (if map_of (Files m) filename = None then (False, m)
      else (True, m\<lparr>Files := AList.delete filename (Files m),
                    locks := map_option (removeAll filename) (locks m)\<rparr>))"

section \<open>JSON\<close>

text \<open>The auxiliary struct of \<^verbatim>\<open>MarshalJSON\<close>, whose hash is a decimal string.\<close>

record FileMetadataJSON =
  file_name :: string
  file_content_hash :: string
  file_name_hash :: string
  creation_time :: string
  appends :: "AppendInfo list"

definition MarshalJSON :: "FileMetadata \<Rightarrow> FileMetadataJSON" where
  "MarshalJSON fm = \<lparr>file_name = FileName fm, file_content_hash = FileContentHash fm,
     file_name_hash = itoa (FileNameHash fm), creation_time = CreationTime fm,
     appends = Appends fm\<rparr>"

text \<open>\<open>None\<close> is the error \<^verbatim>\<open>invalid file_name_hash format\<close>.\<close>

definition UnmarshalJSON :: "FileMetadataJSON \<Rightarrow> FileMetadata option" where
  "UnmarshalJSON aux =
     (case parse_int (file_name_hash aux) of
        None \<Rightarrow> None
      | Some fileNameHash \<Rightarrow>
          Some \<lparr>FileName = file_name aux, FileContentHash = file_content_hash aux,
            FileNameHash = fileNameHash, CreationTime = creation_time aux, Appends = appends aux\<rparr>)"

lemma UnmarshalJSON_MarshalJSON: "UnmarshalJSON (MarshalJSON fm) = Some fm"
  by (simp add: MarshalJSON_def UnmarshalJSON_def parse_int_itoa)

section \<open>The invariant\<close>

text \<open>
  Keys are distinct, a file is stored under its own name, and exactly the stored files have a lock.
\<close>

definition wf_metadata :: "Metadata \<Rightarrow> bool" where
  "wf_metadata m \<longleftrightarrow> wf_map (Files m) \<and>
     (\<forall>k f. GetFile m k = Some f \<longrightarrow> FileName f = k) \<and>
     (\<forall>k. getFileLock m k \<longleftrightarrow> GetFile m k \<noteq> None)"

lemma insertAppend_fields [simp]:
  "FileName (insertAppend a f) = FileName f" "FileContentHash (insertAppend a f) = FileContentHash f"
  "FileNameHash (insertAppend a f) = FileNameHash f"
  "Appends (insertAppend a f) = insert_append (Appends f) a"
  by (simp_all add: insertAppend_def)

lemma GetFile_new [simp]: "GetFile new_Metadata k = None"
  by (simp add: new_Metadata_def GetFile_def)

lemma GetFile_AddFile: "GetFile (AddFile f m) k = (if k = FileName f then Some f else GetFile m k)"
  by (simp add: AddFile_def GetFile_def Let_def)

lemma GetFile_DeleteFile:
  "GetFile (snd (DeleteFile n m)) k = (if k = n then None else GetFile m k)"
  by (simp add: DeleteFile_def GetFile_def)

lemma fst_DeleteFile: "fst (DeleteFile n m) \<longleftrightarrow> GetFile m n \<noteq> None"
  by (simp add: DeleteFile_def GetFile_def)

lemma lock_AddFile: "getFileLock (AddFile f m) k \<longleftrightarrow> k = FileName f \<or> getFileLock m k"
  by (auto simp: AddFile_def getFileLock_def Let_def split: option.splits)

lemma lock_DeleteFile:
  "getFileLock (snd (DeleteFile n m)) k \<longleftrightarrow>
    getFileLock m k \<and> \<not> (k = n \<and> GetFile m n \<noteq> None)"
  by (auto simp: DeleteFile_def getFileLock_def GetFile_def split: option.splits)

lemma wf_new_Metadata [inv_intros]: "wf_metadata new_Metadata"
  by (simp add: wf_metadata_def new_Metadata_def getFileLock_def GetFile_def wf_map_empty)

lemma wf_AddFile [inv_intros]: "wf_metadata m \<Longrightarrow> wf_metadata (AddFile f m)"
  by (auto simp: wf_metadata_def GetFile_AddFile lock_AddFile)
    (simp add: AddFile_def Let_def wf_map_update)

lemma wf_DeleteFile [inv_intros]: "wf_metadata m \<Longrightarrow> wf_metadata (snd (DeleteFile n m))"
  by (auto simp: wf_metadata_def GetFile_DeleteFile lock_DeleteFile)
    (simp_all add: DeleteFile_def wf_map_delete)

text \<open>What an append does: nothing on a missing file or a known identifier, else one insertion.\<close>

lemma AppendToFile_missing:
  "\<not> getFileLock m n \<Longrightarrow> AppendToFile n a m = (Some FileDoesNotExist, m)"
  by (simp add: AppendToFile_def)

lemma AppendToFile_known:
  "getFileLock m n \<Longrightarrow> GetFile m n = Some f \<Longrightarrow> AppendID a \<in> AppendID ` set (Appends f) \<Longrightarrow>
    AppendToFile n a m = (None, m)"
  by (auto simp: AppendToFile_def GetFile_def Let_def image_iff)

lemma AppendToFile_fresh:
  assumes "getFileLock m n" and "GetFile m n = Some f" and "AppendID a \<notin> AppendID ` set (Appends f)"
  shows "fst (AppendToFile n a m) = None"
    and "GetFile (snd (AppendToFile n a m)) k =
      (if k = n then Some (insertAppend a f) else GetFile m k)"
proof -
  have "\<not> (\<exists>x \<in> set (Appends f). AppendID x = AppendID a)"
    using assms(3) by (metis image_eqI)
  with assms(1,2) show "fst (AppendToFile n a m) = None"
    "GetFile (snd (AppendToFile n a m)) k = (if k = n then Some (insertAppend a f) else GetFile m k)"
    by (simp_all add: AppendToFile_def GetFile_def Let_def)
qed

lemma lock_AppendToFile [simp]: "getFileLock (snd (AppendToFile n a m)) k \<longleftrightarrow> getFileLock m k"
  by (simp add: AppendToFile_def getFileLock_def Let_def)

lemma wf_AppendToFile [inv_intros]:
  assumes "wf_metadata m"
  shows "wf_metadata (snd (AppendToFile n a m))"
proof (cases "GetFile m n")
  case None
  with assms have "\<not> getFileLock m n" by (simp add: wf_metadata_def)
  with assms show ?thesis by (simp add: AppendToFile_missing)
next
  case (Some f)
  with assms have lock: "getFileLock m n" by (simp add: wf_metadata_def)
  show ?thesis
  proof (cases "AppendID a \<in> AppendID ` set (Appends f)")
    case True
    with assms lock Some show ?thesis by (simp add: AppendToFile_known)
  next
    case False
    have "wf_map (Files (snd (AppendToFile n a m)))"
      using assms by (simp add: AppendToFile_def Let_def wf_metadata_def wf_map_update)
    then show ?thesis
      using assms Some AppendToFile_fresh(2) [OF lock Some False]
      by (simp add: wf_metadata_def)
  qed
qed

section \<open>The store as an interface\<close>

text \<open>
  What the clients of the table rely on: lookups after an addition and a deletion, and an invariant
  both keep.
\<close>

locale file_store =
  fixes get :: "'m \<Rightarrow> string \<Rightarrow> 'f option"
    and add :: "'f \<Rightarrow> 'm \<Rightarrow> 'm"
    and del :: "string \<Rightarrow> 'm \<Rightarrow> 'm"
    and name :: "'f \<Rightarrow> string"
    and inv :: "'m \<Rightarrow> bool"
  assumes get_add: "get (add f m) k = (if k = name f then Some f else get m k)"
    and get_del: "get (del n m) k = (if k = n then None else get m k)"
    and inv_add: "inv m \<Longrightarrow> inv (add f m)"
    and inv_del: "inv m \<Longrightarrow> inv (del n m)"
begin

lemma get_del_all: "get (fold del ns m) k = (if k \<in> set ns then None else get m k)"
  by (induction ns arbitrary: m) (auto simp: get_del)

lemma inv_del_all: "inv m \<Longrightarrow> inv (fold del ns m)"
  by (induction ns arbitrary: m) (auto intro: inv_del)

lemma get_add_all_notin: "k \<notin> name ` set fs \<Longrightarrow> get (fold add fs m) k = get m k"
  by (induction fs arbitrary: m) (auto simp: get_add)

lemma get_add_all:
  "distinct (map name fs) \<Longrightarrow> f \<in> set fs \<Longrightarrow> get (fold add fs m) (name f) = Some f"
  by (induction fs arbitrary: m) (auto simp: get_add get_add_all_notin)

lemma inv_add_all: "inv m \<Longrightarrow> inv (fold add fs m)"
  by (induction fs arbitrary: m) (auto intro: inv_add)

end

interpretation table: file_store GetFile AddFile "\<lambda>n m. snd (DeleteFile n m)" FileName wf_metadata
  by unfold_locales
    (simp_all add: GetFile_AddFile GetFile_DeleteFile wf_AddFile wf_DeleteFile)

section \<open>The order of appends\<close>

lemma mset_insert_append [simp]: "mset (insert_append as a) = add_mset a (mset as)"
  by (induction as) auto

lemma set_insert_append [simp]: "set (insert_append as a) = insert a (set as)"
  by (induction as) auto

text \<open>Within a client, appends are in timestamp order.\<close>

definition client_ordered :: "AppendInfo list \<Rightarrow> bool" where
  "client_ordered as \<longleftrightarrow>
     sorted_wrt (\<lambda>a b. ClientID a = ClientID b \<longrightarrow> ClientTimestamp a \<le> ClientTimestamp b) as"

lemma client_ordered_insert [inv_intros]:
  "client_ordered as \<Longrightarrow> client_ordered (insert_append as a)"
  by (induction as) (fastforce simp: client_ordered_def)+

lemma client_ordered_Nil [inv_intros]: "client_ordered []"
  by (simp add: client_ordered_def)

text \<open>In this order, appends are inserted at the end.\<close>

lemma insert_append_last:
  "\<forall>x \<in> set as. ClientID x = ClientID a \<longrightarrow> ClientTimestamp x \<le> ClientTimestamp a \<Longrightarrow>
    insert_append as a = as @ [a]"
  by (induction as) auto

lemma fold_insert_append_in_order:
  "client_ordered (as @ xs) \<Longrightarrow> fold (\<lambda>a as. insert_append as a) xs as = as @ xs"
proof (induction xs arbitrary: as)
  case (Cons x xs)
  then have "insert_append as x = as @ [x]"
    by (intro insert_append_last) (auto simp: client_ordered_def sorted_wrt_append)
  then show ?case using Cons by simp
qed simp

definition by_client :: "string \<Rightarrow> AppendInfo list \<Rightarrow> AppendInfo list" where
  "by_client c as = filter (\<lambda>a. ClientID a = c) as"

lemma by_client_insert_other:
  "ClientID a \<noteq> c \<Longrightarrow> by_client c (insert_append as a) = by_client c as"
  by (induction as) (auto simp: by_client_def)

lemma by_client_insert_same:
  "by_client (ClientID a) (insert_append as a) = insert_append (by_client (ClientID a) as) a"
  by (induction as) (auto simp: by_client_def)

lemma client_ordered_by_client:
  "client_ordered as \<Longrightarrow> sorted (map ClientTimestamp (by_client c as))"
  by (induction as) (auto simp: client_ordered_def by_client_def)

lemma by_client_fold:
  "by_client c (fold (\<lambda>a as. insert_append as a) xs as) =
    fold (\<lambda>a as. insert_append as a) (by_client c xs) (by_client c as)"
proof (induction xs arbitrary: as)
  case (Cons x xs)
  show ?case
  proof (cases "ClientID x = c")
    case True
    have "by_client c (insert_append as x) = insert_append (by_client c as) x"
      using by_client_insert_same [of x as] True by simp
    moreover have "by_client c (x # xs) = x # by_client c xs"
      using True by (simp add: by_client_def)
    ultimately show ?thesis using Cons.IH by simp
  next
    case False
    have "by_client c (x # xs) = by_client c xs"
      using False by (simp add: by_client_def)
    with False Cons.IH show ?thesis by (simp add: by_client_insert_other)
  qed
qed (simp add: by_client_def)

lemma client_ordered_fold:
  "client_ordered as \<Longrightarrow> client_ordered (fold (\<lambda>a as. insert_append as a) xs as)"
  by (induction xs arbitrary: as) (auto intro: inv_intros)

lemma mset_fold_insert_append:
  "mset (fold (\<lambda>a as. insert_append as a) xs as) = mset xs + mset as"
  by (induction xs arbitrary: as) auto

text \<open>Equal timestamps of one client keep their arrival order.\<close>

lemma filter_ts_insert_append:
  assumes "client_ordered as"
  shows "filter (\<lambda>x. ClientTimestamp x = t \<and> ClientID x = c) (insert_append as a) =
    filter (\<lambda>x. ClientTimestamp x = t \<and> ClientID x = c) (as @ [a])"
  using assms
proof (induction as)
  case (Cons b as)
  show ?case
  proof (cases "ClientID b = ClientID a \<and> ClientTimestamp b > ClientTimestamp a")
    case True
    with Cons.prems have "x \<notin> set (b # as)"
      if "ClientTimestamp x = ClientTimestamp a \<and> ClientID x = ClientID a" for x
      using that by (auto simp: client_ordered_def)
    then have "filter (\<lambda>x. ClientTimestamp x = ClientTimestamp a \<and> ClientID x = ClientID a) (b # as) = []"
      by (auto simp: filter_empty_conv)
    with True show ?thesis by auto
  next
    case False
    with Cons show ?thesis by (auto simp: client_ordered_def)
  qed
qed simp

lemma filter_ts_fold:
  assumes "client_ordered as"
  shows "filter (\<lambda>x. ClientTimestamp x = t \<and> ClientID x = c)
      (fold (\<lambda>a as. insert_append as a) xs as) =
    filter (\<lambda>x. ClientTimestamp x = t \<and> ClientID x = c) (as @ xs)"
  using assms
  by (induction xs arbitrary: as) (simp_all add: client_ordered_insert filter_ts_insert_append)

text \<open>
  Whatever the arrival order across clients, one client's appends end up sorted by its timestamps.
\<close>

lemma fold_insert_append_sorted:
  "by_client c (fold (\<lambda>a as. insert_append as a) xs []) = sort_key ClientTimestamp (by_client c xs)"
proof (rule properties_for_sort_key [symmetric])
  let ?r = "fold (\<lambda>a as. insert_append as a) xs []"
  show "mset (by_client c ?r) = mset (by_client c xs)"
    by (simp only: by_client_def mset_filter mset_fold_insert_append mset.simps add_0_right)
  show "sorted (map ClientTimestamp (by_client c ?r))"
    by (intro client_ordered_by_client client_ordered_fold inv_intros)
  fix k
  have "filter (\<lambda>x. ClientTimestamp x = ClientTimestamp k) (by_client c ?r) =
      filter (\<lambda>x. ClientTimestamp x = ClientTimestamp k) (by_client c xs)"
    using filter_ts_fold [OF client_ordered_Nil, of "ClientTimestamp k" c xs]
    by (simp add: by_client_def conj_commute)
  then show "filter (\<lambda>x. ClientTimestamp k = ClientTimestamp x) (by_client c ?r) =
      filter (\<lambda>x. ClientTimestamp k = ClientTimestamp x) (by_client c xs)"
    by (simp add: eq_commute)
qed

text \<open>Several appends to one file, under new identifiers.\<close>

lemma fold_AppendToFile:
  assumes "wf_metadata m" and "GetFile m f = Some meta" and "distinct (map AppendID xs)"
    and "AppendID ` set xs \<inter> AppendID ` set (Appends meta) = {}"
  shows "GetFile (fold (\<lambda>a m. snd (AppendToFile f a m)) xs m) f =
    Some (meta\<lparr>Appends := fold (\<lambda>a as. insert_append as a) xs (Appends meta)\<rparr>)"
  using assms
proof (induction xs arbitrary: m meta)
  case (Cons a xs)
  have "getFileLock m f" using Cons.prems(1,2) by (simp add: wf_metadata_def)
  then have "GetFile (snd (AppendToFile f a m)) f = Some (insertAppend a meta)"
    using AppendToFile_fresh(2) [of m f meta a f] Cons.prems(2,4) by simp
  moreover have "AppendID ` set xs \<inter> AppendID ` set (Appends (insertAppend a meta)) = {}"
    using Cons.prems(3,4) by auto
  ultimately have "GetFile (fold (\<lambda>a m. snd (AppendToFile f a m)) xs (snd (AppendToFile f a m))) f =
      Some (insertAppend a meta\<lparr>Appends := fold (\<lambda>a as. insert_append as a) xs (Appends (insertAppend a meta))\<rparr>)"
    using Cons.prems(1,3) by (intro Cons.IH wf_AppendToFile) auto
  then show ?case by (simp add: insertAppend_def)
qed simp

lemma sort_key_perm_inj:
  assumes "mset xs = mset ys" and "inj_on key (set xs)"
  shows "sort_key key xs = sort_key key ys"
proof (rule map_inj_on [of key])
  have "map key (sort_key key zs) = sort (map key zs)" for zs
    by (rule properties_for_sort [symmetric]) simp_all
  moreover have "sort (map key xs) = sort (map key ys)"
    using assms(1) by (intro properties_for_sort) simp_all
  ultimately show "map key (sort_key key xs) = map key (sort_key key ys)" by simp
  show "inj_on key (set (sort_key key xs) \<union> set (sort_key key ys))"
    using assms by (metis set_mset_mset set_sort sup.idem)
qed

end
