(* ===== verification/Ring.thy ===== *)
theory Ring
  imports Membership_List Metadata_Store
begin

text \<open>
  Models the pure part of \<^verbatim>\<open>src/ring.go\<close> (positions, key ranges, successors,
  the trigger of a stabilization) and \<^verbatim>\<open>findTargetNodes\<close> of
  \<^verbatim>\<open>src/hydfs_operations.go\<close>. All of them read a copy of the sorted membership
  list. Slice indexing may panic, so results are in \<open>go_panic + \<dots>\<close>; a pair of nil
  \<^verbatim>\<open>*big.Int\<close> is \<open>None\<close>.
\<close>

section \<open>Positions\<close>

definition GetNodeIndex :: "Member list \<Rightarrow> string \<Rightarrow> int" where
  "GetNodeIndex members nodeID = first_index (\<lambda>m. ID m = nodeID) members"

definition GetRingSuccessorIdx :: "int \<Rightarrow> int \<Rightarrow> int \<Rightarrow> int" where
  "GetRingSuccessorIdx idx step n = go_mod (idx + step) n"

definition GetRingPredecessorIdx :: "int \<Rightarrow> int \<Rightarrow> int" where
  "GetRingPredecessorIdx idx n = go_mod (idx - 1 + n) n"

section \<open>Key ranges\<close>

text \<open>The search for the nearest alive predecessor; the first argument counts the iterations left.\<close>

fun pred_scan :: "nat \<Rightarrow> Member list \<Rightarrow> int \<Rightarrow> go_panic + int option" where
  "pred_scan 0 members predIdx = Inr None"
| "pred_scan (Suc k) members predIdx =
     (let predIdx' = GetRingPredecessorIdx predIdx (int (length members))
      in case go_nth members predIdx' of
           Inl e \<Rightarrow> Inl e
         | Inr m \<Rightarrow> if IsAlive m then Inr (Some predIdx') else pred_scan k members predIdx')"

definition GetPrimaryKeyRange :: "Member list \<Rightarrow> string \<Rightarrow> go_panic + (int \<times> int) option" where
  "GetPrimaryKeyRange members nodeID =
     (let N = length members; myIdx = GetNodeIndex members nodeID
      in if N = 0 \<or> myIdx = - 1 then Inr None
         else case pred_scan N members myIdx of
             Inl e \<Rightarrow> Inl e
           | Inr None \<Rightarrow> Inr None
           | Inr (Some predIdx) \<Rightarrow>
               (case (go_nth members predIdx, go_nth members myIdx) of
                  (Inr p, Inr m) \<Rightarrow> Inr (Some (Hash p, Hash m))
                | (Inl e, _) \<Rightarrow> Inl e
                | (_, Inl e) \<Rightarrow> Inl e))"

definition GetAllKeyRange ::
    "Member list \<Rightarrow> string \<Rightarrow> int \<Rightarrow> go_panic + (int \<times> int) option" where
  "GetAllKeyRange members nodeID replicationFactor =
     (let N = int (length members); myIdx = GetNodeIndex members nodeID
      in if N = 0 \<or> myIdx = - 1 then Inr None
         else case go_nth members myIdx of
             Inl e \<Rightarrow> Inl e
           | Inr m \<Rightarrow>
               (case go_nth members (go_mod (myIdx - replicationFactor + N) N) of
                  Inl e \<Rightarrow> Inl e
                | Inr p \<Rightarrow> Inr (Some (Hash p, Hash m))))"

definition IsHashInRange :: "int \<Rightarrow> int \<Rightarrow> int \<Rightarrow> bool" where
  "IsHashInRange fileHash startRange endRange =
     (if startRange < endRange then startRange < fileHash \<and> fileHash \<le> endRange
      else startRange < fileHash \<or> fileHash \<le> endRange)"

text \<open>
  \<open>ord\<close> is the order in which the runtime ranges over the map. On nil bounds the first comparison
  panics.
\<close>

definition GetFilesWithinRange ::
    "(string list \<Rightarrow> string list) \<Rightarrow> FileMetadata go_map \<Rightarrow> (int \<times> int) option \<Rightarrow>
     go_panic + string list" where
  "GetFilesWithinRange ord files bounds =
     (case bounds of
        None \<Rightarrow> if ord (map_keys files) = [] then Inr [] else Inl NilDereference
      | Some (startRange, endRange) \<Rightarrow>
          Inr (filter (\<lambda>name. case map_of files name of
                 None \<Rightarrow> False
               | Some meta \<Rightarrow>
                   if startRange < endRange
                   then startRange < FileNameHash meta \<and> FileNameHash meta \<le> endRange
                   else startRange < FileNameHash meta \<or> FileNameHash meta \<le> endRange)
               (ord (map_keys files))))"

section \<open>Successors and targets\<close>

function succ_loop ::
    "Member list \<Rightarrow> int \<Rightarrow> int \<Rightarrow> int \<Rightarrow> int \<Rightarrow> Member list \<Rightarrow> go_panic + Member list" where
  "succ_loop members myIdx n i cnt succ =
     (if cnt < n - 1 \<and> i < int (length members) then
        case go_nth members (GetRingSuccessorIdx myIdx i (int (length members))) of
          Inl e \<Rightarrow> Inl e
        | Inr m \<Rightarrow> if IsAlive m then succ_loop members myIdx n (i + 1) (cnt + 1) (succ @ [m])
                   else succ_loop members myIdx n (i + 1) cnt succ
      else Inr succ)"
  by pat_completeness auto
termination
  by (relation "measure (\<lambda>(members, myIdx, n, i, cnt, succ). nat (int (length members) - i))") auto

declare succ_loop.simps [simp del]

definition GetSuccessors :: "Member list \<Rightarrow> string \<Rightarrow> int \<Rightarrow> go_panic + Member list" where
  "GetSuccessors members nodeID n =
     (let myIdx = GetNodeIndex members nodeID
      in if myIdx = - 1 \<or> length members = 0 then Inr []
         else succ_loop members myIdx n 1 0 [])"

definition primaryIndex :: "Member list \<Rightarrow> int \<Rightarrow> int" where
  "primaryIndex members fileHash =
     (let i = first_index (\<lambda>m. Status m = StatusAlive \<and> fileHash \<le> Hash m) members
      in if i = - 1 then first_index (\<lambda>m. Status m = StatusAlive) members else i)"

function target_loop ::
    "Member list \<Rightarrow> int \<Rightarrow> int \<Rightarrow> int \<Rightarrow> Member list \<Rightarrow> go_panic + Member list" where
  "target_loop members primaryIdx replicationFactor i targets =
     (if i < replicationFactor then
        case go_nth members (go_mod (primaryIdx + i) (int (length members))) of
          Inl e \<Rightarrow> Inl e
        | Inr m \<Rightarrow> target_loop members primaryIdx replicationFactor (i + 1)
            (if Status m = StatusAlive then targets @ [m] else targets)
      else Inr targets)"
  by pat_completeness auto
termination
  by (relation "measure (\<lambda>(members, p, rf, i, targets). nat (rf - i))") auto

declare target_loop.simps [simp del]

definition findTargetNodes :: "Member list \<Rightarrow> int \<Rightarrow> int \<Rightarrow> go_panic + Member list" where
  "findTargetNodes members fileHash replicationFactor =
     (if length members = 0 then Inr []
      else let p = primaryIndex members fileHash
           in if p = - 1 then Inr []
              else target_loop members p replicationFactor 0 [])"

section \<open>The trigger of a stabilization\<close>

text \<open>
  The loop of \<^verbatim>\<open>handleReplicationWindowChange\<close>: does the changed node sit on one
  of the next \<open>replicationFactor - 1\<close> positions or just before this node?
\<close>

definition window_hit :: "int \<Rightarrow> int \<Rightarrow> int \<Rightarrow> int \<Rightarrow> bool" where
  "window_hit myIdx changedIdx n replicationFactor =
     list_ex (\<lambda>i. GetRingSuccessorIdx myIdx i n = changedIdx \<or> GetRingPredecessorIdx myIdx n = changedIdx)
       [1 .. replicationFactor - 1]"

section \<open>Positions on a ring of \<open>N\<close>\<close>

lemma succ_idx [go_simps]:
  "0 < n \<Longrightarrow> GetRingSuccessorIdx (int k) (int i) (int n) = int ((k + i) mod n)"
  by (simp only: GetRingSuccessorIdx_def go_mod_nat flip: of_nat_add)

lemma pred_idx [go_simps]:
  assumes "k < n"
  shows "GetRingPredecessorIdx (int k) (int n) = int ((k + n - 1) mod n)"
proof -
  have "int k - 1 + int n = int (k + n - 1)" using assms by simp
  then show ?thesis using assms by (simp only: GetRingPredecessorIdx_def go_mod_nat)
qed

lemma GetNodeIndex_nth:
  "distinct (map ID ms) \<Longrightarrow> k < length ms \<Longrightarrow> GetNodeIndex ms (ID (ms ! k)) = int k"
  unfolding GetNodeIndex_def
  by (rule first_index_eqI) (auto simp: distinct_conv_nth)

lemma GetNodeIndex_None: "GetNodeIndex ms x = - 1 \<longleftrightarrow> x \<notin> ID ` set ms"
  by (auto simp: GetNodeIndex_def first_index_none)

lemma GetNodeIndex_cases:
  obtains (absent) "GetNodeIndex ms x = - 1" "x \<notin> ID ` set ms"
  | (at) k where "k < length ms" "GetNodeIndex ms x = int k" "ID (ms ! k) = x"
      "\<forall>j < k. ID (ms ! j) \<noteq> x"
proof (cases "GetNodeIndex ms x = - 1")
  case False
  then show ?thesis
    unfolding GetNodeIndex_def by (elim first_index_someE) (auto intro: at simp: GetNodeIndex_def)
qed (auto simp: GetNodeIndex_None intro: absent)

text \<open>The members in ring order after position \<open>k\<close>, coming back to it last.\<close>

definition after :: "'a list \<Rightarrow> nat \<Rightarrow> 'a list" where
  "after ms k = map (\<lambda>i. ms ! ((k + i) mod length ms)) [1..<length ms]"

lemma after_rotate:
  assumes "k < length ms"
  shows "after ms k = drop (Suc k) ms @ take k ms"
proof (rule nth_equalityI)
  show len: "length (after ms k) = length (drop (Suc k) ms @ take k ms)"
    using assms by (simp add: after_def)
  fix i assume i: "i < length (after ms k)"
  then have "i < length ms - 1" by (simp add: after_def)
  then have a: "after ms k ! i = ms ! ((k + Suc i) mod length ms)"
    by (simp add: after_def)
  show "after ms k ! i = (drop (Suc k) ms @ take k ms) ! i"
  proof (cases "k + Suc i < length ms")
    case True
    then have "i < length ms - Suc k" by linarith
    with True show ?thesis by (simp add: a nth_append)
  next
    case False
    then have "(k + Suc i) mod length ms = k + Suc i - length ms"
      using assms \<open>i < length ms - 1\<close> by (subst mod_if) auto
    moreover have "\<not> i < length ms - Suc k" and "i - (length ms - Suc k) = k + Suc i - length ms"
      and "k + Suc i - length ms < k"
      using False assms \<open>i < length ms - 1\<close> by linarith+
    ultimately show ?thesis using assms by (simp add: a nth_append)
  qed
qed

end
