(* ===== verification/Placement.thy ===== *)
theory Placement
  imports Ring
begin

text \<open>
  What the ring functions compute, and that they agree: the loops of \<^verbatim>\<open>Ring\<close>
  against list expressions over positions, the nearest alive predecessor, the primary range against
  the primary that \<^verbatim>\<open>findTargetNodes\<close> picks, and the full range of a node against
  the replica sets it belongs to.
\<close>

section \<open>Loops as list expressions\<close>

lemma succ_loop_eq:
  assumes "k < length ms" and "1 \<le> i"
  shows "succ_loop ms (int k) n (int i) c acc =
    Inr (acc @ take (nat (n - 1 - c))
      (filter IsAlive (map (\<lambda>j. ms ! ((k + j) mod length ms)) [i..<length ms])))"
  using assms(2)
proof (induction "length ms - i" arbitrary: i c acc)
  case 0
  then show ?case by (subst succ_loop.simps) simp
next
  case (Suc d)
  let ?N = "length ms"
  let ?m = "ms ! ((k + i) mod ?N)"
  from Suc.hyps(2) have i: "i < ?N" by simp
  then have pos: "(k + i) mod ?N < ?N" "0 < ?N" by (auto intro!: mod_less_divisor)
  then have nth: "go_nth ms (GetRingSuccessorIdx (int k) (int i) (int ?N)) = Inr ?m"
    by (simp only: succ_idx go_nth_nat)
  have up: "[i..<?N] = i # [Suc i..<?N]" using i by (simp add: upt_conv_Cons)
  have IH: "succ_loop ms (int k) n (int i + 1) c' acc' =
      Inr (acc' @ take (nat (n - 1 - c'))
        (filter IsAlive (map (\<lambda>j. ms ! ((k + j) mod ?N)) [Suc i..<?N])))" for c' acc'
    using Suc.hyps(1) [of "Suc i" c' acc'] Suc.hyps(2) by (simp add: add.commute)
  show ?case
  proof (cases "c < n - 1")
    case True
    have "nat (n - 1 - c) = Suc (nat (n - 1 - (c + 1)))" using True by simp
    with True i show ?thesis
      by (subst succ_loop.simps) (simp add: nth IH up)
  next
    case False
    then show ?thesis by (subst succ_loop.simps) simp
  qed
qed

lemma target_loop_eq:
  assumes "p < length ms"
  shows "target_loop ms (int p) rf (int i) acc =
    Inr (acc @ filter IsAlive (map (\<lambda>j. ms ! ((p + j) mod length ms)) [i..<nat rf]))"
proof (induction "nat rf - i" arbitrary: i acc)
  case 0
  then have "\<not> int i < rf" by linarith
  with 0 show ?case by (subst target_loop.simps) simp
next
  case (Suc d)
  let ?N = "length ms"
  let ?m = "ms ! ((p + i) mod ?N)"
  from assms have N: "0 < ?N" by linarith
  have "go_mod (int p + int i) (int ?N) = int ((p + i) mod ?N)"
    using succ_idx [OF N, of p i] by (simp add: GetRingSuccessorIdx_def)
  then have nth: "go_nth ms (go_mod (int p + int i) (int ?N)) = Inr ?m"
    using N by (simp only: go_nth_nat mod_less_divisor)
  from Suc.hyps(2) have i: "i < nat rf" by simp
  then have up: "[i..<nat rf] = i # [Suc i..<nat rf]" and "int i < rf"
    by (simp add: upt_conv_Cons, linarith)
  have IH: "target_loop ms (int p) rf (int i + 1) acc' =
      Inr (acc' @ filter IsAlive (map (\<lambda>j. ms ! ((p + j) mod ?N)) [Suc i..<nat rf]))" for acc'
    using Suc.hyps(1) [of "Suc i" acc'] Suc.hyps(2) by (simp add: add.commute)
  show ?case
    using \<open>int i < rf\<close> by (subst target_loop.simps) (simp add: nth IH up IsAlive_def)
qed

text \<open>The position \<open>d\<close> steps before \<open>k\<close>.\<close>

definition prev_pos :: "nat \<Rightarrow> nat \<Rightarrow> nat \<Rightarrow> nat" where
  "prev_pos N k d = (k + N - d) mod N"

lemma prev_pos_Suc: "d < N \<Longrightarrow> GetRingPredecessorIdx (int (prev_pos N k d)) (int N) = int (prev_pos N k (Suc d))"
proof -
  assume d: "d < N"
  then have "0 < N" by simp
  then have "prev_pos N k d < N" by (simp add: prev_pos_def)
  then have "GetRingPredecessorIdx (int (prev_pos N k d)) (int N) = int ((prev_pos N k d + (N - 1)) mod N)"
    using \<open>0 < N\<close> by (simp add: pred_idx)
  moreover have "(prev_pos N k d + (N - 1)) mod N = (k + N - d + (N - 1)) mod N"
    by (simp add: prev_pos_def mod_add_left_eq)
  moreover have "k + N - d + (N - 1) = (k + N - Suc d) + N" using d by simp
  ultimately show ?thesis by (simp add: prev_pos_def)
qed

lemma pred_scan_eq:
  assumes "k < length ms" and "d \<le> length ms"
  shows "pred_scan (length ms - d) ms (int (prev_pos (length ms) k d)) =
    Inr (map_option (\<lambda>j. int (prev_pos (length ms) k j))
      (List.find (\<lambda>j. IsAlive (ms ! prev_pos (length ms) k j)) [Suc d..<Suc (length ms)]))"
  using assms(2)
proof (induction "length ms - d" arbitrary: d)
  case 0
  then show ?case by simp
next
  case (Suc x)
  let ?N = "length ms"
  have d: "d < ?N" and x: "?N - d = Suc (?N - Suc d)" using Suc.hyps(2) by simp_all
  have "prev_pos ?N k (Suc d) < ?N"
    unfolding prev_pos_def using d by (intro mod_less_divisor) linarith
  then have nth: "go_nth ms (int (prev_pos ?N k (Suc d))) = Inr (ms ! prev_pos ?N k (Suc d))"
    by (rule go_nth_nat)
  have up: "[Suc d..<Suc ?N] = Suc d # [Suc (Suc d)..<Suc ?N]" using d by (simp add: upt_conv_Cons)
  show ?case
    unfolding x up using Suc.hyps(1) [of "Suc d"] Suc.hyps(2) d
    by (simp add: Let_def prev_pos_Suc nth)
qed

section \<open>The ring invariant\<close>

text \<open>
  The list is sorted, identities are distinct, and so are the positions: two nodes that hash to the
  same point share a key range, which is what the placement cannot handle. The ten addresses of
  \<^verbatim>\<open>NodeMap\<close> hash to ten points.
\<close>

definition ring_ok :: "Member list \<Rightarrow> bool" where
  "ring_ok ms \<longleftrightarrow> sorted_wrt (<) (map Hash ms) \<and> distinct (map ID ms)"

lemma ring_ok_wf: "ring_ok ms \<longleftrightarrow> wf_members ms \<and> distinct (map Hash ms)"
  by (auto simp: ring_ok_def wf_members_def strict_sorted_iff)

lemma ring_ok_less: "ring_ok ms \<Longrightarrow> i < j \<Longrightarrow> j < length ms \<Longrightarrow> Hash (ms ! i) < Hash (ms ! j)"
  by (auto simp: ring_ok_def sorted_wrt_iff_nth_less)

lemma ring_ok_less_iff:
  "ring_ok ms \<Longrightarrow> i < length ms \<Longrightarrow> j < length ms \<Longrightarrow> Hash (ms ! i) < Hash (ms ! j) \<longleftrightarrow> i < j"
  by (metis linorder_neqE_nat order_less_asym ring_ok_less order_less_irrefl)

lemma ring_ok_distinct: "ring_ok ms \<Longrightarrow> distinct ms"
  by (auto simp: ring_ok_def distinct_map)

lemma GetNodeIndex_ring:
  "ring_ok ms \<Longrightarrow> k < length ms \<Longrightarrow> GetNodeIndex ms (ID (ms ! k)) = int k"
  by (simp add: GetNodeIndex_nth ring_ok_def)

section \<open>The primary of a key\<close>

text \<open>The nearest alive predecessor, by position.\<close>

definition nearest_pred :: "Member list \<Rightarrow> nat \<Rightarrow> nat \<Rightarrow> bool" where
  "nearest_pred ms k q \<longleftrightarrow> q < length ms \<and> IsAlive (ms ! q) \<and>
     (q < k \<and> (\<forall>j. q < j \<and> j < k \<longrightarrow> \<not> IsAlive (ms ! j)) \<or>
      q = k \<and> (\<forall>j < length ms. j \<noteq> k \<longrightarrow> \<not> IsAlive (ms ! j)) \<or>
      k < q \<and> (\<forall>j < k. \<not> IsAlive (ms ! j)) \<and>
        (\<forall>j. q < j \<and> j < length ms \<longrightarrow> \<not> IsAlive (ms ! j)))"

lemma prev_pos_cases:
  assumes "k < N" "1 \<le> d" "d \<le> N"
  shows "prev_pos N k d = (if d \<le> k then k - d else k + N - d)"
  using assms by (auto simp: prev_pos_def mod_if)

lemma pred_scan_nearest:
  assumes k: "k < length ms" and alive: "IsAlive (ms ! k)"
  obtains q where "pred_scan (length ms) ms (int k) = Inr (Some (int q))" "nearest_pred ms k q"
proof -
  let ?N = "length ms"
  have b0: "prev_pos ?N k 0 = k" and bN: "prev_pos ?N k ?N = k" using k by (simp_all add: prev_pos_def)
  let ?P = "\<lambda>j. IsAlive (ms ! prev_pos ?N k j)"
  have eq: "pred_scan ?N ms (int k) =
      Inr (map_option (\<lambda>j. int (prev_pos ?N k j)) (List.find ?P [1..<Suc ?N]))"
    using pred_scan_eq [OF k, of 0] b0 by (simp del: upt_Suc)
  have "List.find ?P [1..<Suc ?N] \<noteq> None"
    using alive bN k by (auto simp: find_None_iff intro!: bexI [of _ ?N])
  then obtain d where find: "List.find ?P [1..<Suc ?N] = Some d" by auto
  then obtain i where "i < length [1..<Suc ?N]" "d = [1..<Suc ?N] ! i" "?P ([1..<Suc ?N] ! i)"
    "\<forall>j < i. \<not> ?P ([1..<Suc ?N] ! j)"
    unfolding find_Some_iff by blast
  then have "i < ?N" and d: "d = Suc i" and Pd: "?P d" and least: "\<forall>j < i. \<not> ?P (Suc j)"
    by (auto simp: nth_upt simp del: upt_Suc)
  then have dN: "1 \<le> d" "d \<le> ?N" by simp_all
  have no: "\<not> ?P x" if "1 \<le> x" "x < d" for x
    using that least d by (cases x) auto
  have "nearest_pred ms k (prev_pos ?N k d)"
  proof (cases "d \<le> k")
    case True
    have "\<not> IsAlive (ms ! j)" if "k - d < j" "j < k" for j
      using no [of "k - j"] that True k by (simp add: prev_pos_cases)
    with True dN k Pd show ?thesis by (simp add: nearest_pred_def prev_pos_cases)
  next
    case False
    have lo: "\<not> IsAlive (ms ! j)" if "j < k" for j
      using no [of "k - j"] that False k by (simp add: prev_pos_cases)
    have hi: "\<not> IsAlive (ms ! j)" if "k + ?N - d < j" "j < ?N" for j
    proof -
      have "1 \<le> k + ?N - j" "k + ?N - j < d" "k + ?N - j \<le> ?N" "\<not> k + ?N - j \<le> k"
        and "k + ?N - (k + ?N - j) = j"
        using that False k dN by linarith+
      then show ?thesis using no [of "k + ?N - j"] k by (simp only: prev_pos_cases if_False simp_thms)
    qed
    show ?thesis
    proof (cases "d = ?N")
      case True
      with lo hi k alive show ?thesis
        by (auto simp: nearest_pred_def bN) (metis add_diff_cancel_right' linorder_neqE_nat)
    next
      case False
      with \<open>\<not> d \<le> k\<close> dN have "k < k + ?N - d" "k + ?N - d < ?N" by linarith+
      with \<open>\<not> d \<le> k\<close> lo hi dN k Pd show ?thesis by (simp add: nearest_pred_def prev_pos_cases)
    qed
  qed
  with that eq find show ?thesis by simp
qed

lemma GetPrimaryKeyRange_nearest:
  assumes ok: "ring_ok ms" and k: "k < length ms" and alive: "IsAlive (ms ! k)"
  obtains q where "nearest_pred ms k q"
    "GetPrimaryKeyRange ms (ID (ms ! k)) = Inr (Some (Hash (ms ! q), Hash (ms ! k)))"
proof -
  obtain q where q: "pred_scan (length ms) ms (int k) = Inr (Some (int q))" "nearest_pred ms k q"
    using pred_scan_nearest [OF k alive] .
  have "ms \<noteq> []" using k by auto
  moreover have "go_nth ms (int q) = Inr (ms ! q)" "go_nth ms (int k) = Inr (ms ! k)"
    using q(2) k by (simp_all add: go_nth_nat nearest_pred_def)
  ultimately show ?thesis
    using q that GetNodeIndex_ring [OF ok k] by (simp add: GetPrimaryKeyRange_def Let_def)
qed

lemma alive_index_none:
  "first_index (\<lambda>m. Status m = StatusAlive) ms = - 1 \<longleftrightarrow> (\<forall>j < length ms. \<not> IsAlive (ms ! j))"
  by (simp add: first_index_none_nth IsAlive_def)

lemma primaryIndex_eqI:
  assumes "k < length ms" "IsAlive (ms ! k)"
    and "h \<le> Hash (ms ! k) \<and> (\<forall>j < k. IsAlive (ms ! j) \<longrightarrow> Hash (ms ! j) < h) \<or>
      (\<forall>j < length ms. IsAlive (ms ! j) \<longrightarrow> Hash (ms ! j) < h) \<and> (\<forall>j < k. \<not> IsAlive (ms ! j))"
  shows "primaryIndex ms h = int k"
  using assms(3)
proof (elim disjE conjE)
  assume "h \<le> Hash (ms ! k)" "\<forall>j < k. IsAlive (ms ! j) \<longrightarrow> Hash (ms ! j) < h"
  then have "first_index (\<lambda>m. Status m = StatusAlive \<and> h \<le> Hash m) ms = int k"
    using assms(1,2) by (intro first_index_eqI) (auto simp: IsAlive_def)
  then show ?thesis by (simp add: primaryIndex_def)
next
  assume none: "\<forall>j < length ms. IsAlive (ms ! j) \<longrightarrow> Hash (ms ! j) < h"
    and first: "\<forall>j < k. \<not> IsAlive (ms ! j)"
  have "first_index (\<lambda>m. Status m = StatusAlive \<and> h \<le> Hash m) ms = - 1"
    using none by (auto simp: first_index_none_nth IsAlive_def not_le)
  moreover have "first_index (\<lambda>m. Status m = StatusAlive) ms = int k"
    using first assms(1,2) by (intro first_index_eqI) (auto simp: IsAlive_def)
  ultimately show ?thesis by (simp add: primaryIndex_def)
qed

lemma primaryIndex_cases:
  assumes "k < length ms" "IsAlive (ms ! k)"
  obtains p where "p < length ms" "primaryIndex ms h = int p" "IsAlive (ms ! p)"
    "h \<le> Hash (ms ! p) \<and> (\<forall>j < p. IsAlive (ms ! j) \<longrightarrow> Hash (ms ! j) < h) \<or>
      (\<forall>j < length ms. IsAlive (ms ! j) \<longrightarrow> Hash (ms ! j) < h) \<and> (\<forall>j < p. \<not> IsAlive (ms ! j))"
proof (cases "first_index (\<lambda>m. Status m = StatusAlive \<and> h \<le> Hash m) ms = - 1")
  case False
  then obtain p where "p < length ms" "IsAlive (ms ! p)" "h \<le> Hash (ms ! p)"
    "\<forall>j < p. IsAlive (ms ! j) \<longrightarrow> Hash (ms ! j) < h"
    by (elim first_index_someE) (auto simp: IsAlive_def not_le)
  then show ?thesis by (auto intro!: that [of p] primaryIndex_eqI)
next
  case True
  then have none: "\<forall>j < length ms. IsAlive (ms ! j) \<longrightarrow> Hash (ms ! j) < h"
    by (auto simp: first_index_none_nth IsAlive_def not_le)
  have "first_index (\<lambda>m. Status m = StatusAlive) ms \<noteq> - 1"
    using assms by (auto simp: alive_index_none)
  then obtain p where "p < length ms" "IsAlive (ms ! p)" "\<forall>j < p. \<not> IsAlive (ms ! j)"
    by (elim first_index_someE) (auto simp: IsAlive_def)
  with none show ?thesis by (auto intro!: that [of p] primaryIndex_eqI)
qed

lemma nearest_pred_primary:
  assumes ok: "ring_ok ms" and k: "k < length ms" and alive: "IsAlive (ms ! k)"
    and q: "nearest_pred ms k q"
  shows "IsHashInRange h (Hash (ms ! q)) (Hash (ms ! k)) \<longleftrightarrow> primaryIndex ms h = int k"
proof -
  note less = ring_ok_less_iff [OF ok]
  obtain p where p: "p < length ms" "primaryIndex ms h = int p" "IsAlive (ms ! p)"
    "h \<le> Hash (ms ! p) \<and> (\<forall>j < p. IsAlive (ms ! j) \<longrightarrow> Hash (ms ! j) < h) \<or>
      (\<forall>j < length ms. IsAlive (ms ! j) \<longrightarrow> Hash (ms ! j) < h) \<and> (\<forall>j < p. \<not> IsAlive (ms ! j))"
    using primaryIndex_cases [OF k alive] .
  from q have qN: "q < length ms" and qa: "IsAlive (ms ! q)" by (simp_all add: nearest_pred_def)
  consider "q < k" "\<forall>j. q < j \<and> j < k \<longrightarrow> \<not> IsAlive (ms ! j)"
    | "q = k" "\<forall>j < length ms. j \<noteq> k \<longrightarrow> \<not> IsAlive (ms ! j)"
    | "k < q" "\<forall>j < k. \<not> IsAlive (ms ! j)" "\<forall>j. q < j \<and> j < length ms \<longrightarrow> \<not> IsAlive (ms ! j)"
    using q by (auto simp: nearest_pred_def)
  then show ?thesis
  proof cases
    case 1
    have "primaryIndex ms h = int k" if "Hash (ms ! q) < h" "h \<le> Hash (ms ! k)"
    proof (rule primaryIndex_eqI [OF k alive], rule disjI1, intro conjI allI impI)
      fix j assume "j < k" "IsAlive (ms ! j)"
      with 1(2) have "j \<le> q" using not_less by blast
      then have "Hash (ms ! j) \<le> Hash (ms ! q)" using less [of q j] qN k \<open>j < k\<close> by (simp add: not_less)
      with that show "Hash (ms ! j) < h" by simp
    qed (rule that)
    moreover have "Hash (ms ! q) < h \<and> h \<le> Hash (ms ! k)" if "p = k"
      using p(4) that 1(1) qa by auto
    moreover have "Hash (ms ! q) < Hash (ms ! k)" using 1(1) less qN k by simp
    ultimately show ?thesis using p(2) by (auto simp: IsHashInRange_def)
  next
    case 2
    then have "p = k" using p(1,3) by blast
    with 2 p(2) show ?thesis by (auto simp: IsHashInRange_def)
  next
    case 3
    have qk: "Hash (ms ! k) < Hash (ms ! q)" using 3(1) less qN k by simp
    have "primaryIndex ms h = int k" if "h \<le> Hash (ms ! k)"
      using 3(2) that by (intro primaryIndex_eqI [OF k alive]) auto
    moreover have "primaryIndex ms h = int k" if "Hash (ms ! q) < h"
    proof (rule primaryIndex_eqI [OF k alive], rule disjI2, intro conjI allI impI)
      fix j assume "j < length ms" "IsAlive (ms ! j)"
      with 3(3) have "j \<le> q" using not_less by blast
      then have "Hash (ms ! j) \<le> Hash (ms ! q)"
        using less [of q j] qN \<open>j < length ms\<close> by (simp add: not_less)
      with that show "Hash (ms ! j) < h" by simp
    qed (use 3(2) in simp)
    moreover have "Hash (ms ! q) < h \<or> h \<le> Hash (ms ! k)" if "p = k"
      using p(4) that qN qa by auto
    ultimately show ?thesis using p(2) qk by (auto simp: IsHashInRange_def)
  qed
qed

section \<open>Targets by position\<close>

lemma findTargetNodes_eq:
  assumes "p < length ms" and "primaryIndex ms h = int p"
  shows "findTargetNodes ms h rf =
    Inr (filter IsAlive (map (\<lambda>j. ms ! ((p + j) mod length ms)) [0..<nat rf]))"
proof -
  have "length ms \<noteq> 0" using assms(1) by linarith
  then show ?thesis
    using target_loop_eq [OF assms(1), of rf 0 "[]"] assms(2)
    by (simp add: findTargetNodes_def Let_def)
qed

lemma findTargetNodes_hd:
  assumes "p < length ms" and "primaryIndex ms h = int p" and "IsAlive (ms ! p)" and "1 \<le> rf"
  obtains ts where "findTargetNodes ms h rf = Inr (ms ! p # ts)"
proof -
  have "[0..<nat rf] = 0 # [Suc 0..<nat rf]" using assms(4) by (simp add: upt_conv_Cons)
  with assms that show ?thesis by (simp add: findTargetNodes_eq)
qed

text \<open>The primary range, and the keys whose first target is the node.\<close>

lemma primary_range:
  assumes ok: "ring_ok ms" and k: "k < length ms" and alive: "IsAlive (ms ! k)" and rf: "1 \<le> rf"
  obtains lo hi where "GetPrimaryKeyRange ms (ID (ms ! k)) = Inr (Some (lo, hi))"
    "\<And>h. IsHashInRange h lo hi \<longleftrightarrow> (\<exists>ts. findTargetNodes ms h rf = Inr (ms ! k # ts))"
proof -
  obtain q where q: "nearest_pred ms k q"
    and r: "GetPrimaryKeyRange ms (ID (ms ! k)) = Inr (Some (Hash (ms ! q), Hash (ms ! k)))"
    using GetPrimaryKeyRange_nearest [OF ok k alive] .
  have "primaryIndex ms h = int k \<longleftrightarrow> (\<exists>ts. findTargetNodes ms h rf = Inr (ms ! k # ts))" for h
  proof -
    obtain p where p: "p < length ms" "primaryIndex ms h = int p" "IsAlive (ms ! p)"
      using primaryIndex_cases [OF k alive] by metis
    obtain ts where "findTargetNodes ms h rf = Inr (ms ! p # ts)"
      using findTargetNodes_hd [OF p rf] .
    with p(1,2) k show ?thesis
      by (simp add: nth_eq_iff_index_eq [OF ring_ok_distinct [OF ok]])
  qed
  with nearest_pred_primary [OF ok k alive q] show ?thesis by (intro that [OF r]) simp
qed

text \<open>Position \<open>k\<close> lies in the window of \<open>r\<close> positions that starts at \<open>p\<close>.\<close>

lemma window_iff:
  fixes p k r N :: nat
  assumes "p < N" "k < N" "1 \<le> r" "r \<le> N"
  shows "(\<exists>j < r. (p + j) mod N = k) \<longleftrightarrow>
    (if r \<le> k then k - r < p \<and> p \<le> k else p \<le> k \<or> k + N - r < p)"
proof -
  have pos: "(p + j) mod N = (if p + j < N then p + j else p + j - N)" if "j < r" for j
    using that assms by (auto simp: mod_if)
  show ?thesis
  proof
    assume "\<exists>j < r. (p + j) mod N = k"
    then show "if r \<le> k then k - r < p \<and> p \<le> k else p \<le> k \<or> k + N - r < p"
      using pos assms by (auto split: if_splits)
  next
    assume w: "if r \<le> k then k - r < p \<and> p \<le> k else p \<le> k \<or> k + N - r < p"
    show "\<exists>j < r. (p + j) mod N = k"
    proof (cases "p \<le> k")
      case True
      with w assms have "k - p < r" by (auto split: if_splits)
      with pos [of "k - p"] True assms show ?thesis by (intro exI [of _ "k - p"]) simp
    next
      case False
      with w assms have "k + N - p < r" by (auto split: if_splits)
      with pos [of "k + N - p"] False assms show ?thesis by (intro exI [of _ "k + N - p"]) simp
    qed
  qed
qed

lemma findTargetNodes_all_alive:
  assumes "\<forall>m \<in> set ms. IsAlive m" and "p < length ms" and "primaryIndex ms h = int p"
  shows "findTargetNodes ms h rf = Inr (map (\<lambda>j. ms ! ((p + j) mod length ms)) [0..<nat rf])"
proof -
  have "0 < length ms" using assms(2) by linarith
  then have "filter IsAlive (map (\<lambda>j. ms ! ((p + j) mod length ms)) [0..<nat rf]) =
      map (\<lambda>j. ms ! ((p + j) mod length ms)) [0..<nat rf]"
    using assms(1) by (intro filter_True) auto
  with assms(2,3) show ?thesis by (simp only: findTargetNodes_eq)
qed

lemma member_target_iff:
  assumes ok: "ring_ok ms" and alive: "\<forall>m \<in> set ms. IsAlive m"
    and p: "p < length ms" "primaryIndex ms h = int p" and k: "k < length ms"
    and rf: "1 \<le> r" "r \<le> length ms"
  shows "(\<exists>ts. findTargetNodes ms h (int r) = Inr ts \<and> ms ! k \<in> set ts) \<longleftrightarrow>
    (if r \<le> k then k - r < p \<and> p \<le> k else p \<le> k \<or> k + length ms - r < p)"
proof -
  have "0 < length ms" using k by linarith
  then have "ms ! ((p + j) mod length ms) = ms ! k \<longleftrightarrow> (p + j) mod length ms = k" for j
    using k by (simp add: nth_eq_iff_index_eq [OF ring_ok_distinct [OF ok]])
  then show ?thesis
    using window_iff [OF p(1) k rf] findTargetNodes_all_alive [OF alive p, of "int r"]
    by (auto simp: image_iff) (metis atLeastLessThan_iff le0)+
qed

section \<open>The full range by position\<close>

lemma window_start:
  fixes k r N :: nat
  assumes "k < N" "1 \<le> r" "r \<le> N"
  shows "(k + N - r) mod N = (if r \<le> k then k - r else k + N - r)"
proof (cases "r \<le> k")
  case True
  then have "k + N - r = k - r + N" by simp
  with True assms show ?thesis by (simp only: mod_add_self2 if_True) simp
qed (use assms in simp)

lemma GetAllKeyRange_eq:
  assumes ok: "ring_ok ms" and k: "k < length ms" and r: "1 \<le> r" "r \<le> length ms"
    and q: "q = (if r \<le> k then k - r else k + length ms - r)"
  shows "GetAllKeyRange ms (ID (ms ! k)) (int r) = Inr (Some (Hash (ms ! q), Hash (ms ! k)))"
    and "q < length ms" and "q < k \<longleftrightarrow> r \<le> k"
proof -
  have N: "0 < length ms" using k by linarith
  have "int k - int r + int (length ms) = int (k + length ms - r)" using r by linarith
  then have "go_mod (int k - int r + int (length ms)) (int (length ms)) = int q"
    using N window_start [OF k r] by (simp only: go_mod_nat q)
  moreover show qN: "q < length ms" and "q < k \<longleftrightarrow> r \<le> k" using q k r by auto
  ultimately show "GetAllKeyRange ms (ID (ms ! k)) (int r) = Inr (Some (Hash (ms ! q), Hash (ms ! k)))"
    using N k by (simp add: GetAllKeyRange_def GetNodeIndex_ring [OF ok k] go_nth_nat)
qed

lemma full_range_window:
  assumes ok: "ring_ok ms" and alive: "\<forall>m \<in> set ms. IsAlive m"
    and k: "k < length ms" and q: "q < length ms"
  obtains p where "p < length ms" "primaryIndex ms h = int p"
    "IsHashInRange h (Hash (ms ! q)) (Hash (ms ! k)) \<longleftrightarrow>
      (if q < k then q < p \<and> p \<le> k else q < p \<or> p \<le> k)"
proof -
  have ka: "IsAlive (ms ! k)" using alive k by simp
  note less = ring_ok_less_iff [OF ok]
  obtain p where p: "p < length ms" "primaryIndex ms h = int p"
    and ph: "h \<le> Hash (ms ! p) \<and> (\<forall>j < p. IsAlive (ms ! j) \<longrightarrow> Hash (ms ! j) < h) \<or>
      (\<forall>j < length ms. IsAlive (ms ! j) \<longrightarrow> Hash (ms ! j) < h) \<and> (\<forall>j < p. \<not> IsAlive (ms ! j))"
    using primaryIndex_cases [OF k ka] by metis
  have "IsHashInRange h (Hash (ms ! q)) (Hash (ms ! k)) \<longleftrightarrow>
      (if q < k then q < p \<and> p \<le> k else q < p \<or> p \<le> k)"
    using ph
  proof (elim disjE conjE)
    assume up: "h \<le> Hash (ms ! p)" and "\<forall>j < p. IsAlive (ms ! j) \<longrightarrow> Hash (ms ! j) < h"
    then have down: "Hash (ms ! j) < h" if "j < p" for j using that p(1) alive by simp
    have "h \<le> Hash (ms ! j) \<longleftrightarrow> p \<le> j" if "j < length ms" for j
      using up down [of j] less [OF that p(1)] by (cases "j < p") auto
    then have "Hash (ms ! q) < h \<longleftrightarrow> q < p" and "h \<le> Hash (ms ! k) \<longleftrightarrow> p \<le> k"
      using q k by (simp_all flip: not_le)
    with less [OF q k] show ?thesis by (simp only: IsHashInRange_def)
  next
    assume all: "\<forall>j < length ms. IsAlive (ms ! j) \<longrightarrow> Hash (ms ! j) < h"
      and first: "\<forall>j < p. \<not> IsAlive (ms ! j)"
    have "p = 0"
    proof (rule ccontr)
      assume "p \<noteq> 0"
      with first have "\<not> IsAlive (ms ! 0)" by simp
      with alive k show False by (metis gr_zeroI less_trans nth_mem not_less_zero neq0_conv)
    qed
    moreover have "Hash (ms ! q) < h" and "\<not> h \<le> Hash (ms ! k)" using all alive q k by (simp_all add: not_le)
    ultimately show ?thesis using less [OF q k] by (simp add: IsHashInRange_def)
  qed
  with p that show ?thesis by blast
qed

section \<open>Targets and successors\<close>

lemma set_filter_take: "set (filter P (take n xs)) \<subseteq> set (take n (filter P xs))"
proof (induction xs arbitrary: n)
  case (Cons x xs)
  show ?case
  proof (cases n)
    case (Suc j)
    have "set (take j (filter P xs)) \<subseteq> set (take (Suc j) (filter P xs))" by (intro set_take_subset_set_take) simp
    then show ?thesis using Cons.IH [of j] Suc by auto
  qed simp
qed simp

text \<open>
  The other targets of a key are among the successors of its primary, also while dead members are
  listed: then the targets are fewer, and the successors reach further.
\<close>

lemma targets_among_successors:
  assumes ok: "ring_ok ms" and k: "k < length ms" and rf: "1 \<le> rf"
  obtains succ where "GetSuccessors ms (ID (ms ! k)) rf = Inr succ" "set succ \<subseteq> {m \<in> set ms. IsAlive m} - {ms ! k}"
    "distinct succ" "\<And>h ts. findTargetNodes ms h rf = Inr (ms ! k # ts) \<Longrightarrow> set ts \<subseteq> insert (ms ! k) (set succ)"
proof -
  let ?N = "length ms" and ?f = "\<lambda>j. ms ! ((k + j) mod length ms)"
  define succ where "succ = take (nat (rf - 1)) (filter IsAlive (map ?f [1..<?N]))"
  have N: "0 < ?N" using k by linarith
  have idx: "?f i = ?f j \<longleftrightarrow> (k + i) mod ?N = (k + j) mod ?N" for i j
    using N by (simp add: nth_eq_iff_index_eq [OF ring_ok_distinct [OF ok]])
  have inj: "i = j" if "i < ?N" "j < ?N" "?f i = ?f j" for i j
  proof -
    have "(k + i) mod ?N = (k + j) mod ?N" using that(3) by (simp only: idx)
    then show ?thesis using that(1,2) k by (auto simp: mod_if split: if_splits)
  qed
  then have "inj_on ?f {1..<?N}" by (intro inj_onI) simp
  then have dist: "distinct (map ?f [1..<?N])" by (simp add: distinct_map)
  have notk: "ms ! k \<notin> ?f ` {1..<?N}"
  proof
    assume "ms ! k \<in> ?f ` {1..<?N}"
    then obtain j where "1 \<le> j" "j < ?N" "?f 0 = ?f j" using k by auto
    with inj [of 0 j] N show False by simp
  qed
  have sub: "set succ \<subseteq> {m \<in> set ms. IsAlive m} - {ms ! k}"
  proof
    fix x assume "x \<in> set succ"
    then have x: "x \<in> set (filter IsAlive (map ?f [1..<?N]))" unfolding succ_def by (rule in_set_takeD)
    then have x: "x \<in> ?f ` {1..<?N}" "IsAlive x" by (simp_all only: set_filter set_map set_upt mem_Collect_eq)
    then obtain j where "x = ?f j" by blast
    then have "x \<in> set ms" using N by simp
    with x show "x \<in> {m \<in> set ms. IsAlive m} - {ms ! k}" using notk by blast
  qed
  have "set ts \<subseteq> insert (ms ! k) (set succ)" if t: "findTargetNodes ms h rf = Inr (ms ! k # ts)" for h ts
  proof
    have "\<exists>m \<in> set ms. IsAlive m"
    proof (rule ccontr)
      assume "\<not> ?thesis"
      then have "primaryIndex ms h = - 1" by (auto simp: primaryIndex_def first_index_none IsAlive_def)
      with t show False by (simp add: findTargetNodes_def split: if_splits)
    qed
    then obtain i where "i < ?N" "IsAlive (ms ! i)" by (auto simp: in_set_conv_nth)
    then obtain p where p: "p < ?N" "primaryIndex ms h = int p" "IsAlive (ms ! p)" using primaryIndex_cases by metis
    from findTargetNodes_hd [OF p rf] t have "ms ! p = ms ! k" by (metis Inr_inject list.inject)
    then have pk: "p = k" using p(1) k by (simp add: nth_eq_iff_index_eq [OF ring_ok_distinct [OF ok]])
    have all: "filter IsAlive (map ?f [0..<nat rf]) = ms ! k # ts"
      using t findTargetNodes_eq [OF p(1,2)] by (simp add: pk)
    fix x assume "x \<in> set ts"
    then have "x \<in> set (filter IsAlive (map ?f [0..<nat rf]))" unfolding all by simp
    then obtain j where j: "j < nat rf" "x = ?f j" "IsAlive x" by auto
    show "x \<in> insert (ms ! k) (set succ)"
    proof (cases "j mod ?N = 0")
      case True
      then have "(k + j) mod ?N = k" using k mod_add_right_eq [of k j ?N] by simp
      then show ?thesis using j(2) by simp
    next
      case False
      have le: "j mod ?N \<le> j" by (rule mod_less_eq_dividend)
      have "x = ?f (j mod ?N)" using j(2) by (simp add: mod_add_right_eq)
      moreover have "take (nat (rf - 1)) [1..<?N] = [1..<min (nat rf) ?N]"
        using rf by (simp add: take_upt min_def nat_diff_distrib')
      moreover have "j mod ?N < min (nat rf) ?N"
        using le_less_trans [OF le j(1)] mod_less_divisor [OF N] by simp
      ultimately have "x \<in> set (filter IsAlive (take (nat (rf - 1)) (map ?f [1..<?N])))"
        using False j(3) by (auto simp: take_map)
      then show ?thesis using set_filter_take unfolding succ_def by fastforce
    qed
  qed
  moreover have "GetSuccessors ms (ID (ms ! k)) rf = Inr succ"
  proof -
    have "length ms \<noteq> 0" using N by simp
    moreover have "succ_loop ms (int k) rf 1 0 [] = Inr succ"
      using succ_loop_eq [OF k, of 1 rf 0 "[]"] by (simp add: succ_def)
    ultimately show ?thesis by (simp add: GetSuccessors_def GetNodeIndex_ring [OF ok k] Let_def)
  qed
  moreover have "distinct succ" using dist unfolding succ_def by (intro distinct_take distinct_filter)
  ultimately show ?thesis using sub by (intro that [of succ])
qed

end
