(* ===== verification/Config_Model.thy ===== *)
theory Config_Model
  imports Go_Strings Complex_Main
begin

text \<open>
  Models \<^verbatim>\<open>src/config.go\<close> (the process-wide configuration and the two run-time
  switches) and \<^verbatim>\<open>src/bandwidth.go\<close> (the byte counters).
\<close>

section \<open>Protocols\<close>

text \<open>
  Both types are strings with two named values each. A \<^verbatim>\<open>ProtocolSwitch\<close> request
  is applied as it arrives, so any other string can get into the configuration.
\<close>

datatype ProtocolType = GossipProtocol | PingAckProtocol | ProtocolOther string
datatype SuspicionType = Suspect | NoSuspect | SuspicionOther string

definition ProtocolMap :: "ProtocolType go_map" where
  "ProtocolMap = [(''gossip'', GossipProtocol), (''ping'', PingAckProtocol)]"

definition SuspicionMap :: "SuspicionType go_map" where
  "SuspicionMap = [(''suspect'', Suspect), (''nosuspect'', NoSuspect)]"

section \<open>Nodes\<close>

definition NodeMap :: "string go_map" where
  "NodeMap =
     [(''vm1'', ''127.0.0.1:5000''), (''vm2'', ''127.0.0.1:5001''), (''vm3'', ''127.0.0.1:5002''),
      (''vm4'', ''127.0.0.1:5003''), (''vm5'', ''127.0.0.1:5004''), (''vm6'', ''127.0.0.1:5005''),
      (''vm7'', ''127.0.0.1:5006''), (''vm8'', ''127.0.0.1:5007''), (''vm9'', ''127.0.0.1:5008''),
      (''vm10'', ''127.0.0.1:5009'')]"

text \<open>The reverse map is filled by ranging over \<open>NodeMap\<close> in the order \<open>ord\<close>.\<close>

definition AddressToVMName :: "(string list \<Rightarrow> string list) \<Rightarrow> string go_map" where
  "AddressToVMName ord =
     fold (\<lambda>vmName reverseMap. case map_of NodeMap vmName of
             None \<Rightarrow> reverseMap
           | Some address \<Rightarrow> AList.update address vmName reverseMap)
       (ord (map_keys NodeMap)) []"

text \<open>A lookup with the zero value for a missing key.\<close>

definition vm_name :: "string \<Rightarrow> string" where
  "vm_name addr = (case map_of (AddressToVMName id) addr of None \<Rightarrow> '''' | Some v \<Rightarrow> v)"

section \<open>The configuration\<close>

text \<open>A \<^verbatim>\<open>float64\<close> up to rounding; comparisons with NaN are false.\<close>

datatype float64 = Finite rat | PosInf | NegInf | NaN

fun float_lt :: "float64 \<Rightarrow> float64 \<Rightarrow> bool" where
  "float_lt (Finite a) (Finite b) = (a < b)"
| "float_lt (Finite a) PosInf = True"
| "float_lt NegInf (Finite b) = True"
| "float_lt NegInf PosInf = True"
| "float_lt _ _ = False"

record Configuration =
  IntroducerAddr :: string
  Protocol :: ProtocolType
  Fanout :: int
  AllNodes :: "string list"
  Suspicion :: SuspicionType
  MessageDropRate :: float64
  HashBits :: nat
  ReplicationFactor :: int

definition PingFanout :: int where "PingFanout = 1"
definition GossipFanout :: int where "GossipFanout = 1"

definition initial_Config :: Configuration where
  "initial_Config = \<lparr>IntroducerAddr = ''127.0.0.1:5000'', Protocol = GossipProtocol,
     Fanout = PingFanout, AllNodes = [], Suspicion = NoSuspect, MessageDropRate = Finite 0,
     HashBits = 8, ReplicationFactor = 3\<rparr>"

definition second :: duration where "second = 1000000000"

text \<open>The timeouts of \<^verbatim>\<open>MarkSuspectIfNeeded\<close> that \<^verbatim>\<open>StartRPCServer\<close> passes.\<close>

definition suspicionTimeout :: duration where "suspicionTimeout = 2 * second"
definition deadTimeout :: duration where "deadTimeout = 2 * second"
definition cleanUpTimeout :: duration where "cleanUpTimeout = 10 * second"

definition SwitchProtocol :: "ProtocolType \<Rightarrow> SuspicionType \<Rightarrow> Configuration \<Rightarrow> Configuration" where
  "SwitchProtocol newProtocol newSuspicionType cfg =
     cfg\<lparr>Protocol := newProtocol, Suspicion := newSuspicionType,
         Fanout := (if newProtocol = PingAckProtocol then PingFanout else GossipFanout)\<rparr>"

text \<open>\<open>parsed\<close> is the result of \<^verbatim>\<open>strconv.ParseFloat\<close>, \<open>None\<close> on an error.\<close>

definition SetMessageDropRate :: "float64 option \<Rightarrow> Configuration \<Rightarrow> Configuration" where
  "SetMessageDropRate parsed cfg =
     (case parsed of
        None \<Rightarrow> cfg
      | Some dropRate \<Rightarrow>
          let r1 = (if float_lt dropRate (Finite 0) then Finite 0 else dropRate);
              r2 = (if float_lt (Finite 1) r1 then Finite 1 else r1)
          in cfg\<lparr>MessageDropRate := r2\<rparr>)"

text \<open>The test before a message is dropped; \<open>r\<close> is the value of \<^verbatim>\<open>rand.Float64()\<close>.\<close>

definition drops :: "Configuration \<Rightarrow> float64 \<Rightarrow> bool" where
  "drops cfg r \<longleftrightarrow> float_lt (Finite 0) (MessageDropRate cfg) \<and> float_lt r (MessageDropRate cfg)"

lemma SetMessageDropRate_frame [simp]:
  "Protocol (SetMessageDropRate p cfg) = Protocol cfg"
  "ReplicationFactor (SetMessageDropRate p cfg) = ReplicationFactor cfg"
  "HashBits (SetMessageDropRate p cfg) = HashBits cfg"
  by (simp_all add: SetMessageDropRate_def Let_def split: option.split)

lemma SetMessageDropRate_range:
  "SetMessageDropRate (Some r) cfg = cfg' \<Longrightarrow> r \<noteq> NaN \<Longrightarrow>
    \<exists>q. MessageDropRate cfg' = Finite q \<and> 0 \<le> q \<and> q \<le> 1"
  by (cases r) (auto simp: SetMessageDropRate_def Let_def)

section \<open>Bandwidth counters\<close>

record BandwidthStats =
  BytesSent :: u64
  BytesReceived :: u64

definition AddSent :: "u64 \<Rightarrow> BandwidthStats \<Rightarrow> BandwidthStats" where
  "AddSent n bs = bs\<lparr>BytesSent := BytesSent bs + n\<rparr>"

definition AddReceived :: "u64 \<Rightarrow> BandwidthStats \<Rightarrow> BandwidthStats" where
  "AddReceived n bs = bs\<lparr>BytesReceived := BytesReceived bs + n\<rparr>"

definition GetAndReset :: "BandwidthStats \<Rightarrow> (u64 \<times> u64) \<times> BandwidthStats" where
  "GetAndReset bs = ((BytesSent bs, BytesReceived bs), bs\<lparr>BytesSent := 0, BytesReceived := 0\<rparr>)"

lemma AddSent_fold: "BytesSent (fold AddSent ns bs) = BytesSent bs + sum_list ns"
  by (induction ns arbitrary: bs) (simp_all add: AddSent_def add.assoc)

end
