(* ===== verification/Server_State.thy ===== *)
theory Server_State
  imports Ring Config_Model
begin

text \<open>
  Models the state of a HyDFS process: the \<^verbatim>\<open>Server\<close> of
  \<^verbatim>\<open>src/server.go\<close> with its membership list, metadata and directories, the global
  \<^verbatim>\<open>Config\<close>, and the goroutines a handler has started and that have not run yet. It
  also holds the two bookkeeping functions of \<^verbatim>\<open>src/membership_merge.go\<close> that start
  stabilizations, \<^verbatim>\<open>NewServer\<close>, the heartbeat, and \<^verbatim>\<open>leaveGroup\<close>
  of \<^verbatim>\<open>src/cli.go\<close>.
\<close>

datatype StabilizationStatus = NewlyJoined | FailedNode | ProcessedNode | InProgressNode

text \<open>
  Goroutines not yet run: \<^verbatim>\<open>go func() { server.handleReplicationWindowChange(id) }()\<close>
  and \<^verbatim>\<open>go ds.server.handleCommand(cmd)\<close>.
\<close>

datatype Task = HandleReplicationWindowChange string | HandleCommand string

text \<open>A directory: file names with their contents.\<close>

type_synonym directory = "bytes go_map"

text \<open>
  A running \<^verbatim>\<open>ReceiveFileFromNode\<close> of \<^verbatim>\<open>handleGet\<close>, which goes on when its time
  is up: the name of its local file, the messages that still arrive, whether an error ends them, the
  place in the file, and how far it is. Its open file is the one under the name (\<open>Writing\<close>) until some
  download removes it (\<open>Unlinked\<close>); then its writes go to a file that no name leads to.
\<close>

datatype download_phase = Opening | Writing | Unlinked | Ended bool

record Download =
  DlName :: string
  DlChunks :: "bytes list"
  DlFails :: bool
  DlOffset :: nat
  DlPhase :: download_phase

record Server =
  Addr :: string
  CreationTimestamp :: instant
  ServerIntroducerAddr :: string
  IncarnationNumber :: u64
  HeartbeatCounter :: u64
  IsIntroducer :: bool
  Members :: "Member list"
  Bandwidth :: BandwidthStats
  ServerHash :: int
  Meta :: Metadata
  FileDirectory :: directory
  LocalDirectory :: directory
  FailedPendingStabilization :: "StabilizationStatus go_map"
  NewlyJoinedPendingStabilization :: "StabilizationStatus go_map"
  Config :: Configuration
  Goroutines :: "Task list"
  Downloads :: "Download list"

definition ServerID :: "Server \<Rightarrow> string" where
  "ServerID s = node_id (Addr s) (CreationTimestamp s)"

text \<open>
  \<open>created\<close> and \<open>now\<close> are the two readings of the clock. A named node's own directory is
  emptied; an error of \<^verbatim>\<open>os.RemoveAll\<close>, which the code prints, is not modelled.
\<close>

definition NewServer ::
    "Configuration \<Rightarrow> instant \<Rightarrow> instant \<Rightarrow> directory \<Rightarrow> directory \<Rightarrow> string \<Rightarrow> string \<Rightarrow>
     bool \<Rightarrow> Server" where
  "NewServer cfg created now fileDir localDir addr introducerAddr isIntroducer =
     (let hashValue = HashToMbits (HashBits cfg) addr;
          member = \<lparr>Address = addr, NodeCreationTimestamp = created, Status = StatusAlive,
            Heartbeat = 1, Incarnation = 1, LastUpdated = now, Hash = hashValue\<rparr>
      in \<lparr>Addr = addr, CreationTimestamp = NodeCreationTimestamp member,
          ServerIntroducerAddr = introducerAddr, IncarnationNumber = Incarnation member,
          HeartbeatCounter = Heartbeat member, IsIntroducer = isIntroducer,
          Members = AddOrUpdate member [], Bandwidth = \<lparr>BytesSent = 0, BytesReceived = 0\<rparr>,
          ServerHash = hashValue, Meta = new_Metadata, FileDirectory = (if vm_name addr \<noteq> '''' then [] else fileDir),
          LocalDirectory = localDir, FailedPendingStabilization = [],
          NewlyJoinedPendingStabilization = [], Config = cfg, Goroutines = [], Downloads = []\<rparr>)"

section \<open>Starting stabilizations\<close>

definition handleDeadNode :: "Member \<Rightarrow> Server \<Rightarrow> Server" where
  "handleDeadNode m server =
     (if map_of (FailedPendingStabilization server) (ID m) = Some FailedNode then server
      else server\<lparr>
        FailedPendingStabilization := AList.update (ID m) FailedNode (FailedPendingStabilization server),
        Goroutines := Goroutines server @ [HandleReplicationWindowChange (ID m)]\<rparr>)"

definition handleNewlyJoinedNode :: "Member \<Rightarrow> Server \<Rightarrow> Server" where
  "handleNewlyJoinedNode m server =
     (if map_of (NewlyJoinedPendingStabilization server) (ID m) = Some NewlyJoined then server
      else server\<lparr>
        NewlyJoinedPendingStabilization :=
          AList.update (ID m) NewlyJoined (NewlyJoinedPendingStabilization server),
        Goroutines := Goroutines server @ [HandleReplicationWindowChange (ID m)]\<rparr>)"

section \<open>The node's own entry\<close>

text \<open>One tick of \<^verbatim>\<open>monitorBandwidth\<close>, which logs the counts; no one starts it.\<close>

definition monitorBandwidth :: "Server \<Rightarrow> (u64 \<times> u64) \<times> Server" where
  "monitorBandwidth s =
     (case GetAndReset (Bandwidth s) of (counts, bw) \<Rightarrow> (counts, s\<lparr>Bandwidth := bw\<rparr>))"

text \<open>One tick of \<^verbatim>\<open>increaseHeartbeat\<close>; the counter wraps at 64 bits.\<close>

definition increaseHeartbeat :: "instant \<Rightarrow> Server \<Rightarrow> Server" where
  "increaseHeartbeat now s =
     (if Protocol (Config s) = PingAckProtocol then s
      else
        let s1 = s\<lparr>HeartbeatCounter := HeartbeatCounter s + 1\<rparr>;
            selfMember = \<lparr>Address = Addr s1, NodeCreationTimestamp = CreationTimestamp s1,
              Status = StatusAlive, Heartbeat = HeartbeatCounter s1,
              Incarnation = IncarnationNumber s1, LastUpdated = now, Hash = ServerHash s1\<rparr>
        in s1\<lparr>Members := AddOrUpdate selfMember (Members s1)\<rparr>)"

definition leaveGroup :: "instant \<Rightarrow> Server \<Rightarrow> Server" where
  "leaveGroup now s =
     (case map_of (Snapshot (Members s)) (ServerID s) of
        None \<Rightarrow> s
      | Some selfMember \<Rightarrow>
          s\<lparr>Members := AddOrUpdate
              ((MarkVoluntaryLeave now selfMember)\<lparr>Incarnation := IncarnationNumber s\<rparr>) (Members s)\<rparr>)"

section \<open>The invariant of a server\<close>

definition wf_server :: "Server \<Rightarrow> bool" where
  "wf_server s \<longleftrightarrow> wf_members (Members s) \<and> wf_metadata (Meta s) \<and>
     wf_map (FailedPendingStabilization s) \<and> wf_map (NewlyJoinedPendingStabilization s)"

lemma handleDeadNode_frame [simp]:
  "Members (handleDeadNode m s) = Members s" "Meta (handleDeadNode m s) = Meta s"
  "Config (handleDeadNode m s) = Config s" "IncarnationNumber (handleDeadNode m s) = IncarnationNumber s"
  "Addr (handleDeadNode m s) = Addr s" "CreationTimestamp (handleDeadNode m s) = CreationTimestamp s"
  "NewlyJoinedPendingStabilization (handleDeadNode m s) = NewlyJoinedPendingStabilization s"
  "FileDirectory (handleDeadNode m s) = FileDirectory s"
  "ServerHash (handleDeadNode m s) = ServerHash s" "HeartbeatCounter (handleDeadNode m s) = HeartbeatCounter s"
  by (simp_all add: handleDeadNode_def)

lemma handleNewlyJoinedNode_frame [simp]:
  "Members (handleNewlyJoinedNode m s) = Members s" "Meta (handleNewlyJoinedNode m s) = Meta s"
  "Config (handleNewlyJoinedNode m s) = Config s"
  "IncarnationNumber (handleNewlyJoinedNode m s) = IncarnationNumber s"
  "Addr (handleNewlyJoinedNode m s) = Addr s"
  "CreationTimestamp (handleNewlyJoinedNode m s) = CreationTimestamp s"
  "FailedPendingStabilization (handleNewlyJoinedNode m s) = FailedPendingStabilization s"
  "FileDirectory (handleNewlyJoinedNode m s) = FileDirectory s"
  "ServerHash (handleNewlyJoinedNode m s) = ServerHash s"
  "HeartbeatCounter (handleNewlyJoinedNode m s) = HeartbeatCounter s"
  by (simp_all add: handleNewlyJoinedNode_def)

lemma ServerID_frame [simp]:
  "ServerID (handleDeadNode m s) = ServerID s" "ServerID (handleNewlyJoinedNode m s) = ServerID s"
  "ServerID (s\<lparr>Members := ms\<rparr>) = ServerID s" "ServerID (s\<lparr>IncarnationNumber := i\<rparr>) = ServerID s"
  "ServerID (increaseHeartbeat now s) = ServerID s" "ServerID (leaveGroup now s) = ServerID s"
  by (simp_all add: ServerID_def increaseHeartbeat_def leaveGroup_def Let_def split: option.split)

lemma wf_handleDeadNode [inv_intros]: "wf_server s \<Longrightarrow> wf_server (handleDeadNode m s)"
  by (simp add: wf_server_def handleDeadNode_def wf_map_update)

lemma wf_handleNewlyJoinedNode [inv_intros]: "wf_server s \<Longrightarrow> wf_server (handleNewlyJoinedNode m s)"
  by (simp add: wf_server_def handleNewlyJoinedNode_def wf_map_update)

lemma wf_set_Members [inv_intros]:
  "wf_server s \<Longrightarrow> wf_members ms \<Longrightarrow> wf_server (s\<lparr>Members := ms\<rparr>)"
  by (simp add: wf_server_def)

lemma wf_server_members [dest]: "wf_server s \<Longrightarrow> wf_members (Members s)"
  by (simp add: wf_server_def)

lemma wf_increaseHeartbeat [inv_intros]: "wf_server s \<Longrightarrow> wf_server (increaseHeartbeat now s)"
  by (simp add: wf_server_def increaseHeartbeat_def Let_def wf_AddOrUpdate)

lemma wf_leaveGroup [inv_intros]: "wf_server s \<Longrightarrow> wf_server (leaveGroup now s)"
  by (simp add: wf_server_def leaveGroup_def wf_AddOrUpdate split: option.split)

lemma wf_NewServer: "wf_server (NewServer cfg created now fd ld addr intro b)"
  by (simp add: wf_server_def NewServer_def Let_def inv_intros)

text \<open>A stabilization is started at most once for an identity that failed.\<close>

lemma handleDeadNode_idem: "handleDeadNode m (handleDeadNode m s) = handleDeadNode m s"
  by (simp add: handleDeadNode_def)

end
