(* ===== verification/Examples.thy ===== *)
theory Examples
  imports Server_State
begin

text \<open>
  Small concrete values on which the properties of the development are applied: a ring of four with
  one dead member, a ring of four alive members, a ring of two, a file, and a server.
\<close>

definition example_member :: "string \<Rightarrow> int \<Rightarrow> Status \<Rightarrow> Member" where
  "example_member addr h st = \<lparr>Address = addr, NodeCreationTimestamp = 0, Status = st,
     Heartbeat = 1, Incarnation = 1, LastUpdated = 0, Hash = h\<rparr>"

definition example_ring :: "Member list" where
  "example_ring =
     [example_member ''127.0.0.1:5005'' 6 StatusAlive, example_member ''127.0.0.1:5009'' 9 StatusDead,
      example_member ''127.0.0.1:5007'' 14 StatusAlive, example_member ''127.0.0.1:5000'' 29 StatusAlive]"

definition alive_ring :: "Member list" where
  "alive_ring =
     [example_member ''127.0.0.1:5005'' 6 StatusAlive, example_member ''127.0.0.1:5009'' 9 StatusAlive,
      example_member ''127.0.0.1:5007'' 14 StatusAlive, example_member ''127.0.0.1:5000'' 29 StatusAlive]"

lemma ID_example: "ID (example_member a h st) = a @ ''-0''"
  by (simp add: ID_def node_id_def example_member_def Unix_def itoa_def digits.simps)

lemma example_simps [simp]:
  "Hash (example_member a h st) = h" "Status (example_member a h st) = st"
  "LastUpdated (example_member a h st) = 0" "Heartbeat (example_member a h st) = 1"
  "Incarnation (example_member a h st) = 1"
  "Address (example_member a h st) = a" "IsAlive (example_member a h st) \<longleftrightarrow> st = StatusAlive"
  by (simp_all add: example_member_def IsAlive_def)

definition two_ring :: "Member list" where
  "two_ring = [example_member ''127.0.0.1:5000'' 29 StatusAlive, example_member ''127.0.0.1:5001'' 88 StatusAlive]"

definition example_file :: "string \<Rightarrow> int \<Rightarrow> FileMetadata" where
  "example_file n h = \<lparr>FileName = n, FileContentHash = ''c'', FileNameHash = h,
     CreationTime = ''0'', Appends = []\<rparr>"

text \<open>The node at \<open>127.0.0.1:5000\<close>, created at the epoch, that knows two members.\<close>

definition example_config :: Configuration where
  "example_config = initial_Config\<lparr>Suspicion := Suspect\<rparr>"

definition example_server :: Server where
  "example_server = \<lparr>Addr = ''127.0.0.1:5000'', CreationTimestamp = 0, ServerIntroducerAddr = ''127.0.0.1:5000'',
     IncarnationNumber = 1, HeartbeatCounter = 1, IsIntroducer = True, Members = two_ring,
     Bandwidth = \<lparr>BytesSent = 0, BytesReceived = 0\<rparr>, ServerHash = 29, Meta = new_Metadata,
     FileDirectory = [], LocalDirectory = [], FailedPendingStabilization = [],
     NewlyJoinedPendingStabilization = [], Config = example_config, Goroutines = [], Downloads = []\<rparr>"

lemma example_server_simps [simp]:
  "Members example_server = two_ring" "Config example_server = example_config"
  "ServerID example_server = ''127.0.0.1:5000-0''" "Addr example_server = ''127.0.0.1:5000''"
  "IncarnationNumber example_server = 1" "Meta example_server = new_Metadata"
  "HeartbeatCounter example_server = 1"
  by (simp_all add: example_server_def ServerID_def node_id_def Unix_def itoa_def digits.simps)

lemma example_config_simps [simp]:
  "Suspicion example_config = Suspect" "Protocol example_config = GossipProtocol"
  "ReplicationFactor example_config = 3" "HashBits example_config = 8"
  by (simp_all add: example_config_def initial_Config_def)

lemma wf_example_server: "wf_server example_server"
  by (simp add: wf_server_def example_server_def two_ring_def wf_members_def ID_example inv_intros)

lemma zero_Member_ID: "\<exists>xs. ID zero_Member = CHR ''-'' # xs"
  by (simp add: ID_def node_id_def)

text \<open>A peer that suspects the example server, and the server after one of its members left.\<close>

definition example_peer :: Server where
  "example_peer = example_server\<lparr>Addr := ''127.0.0.1:5001'',
     Members := [example_member ''127.0.0.1:5000'' 29 StatusSuspect, example_member ''127.0.0.1:5001'' 88 StatusAlive]\<rparr>"

definition departed_server :: Server where
  "departed_server = example_server\<lparr>Members := [example_member ''127.0.0.1:5000'' 29 StatusAlive,
     example_member ''127.0.0.1:5001'' 88 StatusVoluntaryLeave]\<rparr>"

lemma example_peer_simps [simp]:
  "Members example_peer =
    [example_member ''127.0.0.1:5000'' 29 StatusSuspect, example_member ''127.0.0.1:5001'' 88 StatusAlive]"
  "Config example_peer = example_config" "ServerID example_peer = ''127.0.0.1:5001-0''"
  by (simp_all add: example_peer_def) (simp add: ServerID_def example_server_def node_id_def Unix_def itoa_def digits.simps)

lemma departed_server_simps [simp]:
  "Members departed_server =
    [example_member ''127.0.0.1:5000'' 29 StatusAlive, example_member ''127.0.0.1:5001'' 88 StatusVoluntaryLeave]"
  "Config departed_server = example_config" "ServerID departed_server = ''127.0.0.1:5000-0''"
  by (simp_all add: departed_server_def)

lemma wf_example_peer: "wf_server example_peer" "wf_server departed_server"
  using wf_example_server
  by (simp_all add: wf_server_def example_peer_def departed_server_def wf_members_def ID_example)

lemma find_example:
  "find_member two_ring ''127.0.0.1:5000-0'' = Some (example_member ''127.0.0.1:5000'' 29 StatusAlive)"
  "find_member two_ring ''127.0.0.1:5001-0'' = Some (example_member ''127.0.0.1:5001'' 88 StatusAlive)"
  "find_member (Members example_peer) ''127.0.0.1:5000-0'' = Some (example_member ''127.0.0.1:5000'' 29 StatusSuspect)"
  "find_member (Members departed_server) ''127.0.0.1:5001-0'' =
    Some (example_member ''127.0.0.1:5001'' 88 StatusVoluntaryLeave)"
  by (simp_all add: find_member_def two_ring_def ID_example)

lemma one_less_max: "(1::u64) < - 1"
  by code_simp

end
