(* ===== verification/Ring_Properties.thy ===== *)
theory Ring_Properties
  imports Placement Examples
begin

text \<open>
  The properties of the ring: the primary range, the replica sets and the garbage collector's range
  agree; the loops never index out of range where the code relies on it, and where they do.
  The examples use the ring positions of four addresses of \<^verbatim>\<open>NodeMap\<close>.
\<close>

lemma ring_ok_examples: "ring_ok example_ring" "ring_ok alive_ring"
  by (simp_all add: ring_ok_def example_ring_def alive_ring_def ID_example)

lemma alive_ring_alive: "\<forall>m \<in> set alive_ring. IsAlive m"
  by (simp add: alive_ring_def)

section \<open>Primaries\<close>

text \<open>
  C11. A node's primary key range is exactly the keys it is the primary of: for an alive node on a
  well-formed ring, whatever the state of the others, \<open>GetPrimaryKeyRange\<close> returns bounds, and a
  key is in range iff \<open>findTargetNodes\<close> puts this node first.
\<close>

theorem primary_range_agrees:
  assumes ok: "ring_ok ms" and k: "k < length ms" and alive: "IsAlive (ms ! k)" and rf: "1 \<le> rf"
  shows "\<exists>s e. GetPrimaryKeyRange ms (ID (ms ! k)) = Inr (Some (s, e)) \<and>
    (\<forall>h. IsHashInRange h s e \<longleftrightarrow> (\<exists>ts. findTargetNodes ms h rf = Inr (ms ! k # ts)))"
proof -
  obtain lo hi where "GetPrimaryKeyRange ms (ID (ms ! k)) = Inr (Some (lo, hi))"
    "\<And>h. IsHashInRange h lo hi \<longleftrightarrow> (\<exists>ts. findTargetNodes ms h rf = Inr (ms ! k # ts))"
    by (rule primary_range [OF ok k alive rf]) blast
  then show ?thesis by blast
qed

theorem primary_range_agrees_witness:
  "\<exists>s e. GetPrimaryKeyRange example_ring (ID (example_ring ! 2)) = Inr (Some (s, e)) \<and>
    (\<forall>h. IsHashInRange h s e \<longleftrightarrow>
      (\<exists>ts. findTargetNodes example_ring h 3 = Inr (example_ring ! 2 # ts)))"
  by (rule primary_range_agrees [OF ring_ok_examples(1)]) (simp_all add: example_ring_def)

text \<open>
  C19. The primary ranges of the alive nodes partition the key space: as long as one node is alive,
  every key is in the primary range of exactly one of them.
\<close>

theorem unique_primary:
  assumes ok: "ring_ok ms" and alive: "\<exists>m \<in> set ms. IsAlive m"
  shows "\<exists>!k. k < length ms \<and> IsAlive (ms ! k) \<and>
    (\<exists>s e. GetPrimaryKeyRange ms (ID (ms ! k)) = Inr (Some (s, e)) \<and> IsHashInRange h s e)"
proof -
  have range: "(\<exists>s e. GetPrimaryKeyRange ms (ID (ms ! k)) = Inr (Some (s, e)) \<and> IsHashInRange h s e)
      \<longleftrightarrow> primaryIndex ms h = int k" if k: "k < length ms" "IsAlive (ms ! k)" for k
  proof -
    obtain q where "nearest_pred ms k q"
      and "GetPrimaryKeyRange ms (ID (ms ! k)) = Inr (Some (Hash (ms ! q), Hash (ms ! k)))"
      using GetPrimaryKeyRange_nearest [OF ok k] .
    then show ?thesis by (simp add: nearest_pred_primary [OF ok k])
  qed
  from alive obtain i where "i < length ms" "IsAlive (ms ! i)"
    by (auto simp: in_set_conv_nth)
  then obtain p where "p < length ms" "primaryIndex ms h = int p" "IsAlive (ms ! p)"
    using primaryIndex_cases by metis
  with range show ?thesis by (intro ex1I [of _ p]) auto
qed

theorem unique_primary_witness:
  "\<exists>!k. k < length example_ring \<and> IsAlive (example_ring ! k) \<and>
    (\<exists>s e. GetPrimaryKeyRange example_ring (ID (example_ring ! k)) = Inr (Some (s, e)) \<and>
      IsHashInRange 200 s e)"
  by (rule unique_primary [OF ring_ok_examples(1)]) (simp add: example_ring_def)

section \<open>Replica sets\<close>

text \<open>
  C15. The garbage collector agrees with the placement: with every node alive and at least as many
  nodes as replicas, a key lies in a node's full range iff the node is one of the key's targets. So
  \<open>deleteFilesOutsideMyRange\<close> keeps exactly the files whose replica set the node belongs to.
\<close>

theorem all_range_agrees:
  assumes ok: "ring_ok ms" and alive: "\<forall>m \<in> set ms. IsAlive m" and k: "k < length ms"
    and rf: "1 \<le> r" "r \<le> length ms"
  shows "\<exists>s e ts. GetAllKeyRange ms (ID (ms ! k)) (int r) = Inr (Some (s, e)) \<and>
    findTargetNodes ms h (int r) = Inr ts \<and> (IsHashInRange h s e \<longleftrightarrow> ms ! k \<in> set ts)"
proof -
  define q where "q = (if r \<le> k then k - r else k + length ms - r)"
  note range = GetAllKeyRange_eq [OF ok k rf q_def]
  obtain p where p: "p < length ms" "primaryIndex ms h = int p"
    and inr: "IsHashInRange h (Hash (ms ! q)) (Hash (ms ! k)) \<longleftrightarrow>
      (if q < k then q < p \<and> p \<le> k else q < p \<or> p \<le> k)"
    using full_range_window [OF ok alive k range(2)] .
  from inr have "IsHashInRange h (Hash (ms ! q)) (Hash (ms ! k)) \<longleftrightarrow>
      (if r \<le> k then k - r < p \<and> p \<le> k else p \<le> k \<or> k + length ms - r < p)"
    by (auto simp: range(3)) (simp_all add: q_def)
  then show ?thesis
    using range(1) member_target_iff [OF ok alive p k rf] findTargetNodes_all_alive [OF alive p] by simp
qed

theorem all_range_agrees_witness:
  "\<exists>s e ts. GetAllKeyRange alive_ring (ID (alive_ring ! 1)) (int 3) = Inr (Some (s, e)) \<and>
    findTargetNodes alive_ring 12 (int 3) = Inr ts \<and> (IsHashInRange 12 s e \<longleftrightarrow> alive_ring ! 1 \<in> set ts)"
  by (rule all_range_agrees [OF ring_ok_examples(2) alive_ring_alive]) (simp_all add: alive_ring_def)

text \<open>
  C21. Writes and stabilization use the same nodes: with every node alive and at least as many nodes
  as replicas, the targets of a key are its primary followed by that primary's successors, pairwise
  distinct.
\<close>

theorem targets_are_primary_and_successors:
  assumes ok: "ring_ok ms" and alive: "\<forall>m \<in> set ms. IsAlive m" and ne: "ms \<noteq> []"
    and rf: "1 \<le> r" "r \<le> length ms"
  shows "\<exists>p succ. findTargetNodes ms h (int r) = Inr (p # succ) \<and>
    GetSuccessors ms (ID p) (int r) = Inr succ \<and> distinct (p # succ) \<and> length succ = r - 1"
proof -
  have N: "0 < length ms" using ne by simp
  then have "0 < length ms" "IsAlive (ms ! 0)" using alive by auto
  then obtain p where p: "p < length ms" "primaryIndex ms h = int p"
    using primaryIndex_cases by metis
  let ?f = "\<lambda>j. ms ! ((p + j) mod length ms)"
  have up: "[0..<r] = 0 # [1..<r]" using rf by (simp add: upt_conv_Cons)
  have all: "filter IsAlive (map ?f js) = map ?f js" for js
    using alive N by (intro filter_True) auto
  have "take (r - 1) [1..<length ms] = [1..<r]" using rf by (simp add: take_upt)
  then have succ: "GetSuccessors ms (ID (ms ! p)) (int r) = Inr (map ?f [1..<r])"
    using p N rf succ_loop_eq [OF p(1), of 1 "int r" 0 "[]"]
    by (auto simp: GetSuccessors_def GetNodeIndex_ring [OF ok] all take_map nat_diff_distrib')
  moreover have "findTargetNodes ms h (int r) = Inr (ms ! p # map ?f [1..<r])"
    using findTargetNodes_all_alive [OF alive p, of "int r"] p(1) by (simp add: up)
  moreover have "distinct (map ?f [0..<r])"
  proof -
    have "j = j'" if "j < r" "j' < r" "(p + j) mod length ms = (p + j') mod length ms" for j j'
      using that rf p(1) by (auto simp: mod_if split: if_splits)
    then show ?thesis
      using N by (auto simp: distinct_map inj_on_def nth_eq_iff_index_eq [OF ring_ok_distinct [OF ok]])
  qed
  ultimately show ?thesis using p(1) unfolding up by (intro exI conjI) (assumption | simp)+
qed

theorem targets_are_primary_and_successors_witness:
  "\<exists>p succ. findTargetNodes alive_ring 12 (int 3) = Inr (p # succ) \<and>
    GetSuccessors alive_ring (ID p) (int 3) = Inr succ \<and> distinct (p # succ) \<and> length succ = 3 - 1"
  by (rule targets_are_primary_and_successors [OF ring_ok_examples(2) alive_ring_alive])
    (simp_all add: alive_ring_def)

text \<open>
  C35. \<open>findTargetNodes\<close> never panics, on any list and for any replication factor: it returns only
  alive members of the list, at most the replication factor of them, and none only if no member is
  alive or no replica is asked for.
\<close>

theorem targets_total:
  "\<exists>ts. findTargetNodes ms h rf = Inr ts \<and> set ts \<subseteq> {m \<in> set ms. IsAlive m} \<and>
    length ts \<le> nat rf \<and> (ts = [] \<longleftrightarrow> filter IsAlive ms = [] \<or> rf \<le> 0)"
proof (cases "\<exists>m \<in> set ms. IsAlive m")
  case True
  then obtain i where "i < length ms" "IsAlive (ms ! i)" by (auto simp: in_set_conv_nth)
  then obtain p where p: "p < length ms" "primaryIndex ms h = int p" "IsAlive (ms ! p)"
    using primaryIndex_cases by metis
  let ?ts = "filter IsAlive (map (\<lambda>j. ms ! ((p + j) mod length ms)) [0..<nat rf])"
  have eq: "findTargetNodes ms h rf = Inr ?ts" by (rule findTargetNodes_eq [OF p(1,2)])
  have "0 < length ms" using p(1) by linarith
  then have "set ?ts \<subseteq> {m \<in> set ms. IsAlive m}" by auto
  moreover have "length ?ts \<le> nat rf"
    using length_filter_le [of IsAlive "map (\<lambda>j. ms ! ((p + j) mod length ms)) [0..<nat rf]"] by simp
  moreover have "?ts = [] \<longleftrightarrow> rf \<le> 0"
  proof (cases "1 \<le> rf")
    case True
    then show ?thesis using findTargetNodes_hd [OF p True] eq by (metis Inr_inject list.distinct(1) not_one_le_zero order_trans)
  qed simp
  moreover have "filter IsAlive ms \<noteq> []" using True by (auto simp: filter_empty_conv)
  ultimately show ?thesis using eq by blast
next
  case False
  then have "primaryIndex ms h = - 1"
    by (auto simp: primaryIndex_def first_index_none IsAlive_def)
  with False show ?thesis by (auto simp: findTargetNodes_def filter_empty_conv)
qed

text \<open>
  \<open>GetSuccessors\<close> never panics: it returns the first \<open>n - 1\<close> alive members met
  clockwise after the node, never the node itself; an unknown node has none.
\<close>

theorem successors_clockwise:
  "GetSuccessors ms x n =
    (case List.find (\<lambda>k. ID (ms ! k) = x) [0..<length ms] of
       None \<Rightarrow> Inr []
     | Some k \<Rightarrow> Inr (take (nat (n - 1)) (filter IsAlive (drop (Suc k) ms @ take k ms))))"
proof (cases rule: GetNodeIndex_cases [of ms x])
  case absent
  then have "List.find (\<lambda>k. ID (ms ! k) = x) [0..<length ms] = None"
    by (auto simp: find_None_iff)
  with absent show ?thesis by (simp add: GetSuccessors_def)
next
  case (at k)
  have "List.find (\<lambda>k. ID (ms ! k) = x) [0..<length ms] = Some k"
    using at by (auto simp: find_Some_iff intro!: exI [of _ k])
  moreover have "length ms \<noteq> 0" using at(1) by linarith
  ultimately show ?thesis
    using at succ_loop_eq [OF at(1), of 1 n 0 "[]"] after_rotate [OF at(1)]
    by (simp add: GetSuccessors_def after_def)
qed

section \<open>Rings smaller than the replication factor\<close>

text \<open>
  C39. The start of \<open>GetAllKeyRange\<close> is computed with a truncated remainder, so it is negative, and
  the garbage collector panics, exactly when the replication factor exceeds the node's position plus
  the size of the ring and their difference is no multiple of that size: on a ring of two with three
  replicas, at the first position.
\<close>

theorem all_range_panics_iff:
  assumes "distinct (map ID ms)" and "k < length ms" and "0 \<le> rf"
  shows "GetAllKeyRange ms (ID (ms ! k)) rf = Inl IndexOutOfRange \<longleftrightarrow>
    int k + int (length ms) < rf \<and> \<not> int (length ms) dvd rf - int k"
proof -
  let ?N = "int (length ms)"
  let ?i = "go_mod (int k - rf + ?N) ?N"
  have N: "0 < ?N" using assms(2) by linarith
  have "length ms \<noteq> 0" using assms(2) by linarith
  then have "GetAllKeyRange ms (ID (ms ! k)) rf = Inl IndexOutOfRange \<longleftrightarrow>
      \<not> (0 \<le> ?i \<and> ?i < ?N)"
    using assms by (simp add: GetAllKeyRange_def GetNodeIndex_nth go_nth_nat Let_def) (simp add: go_nth_def)
  moreover have "0 \<le> ?i \<and> ?i < ?N \<longleftrightarrow> \<not> (int k + ?N < rf \<and> \<not> ?N dvd rf - int k)"
  proof (cases "int k + ?N < rf")
    case True
    then have i: "?i = - ((rf - int k - ?N) mod ?N)" by (simp add: go_mod_def algebra_simps)
    have "(rf - int k - ?N) mod ?N = (rf - int k) mod ?N" by (metis minus_mod_self2)
    moreover have "0 \<le> (rf - int k) mod ?N" using N by simp
    ultimately have "0 \<le> ?i \<and> ?i < ?N \<longleftrightarrow> (rf - int k) mod ?N = 0"
      unfolding i using N by linarith
    with True show ?thesis by (simp add: dvd_eq_mod_eq_0)
  next
    case False
    then show ?thesis using N by (simp add: go_mod_nonneg)
  qed
  ultimately show ?thesis by simp
qed

theorem all_range_panics_iff_witness:
  "GetAllKeyRange two_ring (ID (two_ring ! 0)) 3 = Inl IndexOutOfRange"
  using all_range_panics_iff [of two_ring 0 3] by (simp add: two_ring_def ID_example)

text \<open>
  The other node of a ring of two collects replicas it must keep: a key whose primary is the first
  node is sent to both nodes (to the first one twice), but lies outside the second node's full range.
\<close>

theorem two_nodes_drop_replica:
  assumes ok: "ring_ok [a, b]" and alive: "IsAlive a" "IsAlive b" and h: "h \<le> Hash a \<or> Hash b < h"
  shows "findTargetNodes [a, b] h 3 = Inr [a, b, a] \<and>
    GetAllKeyRange [a, b] (ID b) 3 = Inr (Some (Hash a, Hash b)) \<and>
    \<not> IsHashInRange h (Hash a) (Hash b)"
proof (intro conjI)
  have ab: "Hash a < Hash b" "ID a \<noteq> ID b" using ok by (auto simp: ring_ok_def)
  have "primaryIndex [a, b] h = int 0"
    using alive h ab by (intro primaryIndex_eqI) (auto simp: less_Suc_eq)
  then show "findTargetNodes [a, b] h 3 = Inr [a, b, a]"
    using findTargetNodes_eq [of 0 "[a, b]" h 3] alive by (simp add: upt_rec numeral_3_eq_3)
  show "GetAllKeyRange [a, b] (ID b) 3 = Inr (Some (Hash a, Hash b))"
    using GetNodeIndex_ring [OF ok, of 1]
    by (simp add: GetAllKeyRange_def go_mod_def go_nth_def)
  show "\<not> IsHashInRange h (Hash a) (Hash b)"
    using h ab by (auto simp: IsHashInRange_def)
qed

theorem two_nodes_drop_replica_witness:
  "findTargetNodes two_ring 10 3 = Inr [two_ring ! 0, two_ring ! 1, two_ring ! 0] \<and>
    GetAllKeyRange two_ring (ID (two_ring ! 1)) 3 = Inr (Some (29, 88)) \<and> \<not> IsHashInRange 10 29 88"
  using two_nodes_drop_replica [of "two_ring ! 0" "two_ring ! 1" 10]
  by (simp add: two_ring_def ring_ok_def ID_example)

section \<open>Stabilization\<close>

text \<open>
  C33. A change reaches everyone it concerns: if the changed node is a target of a key, the key's primary
  is either the changed node itself or a node the trigger fires on; and the trigger fires on the node
  at the next position, which takes over the changed node's keys.
\<close>

theorem trigger_covers_replica_sets:
  assumes ok: "ring_ok ms" and c: "c < length ms" and rf: "2 \<le> r"
    and p: "p < length ms" "primaryIndex ms h = int p"
    and target: "findTargetNodes ms h (int r) = Inr ts" "ms ! c \<in> set ts"
  shows "(p = c \<or> window_hit (int p) (int c) (int (length ms)) (int r)) \<and>
    window_hit (int ((c + 1) mod length ms)) (int c) (int (length ms)) (int r)"
proof
  let ?N = "length ms"
  have N: "0 < ?N" using c by linarith
  from target p obtain j where j: "j < r" "ms ! c = ms ! ((p + j) mod ?N)"
    by (auto simp: findTargetNodes_eq)
  then have jc: "(p + j) mod ?N = c"
    using c N by (simp add: nth_eq_iff_index_eq [OF ring_ok_distinct [OF ok]])
  show "p = c \<or> window_hit (int p) (int c) (int ?N) (int r)"
  proof (cases "j = 0")
    case True
    with jc p(1) show ?thesis by simp
  next
    case False
    then have "int j \<in> set [1..int r - 1]" using j(1) by simp
    moreover have "GetRingSuccessorIdx (int p) (int j) (int ?N) = int c" using jc N by (simp only: succ_idx)
    ultimately show ?thesis unfolding window_hit_def list_ex_iff by blast
  qed
  have "GetRingPredecessorIdx (int ((c + 1) mod ?N)) (int ?N) = int (((c + 1) mod ?N + ?N - 1) mod ?N)"
    using N by (intro pred_idx) simp
  also have "((c + 1) mod ?N + ?N - 1) mod ?N = c"
    using c N by (cases "c + 1 = ?N") (simp_all add: mod_if)
  finally show "window_hit (int ((c + 1) mod ?N)) (int c) (int ?N) (int r)"
    using rf by (auto simp: window_hit_def list_ex_iff intro!: bexI [of _ 1])
qed

theorem trigger_covers_replica_sets_witness:
  "(2 = (3::nat) \<or> window_hit (int 2) (int 3) 4 (int 3)) \<and> window_hit (int 0) (int 3) 4 (int 3)"
proof -
  have p: "primaryIndex alive_ring 12 = int 2"
    by code_simp
  have ts: "findTargetNodes alive_ring 12 (int 3) = Inr [alive_ring ! 2, alive_ring ! 3, alive_ring ! 0]"
    by code_simp
  have "length alive_ring = 4" by (simp add: alive_ring_def)
  with trigger_covers_replica_sets [OF ring_ok_examples(2) _ _ _ p ts, of 3] show ?thesis
    by simp
qed

section \<open>Files in a range\<close>

text \<open>
  \<open>GetFilesWithinRange\<close> agrees with \<open>IsHashInRange\<close>: whatever order the runtime ranges over
  the files in, it returns each stored file whose hash is in range exactly once, and no other name.
\<close>

theorem files_within_range:
  assumes "wf_map files" and "\<And>xs. mset (ord xs) = mset xs"
  shows "\<exists>names. GetFilesWithinRange ord files (Some (s, e)) = Inr names \<and> distinct names \<and>
    set names = {n. \<exists>f. map_of files n = Some f \<and> IsHashInRange (FileNameHash f) s e}"
proof -
  have set: "set (ord (map_keys files)) = dom (map_of files)"
    using assms(2) by (metis set_map_keys set_mset_mset)
  have "distinct (ord (map_keys files))"
    using assms by (metis map_keys_def mset_eq_imp_distinct_iff wf_map_def)
  moreover have "GetFilesWithinRange ord files (Some (s, e)) =
      Inr (filter (\<lambda>n. \<exists>f. map_of files n = Some f \<and> IsHashInRange (FileNameHash f) s e)
        (ord (map_keys files)))"
    unfolding GetFilesWithinRange_def IsHashInRange_def by (auto intro!: filter_cong split: option.split)
  ultimately show ?thesis using set by auto
qed

theorem files_within_range_witness:
  "\<exists>names. GetFilesWithinRange rev [(''a'', example_file ''a'' 3), (''b'', example_file ''b'' 40)] (Some (29, 6))
      = Inr names \<and> distinct names \<and>
    set names = {n. \<exists>f. map_of [(''a'', example_file ''a'' 3), (''b'', example_file ''b'' 40)] n = Some f \<and>
      IsHashInRange (FileNameHash f) 29 6}"
  by (rule files_within_range) (simp_all add: wf_map_def)

end
