(* ===== verification/Membership_Merge.thy ===== *)
theory Membership_Merge
  imports Server_State
begin

text \<open>
  Models \<^verbatim>\<open>src/membership_merge.go\<close>: how a node folds a received membership list
  into its own. The loop works on a snapshot taken at its start. Each iteration may read the clock;
  \<open>clk\<close> gives the reading of the \<open>i\<close>-th one. The loop is one step of the model: interleavings of
  other goroutines between two iterations are not considered.
\<close>

section \<open>Status priorities\<close>

fun getStatusPriority :: "Status \<Rightarrow> nat" where
  "getStatusPriority StatusDead = 3"
| "getStatusPriority StatusVoluntaryLeave = 3"
| "getStatusPriority StatusSuspect = 2"
| "getStatusPriority StatusAlive = 1"
| "getStatusPriority (StatusOther _) = 0"

definition compareStatus :: "Status \<Rightarrow> Status \<Rightarrow> bool" where
  "compareStatus received loc \<longleftrightarrow> getStatusPriority received > getStatusPriority loc"

text \<open>The priorities are a preorder on statuses, with dead and left as its equivalent tops.\<close>

instantiation Status :: preorder
begin

definition less_eq_Status :: "Status \<Rightarrow> Status \<Rightarrow> bool" where
  "less_eq_Status a b \<longleftrightarrow> getStatusPriority a \<le> getStatusPriority b"

definition less_Status :: "Status \<Rightarrow> Status \<Rightarrow> bool" where
  "less_Status a b \<longleftrightarrow> getStatusPriority a < getStatusPriority b"

instance
  by standard (auto simp: less_eq_Status_def less_Status_def)

end

lemma compareStatus_less: "compareStatus received loc \<longleftrightarrow> loc < received"
  by (simp add: compareStatus_def less_Status_def)

definition is_final :: "Member \<Rightarrow> bool" where
  "is_final m \<longleftrightarrow> Status m = StatusDead \<or> Status m = StatusVoluntaryLeave"

section \<open>Merging one entry\<close>

definition handleSuspicionMerge ::
    "instant \<Rightarrow> Member \<Rightarrow> Member \<Rightarrow> string \<Rightarrow> Server \<Rightarrow> Server \<times> Member" where
  "handleSuspicionMerge now localMember receivedMember receiverId server =
     (if Status receivedMember = StatusDead \<or> Status receivedMember = StatusVoluntaryLeave then
        (handleDeadNode receivedMember server, receivedMember)
      else if Status localMember = StatusDead \<or> Status localMember = StatusVoluntaryLeave then
        (server, localMember)
      else if Incarnation receivedMember > Incarnation localMember then
        (server, receivedMember\<lparr>LastUpdated := now\<rparr>)
      else if Incarnation localMember > Incarnation receivedMember then (server, localMember)
      else if Status receivedMember = Status localMember then
        (case Protocol (Config server) of
           GossipProtocol \<Rightarrow>
             if Heartbeat receivedMember > Heartbeat localMember
             then (server, receivedMember\<lparr>LastUpdated := now\<rparr>) else (server, localMember)
         | PingAckProtocol \<Rightarrow>
             if ID receivedMember = receiverId
             then (server, receivedMember\<lparr>LastUpdated := now\<rparr>) else (server, localMember)
         | ProtocolOther _ \<Rightarrow> (server, localMember))
      else if compareStatus (Status receivedMember) (Status localMember) then
        (server, receivedMember\<lparr>LastUpdated := now\<rparr>)
      else (server, localMember))"

definition handleNoSuspicionMerge ::
    "instant \<Rightarrow> Member \<Rightarrow> Member \<Rightarrow> string \<Rightarrow> Server \<Rightarrow> Member" where
  "handleNoSuspicionMerge now localMember receivedMember receiverId server =
     (if Status receivedMember = StatusDead \<or> Status receivedMember = StatusVoluntaryLeave then
        receivedMember
      else if Status localMember = StatusDead \<or> Status localMember = StatusVoluntaryLeave then
        localMember
      else if Status receivedMember = Status localMember then
        (case Protocol (Config server) of
           GossipProtocol \<Rightarrow>
             if Heartbeat receivedMember > Heartbeat localMember
             then receivedMember\<lparr>LastUpdated := now\<rparr> else localMember
         | PingAckProtocol \<Rightarrow>
             if ID receivedMember = receiverId
             then receivedMember\<lparr>LastUpdated := now\<rparr> else localMember
         | ProtocolOther _ \<Rightarrow> localMember)
      else if compareStatus (Status receivedMember) (Status localMember) then
        receivedMember\<lparr>LastUpdated := now\<rparr>
      else localMember)"

definition set_member :: "Member \<Rightarrow> Server \<Rightarrow> Server" where
  "set_member m server = server\<lparr>Members := AddOrUpdate m (Members server)\<rparr>"

definition merge_one ::
    "instant \<Rightarrow> Member go_map \<Rightarrow> string \<Rightarrow> Member \<Rightarrow> Server \<Rightarrow> Server" where
  "merge_one now localSnapshot senderId receivedMember server =
     (if Protocol (Config server) = GossipProtocol \<and> Status receivedMember = StatusDead then server
      else case map_of localSnapshot (ID receivedMember) of
        None \<Rightarrow>
          if Status receivedMember \<noteq> StatusDead then
            let m = receivedMember\<lparr>LastUpdated := now\<rparr>
            in handleNewlyJoinedNode m (set_member m server)
          else server
      | Some localMember \<Rightarrow>
          let server1 =
            (if (Status localMember = StatusAlive \<or> Status localMember = StatusSuspect) \<and>
                (Status receivedMember = StatusDead \<or> Status receivedMember = StatusVoluntaryLeave)
             then handleDeadNode receivedMember server else server)
          in if ID receivedMember = ServerID server1 \<and> Status receivedMember = StatusSuspect \<and>
                Status localMember = StatusAlive \<and>
                Incarnation receivedMember \<ge> Incarnation localMember
             then
               let server2 = server1\<lparr>IncarnationNumber := IncarnationNumber server1 + 1\<rparr>
               in set_member
                 (localMember\<lparr>Incarnation := IncarnationNumber server2, LastUpdated := now\<rparr>) server2
             else if ID receivedMember = ServerID server1 \<and> Status receivedMember = StatusDead
             then server1
             else case Suspicion (Config server1) of
                 Suspect \<Rightarrow>
                   (case handleSuspicionMerge now localMember receivedMember senderId server1 of
                      (server2, updatedMember) \<Rightarrow> set_member updatedMember server2)
               | NoSuspect \<Rightarrow>
                   set_member (handleNoSuspicionMerge now localMember receivedMember senderId server1)
                     server1
               | SuspicionOther _ \<Rightarrow> set_member zero_Member server1)"

fun merge_loop ::
    "(nat \<Rightarrow> instant) \<Rightarrow> Member go_map \<Rightarrow> string \<Rightarrow> Member list \<Rightarrow> Server \<Rightarrow> Server" where
  "merge_loop clk localSnapshot senderId [] server = server"
| "merge_loop clk localSnapshot senderId (m # ms) server =
     merge_loop (\<lambda>i. clk (Suc i)) localSnapshot senderId ms
       (merge_one (clk 0) localSnapshot senderId m server)"

definition mergeMembership ::
    "(nat \<Rightarrow> instant) \<Rightarrow> Member list \<Rightarrow> string \<Rightarrow> Server \<Rightarrow> Server" where
  "mergeMembership clk receivedMembers senderId server =
     merge_loop clk (Snapshot (Members server)) senderId receivedMembers server"

section \<open>Frame and invariant\<close>

lemma set_member_frame [simp]:
  "Members (set_member m s) = AddOrUpdate m (Members s)" "Config (set_member m s) = Config s"
  "Meta (set_member m s) = Meta s" "ServerID (set_member m s) = ServerID s"
  "IncarnationNumber (set_member m s) = IncarnationNumber s"
  "FileDirectory (set_member m s) = FileDirectory s"
  by (simp_all add: set_member_def)

lemma wf_set_member [inv_intros]: "wf_server s \<Longrightarrow> wf_server (set_member m s)"
  by (simp add: set_member_def wf_set_Members wf_AddOrUpdate wf_server_members)

lemma wf_IncarnationNumber [inv_intros]: "wf_server s \<Longrightarrow> wf_server (s\<lparr>IncarnationNumber := i\<rparr>)"
  by (simp add: wf_server_def)

text \<open>The merged entry, without the effect on the bookkeeping.\<close>

definition suspicion_winner :: "ProtocolType \<Rightarrow> string \<Rightarrow> instant \<Rightarrow> Member \<Rightarrow> Member \<Rightarrow> Member" where
  "suspicion_winner p rid now l r =
     (if is_final r then r
      else if is_final l then l
      else if Incarnation r > Incarnation l then r\<lparr>LastUpdated := now\<rparr>
      else if Incarnation l > Incarnation r then l
      else if Status r = Status l then
        (if p = GossipProtocol \<and> Heartbeat r > Heartbeat l \<or> p = PingAckProtocol \<and> ID r = rid
         then r\<lparr>LastUpdated := now\<rparr> else l)
      else if Status l < Status r then r\<lparr>LastUpdated := now\<rparr> else l)"

definition nosuspicion_winner :: "ProtocolType \<Rightarrow> string \<Rightarrow> instant \<Rightarrow> Member \<Rightarrow> Member \<Rightarrow> Member" where
  "nosuspicion_winner p rid now l r =
     (if is_final r then r
      else if is_final l then l
      else if Status r = Status l then
        (if p = GossipProtocol \<and> Heartbeat r > Heartbeat l \<or> p = PingAckProtocol \<and> ID r = rid
         then r\<lparr>LastUpdated := now\<rparr> else l)
      else if Status l < Status r then r\<lparr>LastUpdated := now\<rparr> else l)"

lemma handleSuspicionMerge_eq:
  "handleSuspicionMerge now l r rid s =
    (if is_final r then handleDeadNode r s else s,
     suspicion_winner (Protocol (Config s)) rid now l r)"
  by (auto simp: handleSuspicionMerge_def suspicion_winner_def is_final_def compareStatus_less
      split: ProtocolType.split)

lemma handleNoSuspicionMerge_eq:
  "handleNoSuspicionMerge now l r rid s = nosuspicion_winner (Protocol (Config s)) rid now l r"
  by (auto simp: handleNoSuspicionMerge_def nosuspicion_winner_def is_final_def compareStatus_less
      split: ProtocolType.split)

lemma winner_cases:
  "suspicion_winner p rid now l r \<in> {l, r, r\<lparr>LastUpdated := now\<rparr>}"
  "nosuspicion_winner p rid now l r \<in> {l, r, r\<lparr>LastUpdated := now\<rparr>}"
  by (simp_all add: suspicion_winner_def nosuspicion_winner_def)

lemma winner_ID:
  "ID l = ID r \<Longrightarrow> ID (suspicion_winner p rid now l r) = ID r"
  "ID l = ID r \<Longrightarrow> ID (nosuspicion_winner p rid now l r) = ID r"
  by (simp_all add: suspicion_winner_def nosuspicion_winner_def)

lemma is_final_LastUpdated [simp]: "is_final (m\<lparr>LastUpdated := t\<rparr>) = is_final m"
  by (simp add: is_final_def)

lemma winner_final:
  "is_final (suspicion_winner p rid now l r) \<longleftrightarrow> is_final l \<or> is_final r"
  "is_final (nosuspicion_winner p rid now l r) \<longleftrightarrow> is_final l \<or> is_final r"
  by (auto simp: suspicion_winner_def nosuspicion_winner_def)

text \<open>The five outcomes of an iteration.\<close>

lemma merge_one_cases:
  obtains (skip) s' where "merge_one now snap sid r s = s'" "s' = s \<or> s' = handleDeadNode r s"
      "Status r = StatusDead"
  | (join) "map_of snap (ID r) = None" "Status r \<noteq> StatusDead"
      "merge_one now snap sid r s =
        handleNewlyJoinedNode (r\<lparr>LastUpdated := now\<rparr>) (set_member (r\<lparr>LastUpdated := now\<rparr>) s)"
  | (refute) l where "map_of snap (ID r) = Some l" "ID r = ServerID s" "Status r = StatusSuspect"
      "Status l = StatusAlive" "Incarnation l \<le> Incarnation r"
      "merge_one now snap sid r s =
        set_member (l\<lparr>Incarnation := IncarnationNumber s + 1, LastUpdated := now\<rparr>)
          (s\<lparr>IncarnationNumber := IncarnationNumber s + 1\<rparr>)"
  | (update) l s' where "map_of snap (ID r) = Some l" "s' = s \<or> s' = handleDeadNode r s"
      "\<not> (ID r = ServerID s \<and> Status r = StatusDead)"
      "Suspicion (Config s) = Suspect \<and>
         merge_one now snap sid r s = set_member (suspicion_winner (Protocol (Config s)) sid now l r) s' \<or>
       Suspicion (Config s) = NoSuspect \<and>
         merge_one now snap sid r s = set_member (nosuspicion_winner (Protocol (Config s)) sid now l r) s'"
  | (zero) l x s' where "map_of snap (ID r) = Some l" "Suspicion (Config s) = SuspicionOther x"
      "s' = s \<or> s' = handleDeadNode r s" "merge_one now snap sid r s = set_member zero_Member s'"
proof (cases "Protocol (Config s) = GossipProtocol \<and> Status r = StatusDead")
  case True
  then show ?thesis by (intro skip [of s]) (simp_all add: merge_one_def)
next
  case G: False
  show ?thesis
  proof (cases "map_of snap (ID r)")
    case None
    then show ?thesis
    proof (cases "Status r = StatusDead")
      case True
      with None G show ?thesis by (intro skip [of s]) (simp_all add: merge_one_def)
    next
      case False
      with None show ?thesis by (intro join) (simp_all add: merge_one_def Let_def)
    qed
  next
    case l: (Some l)
    define s1 where "s1 = (if (Status l = StatusAlive \<or> Status l = StatusSuspect) \<and>
      (Status r = StatusDead \<or> Status r = StatusVoluntaryLeave) then handleDeadNode r s else s)"
    have s1: "s1 = s \<or> s1 = handleDeadNode r s" by (simp add: s1_def)
    then have frame: "ServerID s1 = ServerID s" "Config s1 = Config s"
      "handleDeadNode r s1 = handleDeadNode r s"
      by (auto simp: handleDeadNode_idem)
    consider "ID r = ServerID s \<and> Status r = StatusSuspect \<and> Status l = StatusAlive \<and>
        Incarnation l \<le> Incarnation r"
      | "\<not> (ID r = ServerID s \<and> Status r = StatusSuspect \<and> Status l = StatusAlive \<and>
          Incarnation l \<le> Incarnation r)" "ID r = ServerID s \<and> Status r = StatusDead"
      | "\<not> (ID r = ServerID s \<and> Status r = StatusSuspect \<and> Status l = StatusAlive \<and>
          Incarnation l \<le> Incarnation r)" "\<not> (ID r = ServerID s \<and> Status r = StatusDead)"
      by blast
    then show ?thesis
    proof cases
      case 1
      then have "s1 = s" by (simp add: s1_def)
      with 1 l show ?thesis by (intro refute [of l]) (simp_all add: merge_one_def)
    next
      case 2
      with l G have "merge_one now snap sid r s = s1"
        by (simp add: merge_one_def s1_def Let_def)
      with 2 s1 show ?thesis by (intro skip [of s1]) simp_all
    next
      case 3
      let ?rest = "case Suspicion (Config s) of
          Suspect \<Rightarrow> (case handleSuspicionMerge now l r sid s1 of (s2, u) \<Rightarrow> set_member u s2)
        | NoSuspect \<Rightarrow> set_member (handleNoSuspicionMerge now l r sid s1) s1
        | SuspicionOther _ \<Rightarrow> set_member zero_Member s1"
      have eq: "merge_one now snap sid r s = ?rest"
        using 3 l G
        by (simp only: merge_one_def Let_def option.case if_False simp_thms frame flip: s1_def)
      show ?thesis
      proof (cases "Suspicion (Config s)")
        case Suspect
        then show ?thesis
          using 3 l s1 eq
          by (intro update [of l "if is_final r then handleDeadNode r s else s1"])
            (simp_all add: handleSuspicionMerge_eq frame)
      next
        case NoSuspect
        then show ?thesis
          using 3 l s1 eq by (intro update [of l s1]) (simp_all add: handleNoSuspicionMerge_eq frame)
      next
        case (SuspicionOther x)
        then show ?thesis using l s1 eq by (intro zero [of l x s1]) simp_all
      qed
    qed
  qed
qed

lemma wf_merge_one [inv_intros]: "wf_server s \<Longrightarrow> wf_server (merge_one now snap sid r s)"
  by (cases rule: merge_one_cases [of now snap sid r s]) (auto intro!: inv_intros)

lemma wf_merge_loop: "wf_server s \<Longrightarrow> wf_server (merge_loop clk snap sid ms s)"
  by (induction ms arbitrary: clk s) (simp_all add: wf_merge_one)

lemma wf_mergeMembership [inv_intros]: "wf_server s \<Longrightarrow> wf_server (mergeMembership clk ms sid s)"
  by (simp add: mergeMembership_def wf_merge_loop)

lemma merge_one_frame [simp]:
  "Config (merge_one now snap sid r s) = Config s" "Meta (merge_one now snap sid r s) = Meta s"
  "ServerID (merge_one now snap sid r s) = ServerID s"
  by (cases rule: merge_one_cases [of now snap sid r s]; auto)+

end
