(* ===== verification/Failure_Detector.thy ===== *)
theory Failure_Detector
  imports Membership_Merge
begin

text \<open>
  Models \<^verbatim>\<open>MarkSuspectIfNeeded\<close> of \<^verbatim>\<open>src/membership_list.go\<close>,
  the periodic pass that suspects silent members, declares them dead and removes them. Its first
  loop only collects changes; they are applied to the slice afterwards. The clock is read once at
  the start (\<open>clk 0\<close>) and once by each mark (\<open>clk (i + 1)\<close> for the entry at position \<open>i\<close>);
  \<^verbatim>\<open>globalServer\<close> is the server itself.
\<close>

record mark_state =
  markServer :: Server
  toUpdate :: "Member list"
  toRemoveIndices :: "nat list"
  changed :: bool

definition mark_one ::
    "instant \<Rightarrow> instant \<Rightarrow> duration \<Rightarrow> duration \<Rightarrow> duration \<Rightarrow> nat \<Rightarrow> Member \<Rightarrow> mark_state \<Rightarrow> mark_state"
where
  "mark_one now stamp suspT deadT cleanT i m acc =
     (let server = markServer acc; elapsed = time_Sub now (LastUpdated m)
      in if Protocol (Config server) = PingAckProtocol \<and> Address m = Addr server then acc
         else if Status m = StatusAlive \<and> elapsed > suspT then
           (case Suspicion (Config server) of
              Suspect \<Rightarrow> acc\<lparr>toUpdate := toUpdate acc @ [MarkSuspect stamp m], changed := True\<rparr>
            | NoSuspect \<Rightarrow>
                if elapsed > deadT then
                  let m' = MarkDead stamp m
                  in acc\<lparr>markServer := handleDeadNode m' server, toUpdate := toUpdate acc @ [m'],
                         changed := True\<rparr>
                else acc
            | SuspicionOther _ \<Rightarrow> acc)
         else if Status m = StatusSuspect \<and> elapsed > deadT then
           let m' = MarkDead stamp m
           in acc\<lparr>markServer := handleDeadNode m' server, toUpdate := toUpdate acc @ [m'],
                  changed := True\<rparr>
         else if Status m = StatusDead \<and> elapsed > cleanT then
           acc\<lparr>toRemoveIndices := toRemoveIndices acc @ [i], changed := True\<rparr>
         else acc)"

fun mark_scan ::
    "(nat \<Rightarrow> instant) \<Rightarrow> duration \<Rightarrow> duration \<Rightarrow> duration \<Rightarrow> nat \<Rightarrow> Member list \<Rightarrow> mark_state \<Rightarrow> mark_state"
where
  "mark_scan clk suspT deadT cleanT i [] acc = acc"
| "mark_scan clk suspT deadT cleanT i (m # ms) acc =
     mark_scan clk suspT deadT cleanT (Suc i) ms
       (mark_one (clk 0) (clk (Suc i)) suspT deadT cleanT i m acc)"

definition apply_updates :: "Member list \<Rightarrow> Member list \<Rightarrow> Member list" where
  "apply_updates updates nodes =
     fold (\<lambda>member nodes. case overwrite_first member nodes of None \<Rightarrow> nodes | Some nodes' \<Rightarrow> nodes')
       updates nodes"

text \<open>The indices are walked from the last one to the first.\<close>

definition remove_indices :: "nat list \<Rightarrow> Member list \<Rightarrow> Member list" where
  "remove_indices idxs nodes = fold (\<lambda>idx nodes. take idx nodes @ drop (Suc idx) nodes) (rev idxs) nodes"

definition MarkSuspectIfNeeded ::
    "(nat \<Rightarrow> instant) \<Rightarrow> duration \<Rightarrow> duration \<Rightarrow> duration \<Rightarrow> Server \<Rightarrow> bool \<times> Server" where
  "MarkSuspectIfNeeded clk suspT deadT cleanT s =
     (let acc = mark_scan clk suspT deadT cleanT 0 (Members s)
            \<lparr>markServer = s, toUpdate = [], toRemoveIndices = [], changed = False\<rparr>;
          nodes1 = apply_updates (toUpdate acc) (Members s);
          nodes2 = remove_indices (toRemoveIndices acc) nodes1;
          nodes3 = (if changed acc then sortNodes nodes2 else nodes2)
      in (changed acc, (markServer acc)\<lparr>Members := nodes3\<rparr>))"

section \<open>A single pass\<close>

text \<open>What happens to one entry: it is kept, replaced or dropped.\<close>

datatype verdict = Keep | Replace Member | Drop

definition verdict_of ::
    "Configuration \<Rightarrow> string \<Rightarrow> instant \<Rightarrow> instant \<Rightarrow> duration \<Rightarrow> duration \<Rightarrow> duration \<Rightarrow> Member \<Rightarrow> verdict"
where
  "verdict_of cfg self now stamp suspT deadT cleanT m =
     (let elapsed = time_Sub now (LastUpdated m)
      in if Protocol cfg = PingAckProtocol \<and> Address m = self then Keep
         else if Status m = StatusAlive \<and> suspT < elapsed \<and> Suspicion cfg = Suspect
           then Replace (MarkSuspect stamp m)
         else if Status m = StatusAlive \<and> suspT < elapsed \<and> deadT < elapsed \<and> Suspicion cfg = NoSuspect \<or>
             Status m = StatusSuspect \<and> deadT < elapsed
           then Replace (MarkDead stamp m)
         else if Status m = StatusDead \<and> cleanT < elapsed then Drop
         else Keep)"

text \<open>The new dead members, in list order, each start a stabilization.\<close>

definition new_dead :: "verdict \<Rightarrow> Member list" where
  "new_dead v = (case v of Replace m \<Rightarrow> if Status m = StatusDead then [m] else [] | _ \<Rightarrow> [])"

fun replaced :: "verdict \<Rightarrow> Member list" where
  "replaced (Replace m) = [m]"
| "replaced _ = []"

fun outcome :: "Member \<Rightarrow> verdict \<Rightarrow> Member" where
  "outcome m (Replace m') = m'"
| "outcome m _ = m"

lemma mark_one_verdict:
  assumes "v = verdict_of (Config (markServer acc)) (Addr (markServer acc)) now stamp suspT deadT cleanT m"
  shows "mark_one now stamp suspT deadT cleanT i m acc =
    acc\<lparr>markServer := fold handleDeadNode (new_dead v) (markServer acc),
        toUpdate := toUpdate acc @ replaced v,
        toRemoveIndices := toRemoveIndices acc @ (if v = Drop then [i] else []),
        changed := changed acc \<or> v \<noteq> Keep\<rparr>"
  unfolding assms mark_one_def verdict_of_def
  by (auto simp: Let_def new_dead_def split: SuspicionType.split)

text \<open>The verdicts on a list of entries from position \<open>i\<close> on.\<close>

fun verdicts ::
    "Configuration \<Rightarrow> string \<Rightarrow> (nat \<Rightarrow> instant) \<Rightarrow> duration \<Rightarrow> duration \<Rightarrow> duration \<Rightarrow> nat \<Rightarrow> Member list \<Rightarrow>
     verdict list" where
  "verdicts cfg self clk suspT deadT cleanT i [] = []"
| "verdicts cfg self clk suspT deadT cleanT i (m # ms) =
     verdict_of cfg self (clk 0) (clk (Suc i)) suspT deadT cleanT m #
       verdicts cfg self clk suspT deadT cleanT (Suc i) ms"

fun drop_positions :: "nat \<Rightarrow> verdict list \<Rightarrow> nat list" where
  "drop_positions i [] = []"
| "drop_positions i (v # vs) = (if v = Drop then [i] else []) @ drop_positions (Suc i) vs"

lemma fold_handleDeadNode_frame [simp]:
  "Config (fold handleDeadNode ms s) = Config s" "Addr (fold handleDeadNode ms s) = Addr s"
  "Members (fold handleDeadNode ms s) = Members s" "Meta (fold handleDeadNode ms s) = Meta s"
  "ServerID (fold handleDeadNode ms s) = ServerID s"
  by (induction ms arbitrary: s) simp_all

lemma mark_scan_verdicts:
  fixes acc :: mark_state
  shows "mark_scan clk suspT deadT cleanT i ms acc =
    (let vs = verdicts (Config (markServer acc)) (Addr (markServer acc)) clk suspT deadT cleanT i ms
     in acc\<lparr>markServer := fold handleDeadNode (concat (map new_dead vs)) (markServer acc),
        toUpdate := toUpdate acc @ concat (map replaced vs),
        toRemoveIndices := toRemoveIndices acc @ drop_positions i vs,
        changed := changed acc \<or> (\<exists>v \<in> set vs. v \<noteq> Keep)\<rparr>)"
  by (induction ms arbitrary: i acc) (simp_all add: mark_one_verdict [OF refl] Let_def disj_assoc)

lemma length_verdicts [simp]: "length (verdicts cfg self clk a b c i ms) = length ms"
  by (induction ms arbitrary: i) simp_all

lemma nth_verdicts:
  "j < length ms \<Longrightarrow> verdicts cfg self clk a b c i ms ! j =
    verdict_of cfg self (clk 0) (clk (Suc (i + j))) a b c (ms ! j)"
  by (induction ms arbitrary: i j) (auto simp: nth_Cons split: nat.split)

lemma verdict_Replace:
  "verdict_of cfg self now stamp a b c m = Replace m' \<Longrightarrow>
    ID m' = ID m \<and> Hash m' = Hash m \<and> Address m' = Address m \<and> Status m' \<noteq> Status m"
  by (auto simp: verdict_of_def Let_def split: if_splits)

text \<open>Verdicts that fit the entries they are about.\<close>

definition fitting :: "Member list \<Rightarrow> verdict list \<Rightarrow> bool" where
  "fitting ms vs \<longleftrightarrow> list_all2 (\<lambda>m v. \<forall>m'. v = Replace m' \<longrightarrow> ID m' = ID m \<and> Hash m' = Hash m) ms vs"

lemma fitting_verdicts: "fitting ms (verdicts cfg self clk a b c i ms)"
  by (auto simp: fitting_def list_all2_conv_all_nth nth_verdicts dest: verdict_Replace)

lemma overwrite_first_skip:
  "ID m \<notin> ID ` set pre \<Longrightarrow> ID m = ID x \<Longrightarrow>
    overwrite_first m (pre @ x # xs) = Some (pre @ m # xs)"
  by (induction pre) auto

lemma apply_updates_verdicts:
  "distinct (map ID (pre @ ms)) \<Longrightarrow> fitting ms vs \<Longrightarrow>
    apply_updates (concat (map replaced vs)) (pre @ ms) = pre @ map2 outcome ms vs"
proof (induction ms arbitrary: pre vs)
  case Nil
  then show ?case by (simp add: fitting_def apply_updates_def)
next
  case (Cons m ms)
  then obtain v vs' where vs: "vs = v # vs'" and fit: "fitting ms vs'"
    and v: "\<forall>m'. v = Replace m' \<longrightarrow> ID m' = ID m \<and> Hash m' = Hash m"
    by (auto simp: fitting_def list_all2_Cons1)
  show ?case
  proof (cases v)
    case (Replace m')
    with v Cons.prems(1) have "overwrite_first m' (pre @ m # ms) = Some (pre @ m' # ms)"
      by (intro overwrite_first_skip) auto
    moreover have "apply_updates (concat (map replaced vs')) ((pre @ [m']) @ ms)
        = (pre @ [m']) @ map2 outcome ms vs'"
      using Cons.prems(1) v Replace by (intro Cons.IH [OF _ fit]) auto
    ultimately show ?thesis using Replace vs by (simp add: apply_updates_def)
  qed (use Cons.IH [of "pre @ [m]" vs'] Cons.prems(1) fit vs in simp_all)
qed

lemma remove_positions:
  "length xs = length vs \<Longrightarrow>
    remove_indices (drop_positions (length pre) vs) (pre @ xs) =
      pre @ map fst (filter (\<lambda>(x, v). v \<noteq> Drop) (zip xs vs))"
proof (induction xs vs arbitrary: pre rule: list_induct2')
  case (4 x xs v vs)
  then have "remove_indices (drop_positions (Suc (length pre)) vs) (pre @ x # xs) =
      (pre @ [x]) @ map fst (filter (\<lambda>(x, v). v \<noteq> Drop) (zip xs vs))"
    using "4.IH" [of "pre @ [x]"] by simp
  then show ?case by (simp add: remove_indices_def)
qed (simp_all add: remove_indices_def)

lemma sorted_survivors:
  assumes "sorted (map Hash ms)" and "fitting ms vs"
  shows "sorted (map Hash (map fst (filter (\<lambda>(x, v). v \<noteq> Drop) (zip (map2 outcome ms vs) vs))))"
proof -
  have len: "length ms = length vs" using assms(2) by (auto simp: fitting_def list_all2_lengthD)
  have "Hash (outcome (ms ! i) (vs ! i)) = Hash (ms ! i)" if "i < length ms" for i
    using assms(2) that by (cases "vs ! i") (auto simp: fitting_def list_all2_conv_all_nth)
  then have "map Hash (map fst (zip (map2 outcome ms vs) vs)) = map Hash ms"
    using len by (intro nth_equalityI) simp_all
  then have "sorted (map (Hash \<circ> fst) (zip (map2 outcome ms vs) vs))"
    using assms(1) by simp
  then have "sorted (map (Hash \<circ> fst) (filter (\<lambda>(x, v). v \<noteq> Drop) (zip (map2 outcome ms vs) vs)))"
    by (rule sorted_filter)
  then show ?thesis by simp
qed

lemma sortNodes_id: "sorted (map Hash ms) \<Longrightarrow> sortNodes ms = ms"
  by (simp add: sortNodes_eq sort_key_id_if_sorted)

text \<open>The surviving entries, each with its outcome, in place.\<close>

definition survivors :: "Member list \<Rightarrow> verdict list \<Rightarrow> Member list" where
  "survivors ms vs = map fst (filter (\<lambda>(x, v). v \<noteq> Drop) (zip (map2 outcome ms vs) vs))"

lemma MarkSuspectIfNeeded_eq:
  assumes "wf_members (Members s)"
    and vs_def: "vs = verdicts (Config s) (Addr s) clk suspT deadT cleanT 0 (Members s)"
  shows "MarkSuspectIfNeeded clk suspT deadT cleanT s =
    (\<exists>v \<in> set vs. v \<noteq> Keep,
     (fold handleDeadNode (concat (map new_dead vs)) s)\<lparr>Members := survivors (Members s) vs\<rparr>)"
proof -
  have fit: "fitting (Members s) vs" unfolding vs_def by (rule fitting_verdicts)
  have len: "length (map2 outcome (Members s) vs) = length vs" by (simp add: vs_def)
  have nodes: "remove_indices (drop_positions 0 vs) (apply_updates (concat (map replaced vs)) (Members s))
      = survivors (Members s) vs"
    using apply_updates_verdicts [of "[]" "Members s" vs] remove_positions [OF len, of "[]"] fit assms(1)
    by (simp add: survivors_def wf_members_def)
  have sort: "sortNodes (survivors (Members s) vs) = survivors (Members s) vs"
    unfolding survivors_def using assms(1) fit
    by (intro sortNodes_id sorted_survivors) (simp_all add: wf_members_def)
  show ?thesis
    by (simp add: MarkSuspectIfNeeded_def mark_scan_verdicts nodes sort Let_def flip: vs_def)
qed

section \<open>A pass of the failure detector, entry by entry\<close>

definition after_verdict :: "Member \<Rightarrow> verdict \<Rightarrow> Member option" where
  "after_verdict m v = (case v of Keep \<Rightarrow> Some m | Replace m' \<Rightarrow> Some m' | Drop \<Rightarrow> None)"

lemma survivors_entries:
  assumes dist: "distinct (map ID ms)" and fit: "fitting ms vs"
  shows "j < length ms \<Longrightarrow> find_member (survivors ms vs) (ID (ms ! j)) = after_verdict (ms ! j) (vs ! j)"
    and "x \<notin> ID ` set ms \<Longrightarrow> find_member (survivors ms vs) x = None"
    and "distinct (map ID (survivors ms vs))"
proof -
  have len: "length vs = length ms" using fit by (auto simp: fitting_def list_all2_lengthD)
  have idout: "ID (outcome (ms ! i) (vs ! i)) = ID (ms ! i)" if "i < length ms" for i
    using fit that by (cases "vs ! i") (auto simp: fitting_def list_all2_conv_all_nth)
  have set: "set (survivors ms vs) = {outcome (ms ! i) (vs ! i) | i. i < length ms \<and> vs ! i \<noteq> Drop}"
    using len by (auto simp: survivors_def in_set_zip image_iff) (metis length_map length_zip min.idem nth_map nth_zip case_prod_conv)
  have "map ID (map fst (zip (map2 outcome ms vs) vs)) = map ID ms"
    using len by (intro nth_equalityI) (simp_all add: idout)
  then have "distinct (map (ID \<circ> fst) (zip (map2 outcome ms vs) vs))"
    using dist by simp
  then show d: "distinct (map ID (survivors ms vs))"
    by (simp add: survivors_def distinct_map_filter)
  show "find_member (survivors ms vs) x = None" if "x \<notin> ID ` set ms"
    using that set by (auto simp: find_member_None idout)
  assume j: "j < length ms"
  show "find_member (survivors ms vs) (ID (ms ! j)) = after_verdict (ms ! j) (vs ! j)"
  proof (cases "vs ! j = Drop")
    case True
    have "ID (ms ! i) \<noteq> ID (ms ! j)" if "i < length ms" "vs ! i \<noteq> Drop" for i
      using that j True dist nth_eq_iff_index_eq [of "map ID ms" i j] by auto
    then show ?thesis
      using True set by (fastforce simp: find_member_None after_verdict_def idout)
  next
    case False
    then have "outcome (ms ! j) (vs ! j) \<in> set (survivors ms vs)" using set j by auto
    with d idout [OF j] have "find_member (survivors ms vs) (ID (ms ! j)) = Some (outcome (ms ! j) (vs ! j))"
      by (simp add: find_member_eq_Some)
    with False show ?thesis by (cases "vs ! j") (auto simp: after_verdict_def)
  qed
qed

text \<open>A stabilization is pending for a node declared dead.\<close>

lemma pending_handleDeadNode:
  "map_of (FailedPendingStabilization (handleDeadNode m s)) k =
    (if k = ID m then Some FailedNode else map_of (FailedPendingStabilization s) k)"
  by (simp add: handleDeadNode_def)

lemma pending_fold:
  "map_of (FailedPendingStabilization (fold handleDeadNode ms s)) k =
    (if k \<in> ID ` set ms then Some FailedNode else map_of (FailedPendingStabilization s) k)"
  by (induction ms arbitrary: s) (auto simp: pending_handleDeadNode)

lemma detector_entries:
  assumes wf: "wf_server s" and run: "MarkSuspectIfNeeded clk suspT deadT cleanT s = (chg, s')"
    and v: "\<And>j. v j = verdict_of (Config s) (Addr s) (clk 0) (clk (Suc j)) suspT deadT cleanT (Members s ! j)"
  shows "(\<forall>j < length (Members s).
        find_member (Members s') (ID (Members s ! j)) = after_verdict (Members s ! j) (v j)) \<and>
      (\<forall>x. x \<notin> ID ` set (Members s) \<longrightarrow> find_member (Members s') x = None) \<and>
      (chg \<longleftrightarrow> (\<exists>j < length (Members s). v j \<noteq> Keep)) \<and>
      wf_server s' \<and>
      (\<forall>j < length (Members s). \<forall>m. v j = Replace m \<and> Status m = StatusDead \<longrightarrow>
        map_of (FailedPendingStabilization s') (ID m) = Some FailedNode)"
proof -
  define vs where "vs = verdicts (Config s) (Addr s) clk suspT deadT cleanT 0 (Members s)"
  note wfm = wf_server_members [OF wf]
  have vj: "vs ! j = v j" if "j < length (Members s)" for j
    using that by (simp add: vs_def v nth_verdicts)
  have len: "length vs = length (Members s)" by (simp add: vs_def)
  have fit: "fitting (Members s) vs" unfolding vs_def by (rule fitting_verdicts)
  have chg: "chg \<longleftrightarrow> (\<exists>v \<in> set vs. v \<noteq> Keep)"
    and s': "s' = (fold handleDeadNode (concat (map new_dead vs)) s)\<lparr>Members := survivors (Members s) vs\<rparr>"
    using run MarkSuspectIfNeeded_eq [OF wfm vs_def] by simp_all
  note ent = survivors_entries [OF wf_membersD [OF wfm] fit]
  have pend: "map_of (FailedPendingStabilization s') (ID m) = Some FailedNode"
    if "j < length (Members s)" "v j = Replace m" "Status m = StatusDead" for j m
  proof -
    have "m \<in> set (new_dead (vs ! j))" using that by (simp add: vj new_dead_def)
    then have "m \<in> set (concat (map new_dead vs))" using that(1) len by force
    then show ?thesis by (auto simp: s' pending_fold)
  qed
  have wf': "wf_server s'"
  proof -
    have "wf_members (survivors (Members s) vs)"
      using wfm ent(3) sorted_survivors [OF _ fit] by (simp add: wf_members_def survivors_def)
    moreover have "wf_server (fold handleDeadNode ms s)" for ms
      using wf by (induction ms arbitrary: s) (simp_all add: inv_intros)
    ultimately show ?thesis unfolding s' by (intro wf_set_Members)
  qed
  show ?thesis
    using ent(1,2) vj chg len pend wf' by (simp add: s' in_set_conv_nth Bex_def) metis
qed


lemma detector_entry:
  assumes "wf_server s" and "find_member (Members s) k = Some m"
  shows "\<exists>j. find_member (Members (snd (MarkSuspectIfNeeded clk suspT deadT cleanT s))) k =
      after_verdict m (verdict_of (Config s) (Addr s) (clk 0) (clk (Suc j)) suspT deadT cleanT m)"
proof -
  obtain j where "j < length (Members s)" "Members s ! j = m" "ID m = k"
    using find_member_ID [OF assms(2)] by (auto simp: in_set_conv_nth)
  with detector_entries [OF assms(1), of clk suspT deadT cleanT, OF prod.collapse [symmetric] refl]
  show ?thesis by metis
qed

lemma detector_pending:
  assumes "wf_server s" and "find_member (Members s) k = Some m"
    and "\<And>j. \<exists>m'. verdict_of (Config s) (Addr s) (clk 0) (clk (Suc j)) suspT deadT cleanT m = Replace m' \<and>
      Status m' = StatusDead"
  shows "map_of (FailedPendingStabilization (snd (MarkSuspectIfNeeded clk suspT deadT cleanT s))) k =
    Some FailedNode"
proof -
  obtain j where j: "j < length (Members s)" "Members s ! j = m" "ID m = k"
    using find_member_ID [OF assms(2)] by (auto simp: in_set_conv_nth)
  obtain m' where m': "verdict_of (Config s) (Addr s) (clk 0) (clk (Suc j)) suspT deadT cleanT m = Replace m'"
    "Status m' = StatusDead"
    using assms(3) by blast
  then have "ID m' = k" using verdict_Replace j(3) by metis
  with detector_entries [OF assms(1), of clk suspT deadT cleanT, OF prod.collapse [symmetric] refl] j m'
  show ?thesis by metis
qed

lemma wf_MarkSuspectIfNeeded [inv_intros]:
  "wf_server s \<Longrightarrow> wf_server (snd (MarkSuspectIfNeeded clk suspT deadT cleanT s))"
  using detector_entries [of s clk suspT deadT cleanT, OF _ prod.collapse [symmetric] refl] by blast

lemma MarkSuspectIfNeeded_frame [simp]:
  "wf_server s \<Longrightarrow> Config (snd (MarkSuspectIfNeeded clk suspT deadT cleanT s)) = Config s"
  "wf_server s \<Longrightarrow> Addr (snd (MarkSuspectIfNeeded clk suspT deadT cleanT s)) = Addr s"
  "wf_server s \<Longrightarrow> Meta (snd (MarkSuspectIfNeeded clk suspT deadT cleanT s)) = Meta s"
  by (simp_all add: MarkSuspectIfNeeded_eq [OF wf_server_members refl])

end
