(* ===== verification/Merge_Entries.thy ===== *)
theory Merge_Entries
  imports Membership_Merge
begin

text \<open>
  A merge seen as a map from identities to entries: what becomes of each entry. The clients of a
  merge reason with these facts instead of the loop.
\<close>

section \<open>A merge, entry by entry\<close>

text \<open>
  The entry a merge leaves for one identity: \<open>loc\<close> is the local entry, \<open>r\<close> the received one,
  \<open>self\<close> and \<open>inc\<close> the node's own identity and incarnation.
\<close>

definition merge_entry ::
    "Configuration \<Rightarrow> string \<Rightarrow> u64 \<Rightarrow> string \<Rightarrow> instant \<Rightarrow> Member option \<Rightarrow> Member \<Rightarrow> Member option"
where
  "merge_entry cfg self inc sid now loc r =
     (if Protocol cfg = GossipProtocol \<and> Status r = StatusDead then loc
      else case loc of
        None \<Rightarrow> if Status r = StatusDead then None else Some (r\<lparr>LastUpdated := now\<rparr>)
      | Some l \<Rightarrow>
          if ID r = self \<and> Status r = StatusSuspect \<and> Status l = StatusAlive \<and>
             Incarnation l \<le> Incarnation r
          then Some (l\<lparr>Incarnation := inc + 1, LastUpdated := now\<rparr>)
          else if ID r = self \<and> Status r = StatusDead then Some l
          else if Suspicion cfg = Suspect then Some (suspicion_winner (Protocol cfg) sid now l r)
          else Some (nosuspicion_winner (Protocol cfg) sid now l r))"

lemma merge_one_entry:
  assumes wf: "wf_server s" and susp: "Suspicion (Config s) \<in> {Suspect, NoSuspect}"
    and snap: "\<And>m. map_of snap (ID r) = Some m \<Longrightarrow> ID m = ID r"
    and cur: "find_member (Members s) (ID r) = map_of snap (ID r)"
  shows "find_member (Members (merge_one now snap sid r s)) =
    (find_member (Members s))(ID r := merge_entry (Config s) (ServerID s) (IncarnationNumber s) sid now
      (map_of snap (ID r)) r)"
    (is "_ = _(ID r := ?e)")
proof -
  note add = find_AddOrUpdate [OF wf_membersD [OF wf_server_members [OF wf]]]
  have keep: "(find_member (Members s))(ID r := map_of snap (ID r)) = find_member (Members s)"
    using cur by (metis fun_upd_triv)
  define s1 where "s1 l = (if (Status l = StatusAlive \<or> Status l = StatusSuspect) \<and>
      (Status r = StatusDead \<or> Status r = StatusVoluntaryLeave) then handleDeadNode r s else s)" for l
  have s1: "Members (s1 l) = Members s" "Config (s1 l) = Config s" "ServerID (s1 l) = ServerID s"
    "IncarnationNumber (s1 l) = IncarnationNumber s" for l
    by (simp_all add: s1_def)
  show ?thesis
  proof (cases "map_of snap (ID r)")
    case None
    then show ?thesis
      using keep by (auto simp: merge_one_def merge_entry_def Let_def add)
  next
    case (Some l)
    then have idl: "ID l = ID r" by (rule snap)
    show ?thesis
      using susp keep Some idl
      by (auto simp: merge_one_def merge_entry_def Let_def add s1 handleSuspicionMerge_eq
          handleNoSuspicionMerge_eq winner_ID simp flip: s1_def)
  qed
qed

lemma merge_one_self:
  "ID r \<noteq> ServerID s \<Longrightarrow> IncarnationNumber (merge_one now snap sid r s) = IncarnationNumber s"
  by (cases rule: merge_one_cases [of now snap sid r s]) auto

lemma merge_entry_inc:
  "ID r \<noteq> self \<Longrightarrow> merge_entry cfg self inc sid now l r = merge_entry cfg self inc' sid now l r"
  by (simp add: merge_entry_def split: option.split)

lemma merge_loop_entries:
  assumes "wf_server s" and "Suspicion (Config s) \<in> {Suspect, NoSuspect}"
    and "distinct (map ID rs)"
    and "\<And>k m. map_of snap k = Some m \<Longrightarrow> ID m = k"
    and "\<forall>r \<in> set rs. find_member (Members s) (ID r) = map_of snap (ID r)"
    and "\<forall>r \<in> set rs. ID r = ServerID s \<longrightarrow> IncarnationNumber s = inc"
  shows "(\<forall>x. x \<notin> ID ` set rs \<longrightarrow>
      find_member (Members (merge_loop clk snap sid rs s)) x = find_member (Members s) x) \<and>
    (\<forall>i < length rs. find_member (Members (merge_loop clk snap sid rs s)) (ID (rs ! i)) =
      merge_entry (Config s) (ServerID s) inc sid (clk i) (map_of snap (ID (rs ! i))) (rs ! i))"
  using assms
proof (induction rs arbitrary: clk s)
  case (Cons r rs)
  define s1 where "s1 = merge_one (clk 0) snap sid r s"
  have one: "find_member (Members s1) = (find_member (Members s))(ID r :=
      merge_entry (Config s) (ServerID s) (IncarnationNumber s) sid (clk 0) (map_of snap (ID r)) r)"
    unfolding s1_def using Cons.prems by (intro merge_one_entry) auto
  have r: "ID r \<notin> ID ` set rs" using Cons.prems(3) by simp
  have frame: "Config s1 = Config s" "ServerID s1 = ServerID s" by (simp_all add: s1_def)
  have inc1: "\<forall>r' \<in> set rs. ID r' = ServerID s1 \<longrightarrow> IncarnationNumber s1 = inc"
  proof (intro ballI impI)
    fix r' assume r': "r' \<in> set rs" "ID r' = ServerID s1"
    then have "ID r \<noteq> ServerID s" using r frame by (metis image_eqI)
    moreover have "IncarnationNumber s = inc" using Cons.prems(6) r' frame by auto
    ultimately show "IncarnationNumber s1 = inc" unfolding s1_def by (simp add: merge_one_self)
  qed
  have cur: "\<forall>r' \<in> set rs. find_member (Members s1) (ID r') = map_of snap (ID r')"
    using Cons.prems(5) r one by (auto simp: image_iff)
  have "wf_server s1" using Cons.prems(1) by (simp add: s1_def wf_merge_one)
  note IH = Cons.IH [OF this _ _ Cons.prems(4) cur inc1, of "\<lambda>i. clk (Suc i)"]
  have IH': "(\<forall>x. x \<notin> ID ` set rs \<longrightarrow>
      find_member (Members (merge_loop (\<lambda>i. clk (Suc i)) snap sid rs s1)) x = find_member (Members s1) x) \<and>
    (\<forall>i < length rs. find_member (Members (merge_loop (\<lambda>i. clk (Suc i)) snap sid rs s1)) (ID (rs ! i)) =
      merge_entry (Config s) (ServerID s) inc sid (clk (Suc i)) (map_of snap (ID (rs ! i))) (rs ! i))"
    using IH Cons.prems(2,3) by (simp add: frame)
  have e: "merge_entry (Config s) (ServerID s) (IncarnationNumber s) sid (clk 0) (map_of snap (ID r)) r =
      merge_entry (Config s) (ServerID s) inc sid (clk 0) (map_of snap (ID r)) r"
    using Cons.prems(6) merge_entry_inc [of r "ServerID s"] by (cases "ID r = ServerID s") auto
  show ?case
  proof (intro conjI allI impI)
    fix x assume "x \<notin> ID ` set (r # rs)"
    with IH' one show "find_member (Members (merge_loop clk snap sid (r # rs) s)) x = find_member (Members s) x"
      by (simp flip: s1_def)
  next
    fix i assume "i < length (r # rs)"
    then show "find_member (Members (merge_loop clk snap sid (r # rs) s)) (ID ((r # rs) ! i)) =
      merge_entry (Config s) (ServerID s) inc sid (clk i) (map_of snap (ID ((r # rs) ! i))) ((r # rs) ! i)"
      using IH' one r e by (cases i) (simp_all flip: s1_def)
  qed
qed simp

lemma mergeMembership_entries:
  assumes wf: "wf_server s" and susp: "Suspicion (Config s) \<in> {Suspect, NoSuspect}"
    and dist: "distinct (map ID rs)"
  shows "(\<forall>x. x \<notin> ID ` set rs \<longrightarrow>
      find_member (Members (mergeMembership clk rs sid s)) x = find_member (Members s) x) \<and>
    (\<forall>i < length rs. find_member (Members (mergeMembership clk rs sid s)) (ID (rs ! i)) =
      merge_entry (Config s) (ServerID s) (IncarnationNumber s) sid (clk i)
        (find_member (Members s) (ID (rs ! i))) (rs ! i))"
proof -
  have snap: "map_of (Snapshot (Members s)) = find_member (Members s)"
    using wf by (intro Snapshot_lookup wf_membersD) auto
  show ?thesis
    unfolding mergeMembership_def
    using merge_loop_entries [OF wf susp dist, of "Snapshot (Members s)" "IncarnationNumber s" clk sid]
    by (simp add: snap find_member_ID)
qed

lemma merge_loop_frame [simp]:
  "Config (merge_loop clk snap sid rs s) = Config s" "Meta (merge_loop clk snap sid rs s) = Meta s"
  "ServerID (merge_loop clk snap sid rs s) = ServerID s"
  by (induction rs arbitrary: clk s) simp_all

lemma mergeMembership_frame [simp]:
  "Config (mergeMembership clk rs sid s) = Config s" "Meta (mergeMembership clk rs sid s) = Meta s"
  "ServerID (mergeMembership clk rs sid s) = ServerID s"
  by (simp_all add: mergeMembership_def)

lemma merge_refute:
  assumes "wf_server s" and "find_member (Members s) (ServerID s) = Some l" "Status l = StatusAlive"
    "Incarnation l \<le> Incarnation r" "ID r = ServerID s" "Status r = StatusSuspect"
  shows "mergeMembership clk [r] sid s =
    set_member (l\<lparr>Incarnation := IncarnationNumber s + 1, LastUpdated := clk 0\<rparr>)
      (s\<lparr>IncarnationNumber := IncarnationNumber s + 1\<rparr>)"
proof -
  have "map_of (Snapshot (Members s)) (ServerID s) = Some l"
    using assms(1,2) Snapshot_lookup [OF wf_membersD] by auto
  then show ?thesis
    using assms(3-) by (simp add: mergeMembership_def merge_one_def Let_def)
qed

lemma merge_entry_final:
  assumes "merge_entry cfg self inc sid now (Some m) r = Some m'" and "is_final m"
  shows "is_final m'"
proof -
  have "Status m \<noteq> StatusAlive" using assms(2) by (auto simp: is_final_def)
  with assms show ?thesis by (auto simp: merge_entry_def winner_final split: if_splits)
qed

lemma merge_entry_own_death:
  assumes "merge_entry cfg self inc sid now (Some m) r = Some m'" "ID r = self" "Status m' = StatusDead"
  shows "Status m = StatusDead"
proof -
  have w: "m' \<in> {m, r, r\<lparr>LastUpdated := now\<rparr>}"
    if "Some m' \<in> {Some (suspicion_winner (Protocol cfg) sid now m r),
      Some (nosuspicion_winner (Protocol cfg) sid now m r)}"
    using that winner_cases [of "Protocol cfg" sid now m r] by auto
  show ?thesis
    using assms w by (auto simp: merge_entry_def split: if_splits)
qed

end
