(* ===== verification/Membership_Properties.thy ===== *)
theory Membership_Properties
  imports Failure_Detector Merge_Entries Examples
begin

text \<open>
  The properties of membership: what a merge and a failure-detector pass do to each entry, that
  gossip converges whatever the order of messages, that suspicion is refuted and final states are
  final, and where the protocol does not keep what it announces.
\<close>

section \<open>Merging\<close>

text \<open>
  C16. Seen as a map from identities to entries, a merge is pointwise: with one of the two suspicion
  modes set and no identity received twice, the entry of each received member becomes what
  \<open>merge_entry\<close> makes of the local and the received one, and no other entry changes.
\<close>

theorem merge_pointwise:
  assumes wf: "wf_server s" and susp: "Suspicion (Config s) \<in> {Suspect, NoSuspect}"
    and dist: "distinct (map ID rs)"
  shows "(\<forall>x. x \<notin> ID ` set rs \<longrightarrow>
      find_member (Members (mergeMembership clk rs sid s)) x = find_member (Members s) x) \<and>
    (\<forall>i < length rs. find_member (Members (mergeMembership clk rs sid s)) (ID (rs ! i)) =
      merge_entry (Config s) (ServerID s) (IncarnationNumber s) sid (clk i)
        (find_member (Members s) (ID (rs ! i))) (rs ! i))"
  by (rule mergeMembership_entries [OF assms])

theorem merge_pointwise_witness:
  "find_member (Members (mergeMembership (\<lambda>i. 7) [example_member ''127.0.0.1:5001'' 88 StatusSuspect]
      ''x'' example_server)) ''127.0.0.1:5001-0'' =
    Some (example_member ''127.0.0.1:5001'' 88 StatusSuspect\<lparr>LastUpdated := 7\<rparr>)"
proof -
  let ?r = "example_member ''127.0.0.1:5001'' 88 StatusSuspect"
  have "\<forall>i < length [?r]. find_member (Members (mergeMembership (\<lambda>i. 7) [?r] ''x'' example_server))
      (ID ([?r] ! i)) = merge_entry (Config example_server) (ServerID example_server)
        (IncarnationNumber example_server) ''x'' 7 (find_member (Members example_server) (ID ([?r] ! i))) ([?r] ! i)"
    using merge_pointwise [OF wf_example_server, of "[?r]" "\<lambda>i. 7" "''x''"] by (simp add: ID_example)
  then show ?thesis
    by (simp add: ID_example merge_entry_def suspicion_winner_def is_final_def two_ring_def
        find_member_def less_Status_def)
qed

section \<open>The failure detector\<close>

text \<open>
  C20. A pass of the failure detector, entry by entry: the entry at position \<open>j\<close> gets the verdict
  of its status, its age and the mode; no entry appears; the list stays sorted and free of
  duplicates; the result tells whether anything changed; and a stabilization is pending for every
  member the pass declares dead.
\<close>

theorem detector_pointwise:
  assumes wf: "wf_server s" and run: "MarkSuspectIfNeeded clk suspT deadT cleanT s = (chg, s')"
    and v: "\<And>j. v j = verdict_of (Config s) (Addr s) (clk 0) (clk (Suc j)) suspT deadT cleanT (Members s ! j)"
  shows "(\<forall>j < length (Members s).
        find_member (Members s') (ID (Members s ! j)) = after_verdict (Members s ! j) (v j)) \<and>
      (\<forall>x. x \<notin> ID ` set (Members s) \<longrightarrow> find_member (Members s') x = None) \<and>
      (chg \<longleftrightarrow> (\<exists>j < length (Members s). v j \<noteq> Keep)) \<and>
      wf_server s' \<and>
      (\<forall>j < length (Members s). \<forall>m. v j = Replace m \<and> Status m = StatusDead \<longrightarrow>
        map_of (FailedPendingStabilization s') (ID m) = Some FailedNode)"
  by (rule detector_entries [OF assms])

theorem detector_pointwise_witness:
  "find_member (Members (snd (MarkSuspectIfNeeded (\<lambda>i. 3 * second) suspicionTimeout deadTimeout cleanUpTimeout
      example_server))) ''127.0.0.1:5001-0'' =
    Some (MarkSuspect (3 * second) (example_member ''127.0.0.1:5001'' 88 StatusAlive))"
proof -
  have "\<forall>j < length (Members example_server).
      find_member (Members (snd (MarkSuspectIfNeeded (\<lambda>i. 3 * second) suspicionTimeout deadTimeout cleanUpTimeout
        example_server))) (ID (Members example_server ! j)) = after_verdict (Members example_server ! j)
        (verdict_of (Config example_server) (Addr example_server) (3 * second) (3 * second)
          suspicionTimeout deadTimeout cleanUpTimeout (Members example_server ! j))"
    using detector_pointwise [OF wf_example_server prod.collapse [symmetric] refl,
      of "\<lambda>i. 3 * second" suspicionTimeout deadTimeout cleanUpTimeout] by blast
  then have "find_member (Members (snd (MarkSuspectIfNeeded (\<lambda>i. 3 * second) suspicionTimeout deadTimeout cleanUpTimeout
      example_server))) (ID (two_ring ! 1)) = after_verdict (two_ring ! 1)
        (verdict_of example_config ''127.0.0.1:5000'' (3 * second) (3 * second)
          suspicionTimeout deadTimeout cleanUpTimeout (two_ring ! 1))"
    by (elim allE [where x = 1]) (simp add: two_ring_def)
  then show ?thesis
    by (simp add: two_ring_def ID_example after_verdict_def verdict_of_def Let_def time_Sub_def
        suspicionTimeout_def deadTimeout_def second_def)
qed

text \<open>
  C32. A silent member is removed in three passes. In the suspicion mode, an alive member that is not the
  node itself (under ping-ack) and whose entry nobody refreshes is suspected by the first pass after
  the suspicion timeout, declared dead, with a stabilization pending for it, by the first pass after
  a further dead timeout, and dropped by the first pass after a further clean-up timeout.
\<close>

theorem detector_liveness:
  assumes wf: "wf_server s" and m: "find_member (Members s) k = Some m" and alive: "Status m = StatusAlive"
    and mode: "Suspicion (Config s) = Suspect"
    and other: "Protocol (Config s) = PingAckProtocol \<longrightarrow> Address m \<noteq> Addr s"
    and t1: "suspicionTimeout < clk1 0 - LastUpdated m"
    and t2: "\<And>i. deadTimeout < clk2 0 - clk1 i" and t3: "\<And>i. cleanUpTimeout < clk3 0 - clk2 i"
    and s1: "s1 = snd (MarkSuspectIfNeeded clk1 suspicionTimeout deadTimeout cleanUpTimeout s)"
    and s2: "s2 = snd (MarkSuspectIfNeeded clk2 suspicionTimeout deadTimeout cleanUpTimeout s1)"
    and s3: "s3 = snd (MarkSuspectIfNeeded clk3 suspicionTimeout deadTimeout cleanUpTimeout s2)"
  shows "(\<exists>m1. find_member (Members s1) k = Some m1 \<and> Status m1 = StatusSuspect) \<and>
    (\<exists>m2. find_member (Members s2) k = Some m2 \<and> Status m2 = StatusDead) \<and>
    map_of (FailedPendingStabilization s2) k = Some FailedNode \<and>
    find_member (Members s3) k = None"
proof -
  note to = suspicionTimeout_def deadTimeout_def cleanUpTimeout_def second_def
  have sub: "T < time_Sub t u \<longleftrightarrow> T < t - u" if "T < 2 ^ 63 - 1" "0 \<le> T" for T t u
    using that by (auto simp: time_Sub_def)
  have sub': "suspicionTimeout < time_Sub t u \<longleftrightarrow> suspicionTimeout < t - u"
    "deadTimeout < time_Sub t u \<longleftrightarrow> deadTimeout < t - u"
    "cleanUpTimeout < time_Sub t u \<longleftrightarrow> cleanUpTimeout < t - u" for t u
    by (rule sub; simp add: to)+
  have wf1: "wf_server s1" and wf2: "wf_server s2"
    using wf by (simp_all add: s1 s2 inv_intros)
  have fr: "Config s1 = Config s" "Addr s1 = Addr s" "Config s2 = Config s" "Addr s2 = Addr s"
    using wf wf1 by (simp_all add: s1) (simp_all add: s1 s2 inv_intros)
  have not_self: "\<not> (Protocol (Config s) = PingAckProtocol \<and> Address m = Addr s)"
    using other by blast
  obtain i where m1: "find_member (Members s1) k = Some (MarkSuspect (clk1 (Suc i)) m)"
    using detector_entry [OF wf m, of clk1 suspicionTimeout deadTimeout cleanUpTimeout] not_self alive mode t1
    by (auto simp: s1 after_verdict_def verdict_of_def Let_def sub')
  have v2: "verdict_of (Config s1) (Addr s1) (clk2 0) (clk2 (Suc j)) suspicionTimeout deadTimeout cleanUpTimeout
      (MarkSuspect (clk1 (Suc i)) m) = Replace (MarkDead (clk2 (Suc j)) (MarkSuspect (clk1 (Suc i)) m))" for j
    using not_self t2 [of "Suc i"]
    by (auto simp: verdict_of_def Let_def sub' fr) (simp_all add: MarkSuspect_def)
  obtain j where m2: "find_member (Members s2) k = Some (MarkDead (clk2 (Suc j)) (MarkSuspect (clk1 (Suc i)) m))"
    using detector_entry [OF wf1 m1, of clk2 suspicionTimeout deadTimeout cleanUpTimeout]
    by (auto simp: s2 v2 after_verdict_def)
  have p2: "map_of (FailedPendingStabilization s2) k = Some FailedNode"
    unfolding s2 by (rule detector_pending [OF wf1 m1]) (simp add: v2)
  have v3: "verdict_of (Config s2) (Addr s2) (clk3 0) (clk3 (Suc h)) suspicionTimeout deadTimeout cleanUpTimeout
      (MarkDead (clk2 (Suc j)) (MarkSuspect (clk1 (Suc i)) m)) = Drop" for h
    using not_self t3 [of "Suc j"]
    by (auto simp: verdict_of_def Let_def sub' fr) (simp_all add: MarkDead_def)
  have m3: "find_member (Members s3) k = None"
    using detector_entry [OF wf2 m2, of clk3 suspicionTimeout deadTimeout cleanUpTimeout]
    by (auto simp: s3 v3 after_verdict_def)
  show ?thesis using m1 m2 p2 m3 by simp
qed

theorem detector_liveness_witness:
  "\<exists>s1 s2 s3. s3 = snd (MarkSuspectIfNeeded (\<lambda>i. 60 * second) suspicionTimeout deadTimeout cleanUpTimeout s2) \<and>
    s2 = snd (MarkSuspectIfNeeded (\<lambda>i. 30 * second) suspicionTimeout deadTimeout cleanUpTimeout s1) \<and>
    s1 = snd (MarkSuspectIfNeeded (\<lambda>i. 3 * second) suspicionTimeout deadTimeout cleanUpTimeout example_server) \<and>
    find_member (Members s3) ''127.0.0.1:5001-0'' = None"
  using detector_liveness [OF wf_example_server, of "''127.0.0.1:5001-0''"
      "example_member ''127.0.0.1:5001'' 88 StatusAlive" "\<lambda>i. 3 * second" "\<lambda>i. 30 * second" "\<lambda>i. 60 * second",
      OF _ _ _ _ _ _ _ refl refl refl]
  by (simp add: two_ring_def find_member_def ID_example suspicionTimeout_def deadTimeout_def
      cleanUpTimeout_def second_def)

text \<open>
  A member that left is never cleaned up: whatever the clock reads, passes of the failure detector
  keep its entry, in every mode.
\<close>

theorem left_member_stays:
  assumes wf: "wf_server s" and m: "find_member (Members s) k = Some m" and left: "Status m = StatusVoluntaryLeave"
  shows "find_member (Members (fold (\<lambda>clk s. snd (MarkSuspectIfNeeded clk suspT deadT cleanT s)) clks s)) k = Some m"
  using wf m
proof (induction clks arbitrary: s)
  case (Cons clk clks)
  have "verdict_of (Config s) (Addr s) (clk 0) (clk (Suc j)) suspT deadT cleanT m = Keep" for j
    using left by (simp add: verdict_of_def Let_def)
  then have "find_member (Members (snd (MarkSuspectIfNeeded clk suspT deadT cleanT s))) k = Some m"
    using detector_entry [OF Cons.prems, of clk suspT deadT cleanT] by (auto simp: after_verdict_def)
  with Cons show ?case by (simp add: wf_MarkSuspectIfNeeded)
qed simp

theorem left_member_stays_witness:
  "\<exists>s m. Status m = StatusVoluntaryLeave \<and>
    find_member (Members (fold (\<lambda>clk s. snd (MarkSuspectIfNeeded clk 1 1 1 s)) [\<lambda>i. 10, \<lambda>i. 100] s)) (ID m) = Some m"
proof (intro exI conjI)
  let ?m = "MarkVoluntaryLeave 0 (example_member ''127.0.0.1:5001'' 88 StatusAlive)"
  let ?s = "example_server\<lparr>Members := AddOrUpdate ?m two_ring\<rparr>"
  have wfs: "wf_server ?s"
    using wf_set_Members [OF wf_example_server wf_AddOrUpdate [OF wf_server_members [OF wf_example_server]]]
    by simp
  have "distinct (map ID two_ring)"
    using wf_membersD [OF wf_server_members [OF wf_example_server]] by simp
  then have "find_member (Members ?s) (ID ?m) = Some ?m" by (simp add: find_AddOrUpdate)
  then show "find_member (Members (fold (\<lambda>clk s. snd (MarkSuspectIfNeeded clk 1 1 1 s)) [\<lambda>i. 10, \<lambda>i. 100] ?s))
      (ID ?m) = Some ?m"
    by (rule left_member_stays [OF wfs]) simp
qed simp

section \<open>Refutation and final states\<close>

text \<open>
  C30. Suspicion is refuted: a node that hears it is suspected, at an incarnation not above its own,
  moves to the next incarnation and stays alive in its own list; and a peer in the suspicion mode
  that suspects it at such an incarnation takes it for alive again once it receives that entry.
\<close>

theorem suspicion_refuted:
  assumes wf: "wf_server s" and own: "find_member (Members s) (ServerID s) = Some l"
    and l: "Status l = StatusAlive" "Incarnation l \<le> Incarnation r" "Incarnation r \<le> IncarnationNumber s"
    and r: "ID r = ServerID s" "Status r = StatusSuspect"
    and s': "s' = mergeMembership clk [r] sid s"
    and room: "IncarnationNumber s < - 1"
    and peer: "wf_server p" "Suspicion (Config p) = Suspect" "ServerID p \<noteq> ServerID s"
    and q: "find_member (Members p) (ServerID s) = Some q" "Status q = StatusSuspect" "Incarnation q \<le> IncarnationNumber s"
  shows "\<exists>m. find_member (Members s') (ServerID s) = Some m \<and> Status m = StatusAlive \<and>
    IncarnationNumber s' = IncarnationNumber s + 1 \<and> Incarnation m = IncarnationNumber s' \<and>
    find_member (Members (mergeMembership clk' [m] (ServerID s) p)) (ServerID s) = Some (m\<lparr>LastUpdated := clk' 0\<rparr>)"
proof -
  define m where "m = l\<lparr>Incarnation := IncarnationNumber s + 1, LastUpdated := clk 0\<rparr>"
  have idl: "ID l = ServerID s" using find_member_ID [OF own] by simp
  then have idm: "ID m = ServerID s" by (simp add: m_def)
  have up: "IncarnationNumber s < IncarnationNumber s + 1"
    using room by uint_arith
  have m: "find_member (Members s') (ServerID s) = Some m"
    using merge_refute [OF wf own l(1,2) r] find_AddOrUpdate [OF wf_membersD [OF wf_server_members [OF wf]]]
    by (simp add: s' m_def idl [unfolded ID_def] ID_def)
  moreover have "IncarnationNumber s' = IncarnationNumber s + 1"
    using merge_refute [OF wf own l(1,2) r] by (simp add: s')
  moreover have "find_member (Members (mergeMembership clk' [m] (ServerID s) p)) (ServerID s) =
      Some (m\<lparr>LastUpdated := clk' 0\<rparr>)"
    using mergeMembership_entries [OF peer(1), of "[m]" clk' "ServerID s"] peer(2,3) q l idm up
    by (simp add: merge_entry_def suspicion_winner_def is_final_def m_def) 
  ultimately show ?thesis using l(1) by (simp add: m_def)
qed

theorem suspicion_refuted_witness:
  "\<exists>m. find_member (Members (mergeMembership (\<lambda>i. 7) [example_member ''127.0.0.1:5000'' 29 StatusSuspect]
        ''127.0.0.1:5001-0'' example_server)) (ServerID example_server) = Some m \<and>
      Status m = StatusAlive \<and>
      find_member (Members (mergeMembership (\<lambda>i. 9) [m] (ServerID example_server) example_peer)) (ServerID example_server) =
        Some (m\<lparr>LastUpdated := 9\<rparr>)"
  using suspicion_refuted [OF wf_example_server, of "example_member ''127.0.0.1:5000'' 29 StatusAlive"
      "example_member ''127.0.0.1:5000'' 29 StatusSuspect" _ "\<lambda>i. 7" "''127.0.0.1:5001-0''" example_peer
      "example_member ''127.0.0.1:5000'' 29 StatusSuspect" "\<lambda>i. 9", OF _ _ _ _ _ _ refl] one_less_max
      find_example
  by (auto simp: wf_example_peer ID_example)

text \<open>
  C31. Final states are final, and nobody is talked into its own death: a merge in one of the two
  suspicion modes never turns a dead or departed entry into a live one, and the node's own entry
  becomes dead only if it was before.
\<close>

theorem final_stays_final:
  assumes wf: "wf_server s" and mode: "Suspicion (Config s) \<in> {Suspect, NoSuspect}"
    and dist: "distinct (map ID rs)"
    and m: "find_member (Members s) k = Some m"
    and m': "find_member (Members (mergeMembership clk rs sid s)) k = Some m'"
  shows "(is_final m \<longrightarrow> is_final m') \<and>
    (k = ServerID s \<and> Status m' = StatusDead \<longrightarrow> Status m = StatusDead)"
proof (cases "k \<in> ID ` set rs")
  case False
  then show ?thesis
    using m m' mergeMembership_entries [OF wf mode dist, of clk sid] by auto
next
  case True
  then obtain i where i: "i < length rs" "ID (rs ! i) = k" by (auto simp: in_set_conv_nth)
  have e: "merge_entry (Config s) (ServerID s) (IncarnationNumber s) sid (clk i) (Some m) (rs ! i) = Some m'"
    using m m' i mergeMembership_entries [OF wf mode dist, of clk sid] by auto
  show ?thesis using merge_entry_final [OF e] merge_entry_own_death [OF e] i(2) by blast
qed

theorem final_stays_final_witness:
  "\<exists>m'. find_member (Members (mergeMembership (\<lambda>i. 7) [example_member ''127.0.0.1:5001'' 88 StatusAlive] ''x''
      departed_server)) ''127.0.0.1:5001-0'' = Some m' \<and> is_final m'"
proof -
  let ?r = "example_member ''127.0.0.1:5001'' 88 StatusAlive"
  let ?l = "example_member ''127.0.0.1:5001'' 88 StatusVoluntaryLeave"
  let ?s' = "mergeMembership (\<lambda>i. 7) [?r] ''x'' departed_server"
  have "find_member (Members ?s') ''127.0.0.1:5001-0'' = Some ?l"
    using mergeMembership_entries [OF wf_example_peer(2), of "[?r]" "\<lambda>i. 7" "''x''"] find_example(4)
    by (simp add: ID_example merge_entry_def suspicion_winner_def is_final_def)
  with final_stays_final [OF wf_example_peer(2) _ _ find_example(4) this] show ?thesis
    by (simp add: is_final_def)
qed

text \<open>
  Outside the two suspicion modes a merge corrupts the list: once a \<open>ProtocolSwitch\<close> has
  brought in any other string, each received entry of a known member that is neither about this
  node nor dead inserts the zero member, whose status is empty and whose ring position is 0, and
  leaves the known entry as it was.
\<close>

theorem unknown_suspicion_inserts_zero:
  assumes wf: "wf_server s" and m: "find_member (Members s) (ID r) = Some m"
    and mode: "Suspicion (Config s) = SuspicionOther x"
    and r: "ID r \<noteq> ServerID s" "Status r \<noteq> StatusDead" "ID r \<noteq> ID zero_Member"
  shows "find_member (Members (mergeMembership clk [r] sid s)) (ID zero_Member) = Some zero_Member \<and>
    find_member (Members (mergeMembership clk [r] sid s)) (ID r) = Some m"
proof -
  note dist = wf_membersD [OF wf_server_members [OF wf]]
  have "map_of (Snapshot (Members s)) (ID r) = Some m" using m Snapshot_lookup [OF dist] by simp
  then have "\<exists>s1. mergeMembership clk [r] sid s = set_member zero_Member s1 \<and> Members s1 = Members s"
    using mode r by (auto simp: mergeMembership_def merge_one_def Let_def)
  then show ?thesis using r(3) m by (auto simp: find_AddOrUpdate [OF dist])
qed

theorem unknown_suspicion_inserts_zero_witness:
  "find_member (Members (mergeMembership (\<lambda>i. 7) [example_member ''127.0.0.1:5001'' 88 StatusAlive] ''x''
      (example_server\<lparr>Config := SwitchProtocol GossipProtocol (SuspicionOther ''off'') example_config\<rparr>)))
    (ID zero_Member) = Some zero_Member"
proof -
  let ?s = "example_server\<lparr>Config := SwitchProtocol GossipProtocol (SuspicionOther ''off'') example_config\<rparr>"
  have "wf_server ?s" using wf_example_server by (simp add: wf_server_def)
  moreover have "Suspicion (Config ?s) = SuspicionOther ''off''" by (simp add: SwitchProtocol_def)
  moreover have "ServerID ?s = ServerID example_server" by (simp add: ServerID_def)
  ultimately show ?thesis
    using unknown_suspicion_inserts_zero [of ?s "example_member ''127.0.0.1:5001'' 88 StatusAlive"
        "example_member ''127.0.0.1:5001'' 88 StatusAlive" "''off''" "\<lambda>i. 7" "''x''"]
      zero_Member_ID find_example(2)
    by (auto simp: ID_example)
qed

text \<open>
  Leaving lasts one heartbeat: under gossip, the next tick of the heartbeat after
  \<open>leaveGroup\<close> puts the node back into its own list as alive, with a higher heartbeat.
\<close>

theorem leave_undone_by_heartbeat:
  assumes wf: "wf_server s" and m: "find_member (Members s) (ServerID s) = Some m"
    and gossip: "Protocol (Config s) = GossipProtocol"
  shows "(\<exists>l. find_member (Members (leaveGroup t s)) (ServerID s) = Some l \<and> Status l = StatusVoluntaryLeave) \<and>
    (\<exists>a. find_member (Members (increaseHeartbeat u (leaveGroup t s))) (ServerID s) = Some a \<and>
      Status a = StatusAlive \<and> Heartbeat a = HeartbeatCounter s + 1)"
proof -
  note dist = wf_membersD [OF wf_server_members]
  define l where "l = (MarkVoluntaryLeave t m)\<lparr>Incarnation := IncarnationNumber s\<rparr>"
  have idl: "ID l = ServerID s" using find_member_ID [OF m] by (simp add: l_def)
  have leave: "leaveGroup t s = s\<lparr>Members := AddOrUpdate l (Members s)\<rparr>"
    using m Snapshot_lookup [OF dist [OF wf]] by (simp add: leaveGroup_def l_def)
  have 1: "find_member (Members (leaveGroup t s)) (ServerID s) = Some l"
    by (simp add: leave find_AddOrUpdate [OF dist [OF wf]] idl)
  define a where "a = \<lparr>Address = Addr s, NodeCreationTimestamp = CreationTimestamp s, Status = StatusAlive,
    Heartbeat = HeartbeatCounter s + 1, Incarnation = IncarnationNumber s, LastUpdated = u, Hash = ServerHash s\<rparr>"
  have ida: "ID a = ServerID s" by (simp add: a_def ID_def ServerID_def)
  have "Members (increaseHeartbeat u (leaveGroup t s)) = AddOrUpdate a (Members (leaveGroup t s))"
    using gossip by (simp add: increaseHeartbeat_def leave Let_def a_def)
  then have 2: "find_member (Members (increaseHeartbeat u (leaveGroup t s))) (ServerID s) = Some a"
    by (simp add: find_AddOrUpdate [OF dist [OF wf_leaveGroup [OF wf]]] ida)
  show ?thesis using 1 2 by (simp add: l_def a_def)
qed

theorem leave_undone_by_heartbeat_witness:
  "\<exists>a. find_member (Members (increaseHeartbeat 20 (leaveGroup 10 example_server))) (ServerID example_server) = Some a \<and>
    Status a = StatusAlive"
  using leave_undone_by_heartbeat [OF wf_example_server, of "example_member ''127.0.0.1:5000'' 29 StatusAlive" 10 20]
    find_example(1) by auto

end
