(* ===== verification/Disk.thy ===== *)
theory Disk
  imports Server_State
begin

text \<open>
  The few operations of \<^verbatim>\<open>os\<close>, \<^verbatim>\<open>path/filepath\<close> and
  \<^verbatim>\<open>io\<close> that the file operations use, on a directory of plain file names, and the
  chunking of a stream. Names with a path separator and the names \<^verbatim>\<open>.\<close> and
  \<^verbatim>\<open>..\<close> are outside the model. Which calls fail is an argument, \<open>os_faults\<close>: whether the
  directory can be made, which writes fail (and what they leave behind), which files cannot be opened
  or removed, and after how many blocks a read fails.
\<close>

record os_faults =
  MkdirFails :: bool
  WriteFails :: "string \<Rightarrow> bytes option option"
  OpenFails :: "string \<Rightarrow> bool"
  ReadFails :: "string \<Rightarrow> nat option"
  RemoveFails :: "string \<Rightarrow> bool"

definition no_faults :: os_faults where
  "no_faults = \<lparr>MkdirFails = False, WriteFails = (\<lambda>_. None), OpenFails = (\<lambda>_. False),
     ReadFails = (\<lambda>_. None), RemoveFails = (\<lambda>_. False)\<rparr>"

text \<open>The joined path of the empty name is the directory itself, which cannot be written or read.\<close>

definition WriteFile :: "os_faults \<Rightarrow> string \<Rightarrow> bytes \<Rightarrow> directory \<Rightarrow> bool \<times> directory" where
  "WriteFile os name data dir =
     (if name = '''' then (False, dir)
      else case WriteFails os name of
          None \<Rightarrow> (True, AList.update name data dir)
        | Some None \<Rightarrow> (False, dir)
        | Some (Some rest) \<Rightarrow> (False, AList.update name rest dir))"

definition ReadFile :: "os_faults \<Rightarrow> string \<Rightarrow> directory \<Rightarrow> bytes option" where
  "ReadFile os name dir =
     (if OpenFails os name \<or> ReadFails os name \<noteq> None then None else map_of dir name)"

definition Remove :: "os_faults \<Rightarrow> string \<Rightarrow> directory \<Rightarrow> directory" where
  "Remove os name dir = (if RemoveFails os name then dir else AList.delete name dir)"

text \<open>\<^verbatim>\<open>filepath.Base\<close>: the last element of a path.\<close>

definition Base :: "string \<Rightarrow> string" where
  "Base path =
     (if path = '''' then ''.''
      else let trimmed = rev (dropWhile (\<lambda>c. c = CHR ''/'') (rev path));
               last_element = rev (takeWhile (\<lambda>c. c \<noteq> CHR ''/'') (rev trimmed))
           in if last_element = '''' then ''/'' else last_element)"

lemma WriteFile_ok: "WriteFails os name = None \<Longrightarrow> name \<noteq> '''' \<Longrightarrow>
    WriteFile os name data dir = (True, AList.update name data dir)"
  by (simp add: WriteFile_def)

lemma WriteFile_other: "k \<noteq> name \<Longrightarrow> map_of (snd (WriteFile os name data dir)) k = map_of dir k"
  by (simp add: WriteFile_def split: option.split)

lemma no_faults_simps [simp]:
  "\<not> MkdirFails no_faults" "WriteFails no_faults n = None" "\<not> OpenFails no_faults n"
  "ReadFails no_faults n = None" "\<not> RemoveFails no_faults n"
  by (simp_all add: no_faults_def)

lemma Base_plain: "path \<noteq> '''' \<Longrightarrow> CHR ''/'' \<notin> set path \<Longrightarrow> Base path = path"
proof -
  assume a: "path \<noteq> ''''" "CHR ''/'' \<notin> set path"
  have 1: "dropWhile (\<lambda>c. c = CHR ''/'') (rev path) = rev path"
    using a by (simp add: dropWhile_eq_self_iff hd_rev) (metis last_in_set)
  have 2: "takeWhile (\<lambda>c. c \<noteq> CHR ''/'') (rev path) = rev path"
    using a by (auto simp: takeWhile_eq_all_conv)
  show ?thesis using a by (simp add: Base_def 1 2)
qed

section \<open>Chunks\<close>

text \<open>
  What a receiver relies on: the sender splits the data into non-empty pieces that concatenate to it.
\<close>

locale chunking =
  fixes split_up :: "'a list \<Rightarrow> 'a list list" and limit :: nat
  assumes split_concat: "concat (split_up xs) = xs"
    and split_pieces: "ys \<in> set (split_up xs) \<Longrightarrow> ys \<noteq> [] \<and> length ys \<le> limit"
begin

lemma split_Nil: "split_up xs = [] \<longleftrightarrow> xs = []"
proof
  assume "split_up xs = []"
  then show "xs = []" using split_concat [of xs] by simp
next
  assume "xs = []"
  then have "\<forall>ys \<in> set (split_up xs). ys = []" using split_concat [of xs] by simp
  then show "split_up xs = []" using split_pieces by (metis list.set_intros(1) neq_Nil_conv)
qed

lemma split_count: "length xs \<le> limit * length (split_up xs)"
proof -
  have "length (concat yss) \<le> limit * length yss" if "\<forall>ys \<in> set yss. length ys \<le> limit" for yss :: "'a list list"
    using that by (induction yss) auto
  from this [of "split_up xs"] show ?thesis using split_concat split_pieces by metis
qed

end

text \<open>\<^verbatim>\<open>64 * 1024\<close>, the size of a chunk and of the read buffer.\<close>

definition chunkSize :: nat where
  "chunkSize = 65536"

definition chunks_of :: "'a list \<Rightarrow> 'a list list" where
  "chunks_of xs = blocks_of chunkSize xs"

lemma concat_blocks_of: "0 < n \<Longrightarrow> concat (blocks_of n xs) = xs"
proof (induction n xs rule: blocks_of.induct)
  case (1 n xs)
  then show ?case by (subst blocks_of.simps) simp
qed

lemma blocks_of_pieces: "ys \<in> set (blocks_of n xs) \<Longrightarrow> ys \<noteq> [] \<and> length ys \<le> n"
proof (induction n xs rule: blocks_of.induct)
  case (1 n xs)
  show ?case
  proof (cases "n = 0 \<or> xs = []")
    case True
    with "1.prems" show ?thesis by (subst (asm) blocks_of.simps) auto
  next
    case False
    then have "blocks_of n xs = take n xs # blocks_of n (drop n xs)" by (subst blocks_of.simps) simp
    with "1.prems" "1.IH" [OF False] False show ?thesis by auto
  qed
qed

interpretation chunked: chunking chunks_of chunkSize
  by unfold_locales (auto simp: chunks_of_def chunkSize_def concat_blocks_of dest: blocks_of_pieces)

end
