(* ===== verification/Rpc_Server.thy ===== *)
theory Rpc_Server
  imports Disk Membership_Merge
begin

text \<open>
  Models the handlers of \<^verbatim>\<open>src/rpc_server.go\<close> that need only the node's own
  state, the joining side (\<^verbatim>\<open>notifyIntroducer\<close>), the start-up clearing of the
  directory and the message-drop test of \<^verbatim>\<open>listenForMessages\<close>. The handlers that
  call other nodes (\<^verbatim>\<open>MultiAppend\<close>, \<^verbatim>\<open>Merge\<close>,
  \<^verbatim>\<open>ExecuteCommand\<close>) and the dispatch are in
  \<^verbatim>\<open>Operations\<close>. \<^verbatim>\<open>globalServer\<close> is the node itself. Message texts of
  the answers are dropped.
\<close>

record JoinResponse =
  JoinSuccess :: bool
  JoinMembershipList :: "Member list"
  JoinProtocol :: ProtocolType
  JoinSuspicion :: SuspicionType
  JoinIntroducerID :: string

definition rejected_join :: JoinResponse where
  "rejected_join = \<lparr>JoinSuccess = False, JoinMembershipList = [], JoinProtocol = ProtocolOther '''',
     JoinSuspicion = SuspicionOther '''', JoinIntroducerID = ''''\<rparr>"

definition Join :: "instant \<Rightarrow> Member \<Rightarrow> Server \<Rightarrow> JoinResponse \<times> Server" where
  "Join now member ds =
     (if IsIntroducer ds then
        let m = member\<lparr>Hash := HashToMbits (HashBits (Config ds)) (Address member), LastUpdated := now\<rparr>;
            ds1 = ds\<lparr>Members := AddOrUpdate m (Members ds)\<rparr>
        in (\<lparr>JoinSuccess = True, JoinMembershipList = GetAll (Members ds1),
             JoinProtocol = Protocol (Config ds1), JoinSuspicion = Suspicion (Config ds1),
             JoinIntroducerID = ServerID ds1\<rparr>, ds1)
      else (rejected_join, ds))"

definition Gossip :: "(nat \<Rightarrow> instant) \<Rightarrow> string \<Rightarrow> Member list \<Rightarrow> Server \<Rightarrow> bool \<times> Server" where
  "Gossip clk senderID membershipList ds = (True, mergeMembership clk membershipList senderID ds)"

definition Ping ::
    "(nat \<Rightarrow> instant) \<Rightarrow> string \<Rightarrow> Member list \<Rightarrow> Server \<Rightarrow> (string \<times> Member list) \<times> Server" where
  "Ping clk senderID membershipList ds =
     (let ds1 = mergeMembership clk membershipList senderID ds
      in ((ServerID ds1, GetAll (Members ds1)), ds1))"

definition ProtocolSwitch :: "ProtocolType \<Rightarrow> SuspicionType \<Rightarrow> Server \<Rightarrow> bool \<times> Server" where
  "ProtocolSwitch protocol suspicion ds =
     (True, ds\<lparr>Config := SwitchProtocol protocol suspicion (Config ds)\<rparr>)"

text \<open>The metadata in the answer, by file name.\<close>

definition GetFilesMetadata ::
    "(string list \<Rightarrow> string list) \<Rightarrow> int \<Rightarrow> int \<Rightarrow> Server \<Rightarrow> FileMetadata go_map" where
  "GetFilesMetadata ord keyStart keyEnd ds =
     (case GetFilesWithinRange ord (Files (Meta ds)) (Some (keyStart, keyEnd)) of
        Inl _ \<Rightarrow> []
      | Inr fileNames \<Rightarrow>
          fold (\<lambda>name result. AList.update name
              (case map_of (Files (Meta ds)) name of None \<Rightarrow> zero_FileMetadata | Some meta \<Rightarrow> meta) result)
            fileNames [])"

definition GetFileMetadata :: "string \<Rightarrow> Server \<Rightarrow> bool \<times> FileMetadata go_map" where
  "GetFileMetadata filename ds =
     (case GetFile (Meta ds) filename of
        None \<Rightarrow> (False, [])
      | Some fileMetadata \<Rightarrow> (True, [(filename, fileMetadata)]))"

definition UpdateAppendOrder :: "string \<Rightarrow> AppendInfo list \<Rightarrow> Server \<Rightarrow> bool \<times> Server" where
  "UpdateAppendOrder fileName newAppends ds =
     (case GetFile (Meta ds) fileName of
        None \<Rightarrow> (False, ds)
      | Some fileMeta \<Rightarrow> (True, ds\<lparr>Meta := AddFile (fileMeta\<lparr>Appends := newAppends\<rparr>) (Meta ds)\<rparr>))"

section \<open>Joining and starting\<close>

definition join_member :: "instant \<Rightarrow> Server \<Rightarrow> Member" where
  "join_member now s = \<lparr>Address = Addr s, NodeCreationTimestamp = CreationTimestamp s,
     Status = StatusAlive, Heartbeat = HeartbeatCounter s, Incarnation = IncarnationNumber s,
     LastUpdated = now, Hash = ServerHash s\<rparr>"

text \<open>
  \<^verbatim>\<open>notifyIntroducer\<close> with the answer of \<^verbatim>\<open>CallJoin\<close>; \<open>None\<close> when the
  call failed, and then the node does not start. Whether the introducer accepted is not looked at.
\<close>

definition notifyIntroducer :: "(nat \<Rightarrow> instant) \<Rightarrow> JoinResponse option \<Rightarrow> Server \<Rightarrow> Server option" where
  "notifyIntroducer clk resp s =
     (case resp of
        None \<Rightarrow> None
      | Some r \<Rightarrow>
          let s1 = s\<lparr>Config := (Config s)\<lparr>Protocol := JoinProtocol r, Suspicion := JoinSuspicion r\<rparr>\<rparr>
          in Some (mergeMembership clk (JoinMembershipList r) (JoinIntroducerID r) s1))"

definition clearHydfsFolder :: "os_faults \<Rightarrow> directory \<Rightarrow> directory" where
  "clearHydfsFolder os dir = fold (\<lambda>entry. Remove os entry) (map_keys dir) dir"

text \<open>\<^verbatim>\<open>listenForMessages\<close>: a datagram of \<open>n\<close> bytes is counted, then maybe dropped.\<close>

definition listenForMessages :: "u64 \<Rightarrow> float64 \<Rightarrow> (Server \<Rightarrow> 'r \<times> Server) \<Rightarrow> Server \<Rightarrow> 'r option \<times> Server" where
  "listenForMessages n r handle s =
     (let s1 = s\<lparr>Bandwidth := AddReceived n (Bandwidth s)\<rparr>
      in if drops (Config s1) r then (None, s1)
         else case handle s1 of (resp, s2) \<Rightarrow> (Some resp, s2))"

section \<open>Invariant and answers\<close>

lemma wf_Config [inv_intros]: "wf_server s \<Longrightarrow> wf_server (s\<lparr>Config := c\<rparr>)"
  by (simp add: wf_server_def)

lemma wf_Bandwidth [inv_intros]: "wf_server s \<Longrightarrow> wf_server (s\<lparr>Bandwidth := b\<rparr>)"
  by (simp add: wf_server_def)

lemma wf_Meta [inv_intros]: "wf_server s \<Longrightarrow> wf_metadata m \<Longrightarrow> wf_server (s\<lparr>Meta := m\<rparr>)"
  by (simp add: wf_server_def)

lemma wf_FileDirectory [inv_intros]: "wf_server s \<Longrightarrow> wf_server (s\<lparr>FileDirectory := d\<rparr>)"
  by (simp add: wf_server_def)

lemma wf_LocalDirectory [inv_intros]: "wf_server s \<Longrightarrow> wf_server (s\<lparr>LocalDirectory := d\<rparr>)"
  by (simp add: wf_server_def)

lemma wf_server_Meta: "wf_server s \<Longrightarrow> wf_metadata (Meta s)"
  by (simp add: wf_server_def)

lemma wf_Join [inv_intros]: "wf_server s \<Longrightarrow> wf_server (snd (Join now m s))"
  by (auto simp: Join_def Let_def intro!: inv_intros)

lemma wf_Gossip [inv_intros]: "wf_server s \<Longrightarrow> wf_server (snd (Gossip clk sid ms s))"
  by (simp add: Gossip_def inv_intros)

lemma wf_Ping [inv_intros]: "wf_server s \<Longrightarrow> wf_server (snd (Ping clk sid ms s))"
  by (simp add: Ping_def Let_def inv_intros)

lemma wf_ProtocolSwitch [inv_intros]: "wf_server s \<Longrightarrow> wf_server (snd (ProtocolSwitch p x s))"
  by (simp add: ProtocolSwitch_def inv_intros)

lemma wf_UpdateAppendOrder [inv_intros]: "wf_server s \<Longrightarrow> wf_server (snd (UpdateAppendOrder f as s))"
  by (auto simp: UpdateAppendOrder_def wf_server_Meta intro!: inv_intros split: option.split)

lemma GetFilesMetadata_fold:
  "map_of (fold (\<lambda>name result. AList.update name (g name) result) names acc) k =
    (if k \<in> set names then Some (g k) else map_of acc k)"
  by (induction names arbitrary: acc) auto

text \<open>The answer holds exactly the files in the range, each with its metadata.\<close>

lemma GetFilesMetadata_lookup:
  assumes "\<And>xs. mset (ord xs) = mset xs"
  shows "map_of (GetFilesMetadata ord a b ds) k =
    (case GetFile (Meta ds) k of
       None \<Rightarrow> None
     | Some meta \<Rightarrow> if IsHashInRange (FileNameHash meta) a b then Some meta else None)"
proof -
  have "set (ord (map_keys (Files (Meta ds)))) = dom (map_of (Files (Meta ds)))"
    using assms by (metis set_map_keys set_mset_mset)
  then show ?thesis
    by (auto simp: GetFilesMetadata_def GetFilesWithinRange_def GetFilesMetadata_fold GetFile_def
        IsHashInRange_def domIff split: option.split)
qed

end
