(* ===== verification/File_Streams.thy ===== *)
theory File_Streams
  imports Disk
begin

text \<open>
  Models \<^verbatim>\<open>src/grpc_client.go\<close> and \<^verbatim>\<open>src/grpc_server.go\<close>: the
  streams that carry files, appends and downloads. A stream is the list of the messages the receiver
  gets and whether it breaks off with an error instead of ending. gRPC itself is the transport: which
  messages arrive and which errors a side sees are arguments. Status messages are a data type that
  stands for their texts; logging is dropped.
\<close>

section \<open>Messages\<close>

record FileChunk =
  ChunkFilename :: string
  Data :: bytes
  ChunkContentHash :: string
  ChunkNameHash :: int
  ChunkCreationTime :: string

record AppendChunk =
  AppendFilename :: string
  AppendData :: bytes
  AppendContentHash :: string
  AppendId :: string
  ClientId :: string
  ClientTime :: string

datatype upload_error = ReceiveError | FileExists | MkdirError | WriteError | NoSuchFile | MetadataError
datatype UploadStatus = UploadOk | UploadFailed upload_error

text \<open>\<^verbatim>\<open>int32(h.Int64())\<close>: the lowest 32 bits, signed.\<close>

definition to_int32 :: "int \<Rightarrow> int" where
  "to_int32 h = sint (word_of_int h :: 32 word)"

section \<open>Uploading a file\<close>

text \<open>The chunks of \<^verbatim>\<open>SendFileToNode\<close>; only the first carries the metadata.\<close>

fun file_chunks_from :: "bool \<Rightarrow> FileMetadata \<Rightarrow> bytes list \<Rightarrow> FileChunk list" where
  "file_chunks_from isFirstChunk metadata [] = []"
| "file_chunks_from isFirstChunk metadata (b # bs) =
     (if isFirstChunk
      then \<lparr>ChunkFilename = FileName metadata, Data = b, ChunkContentHash = FileContentHash metadata,
             ChunkNameHash = to_int32 (FileNameHash metadata), ChunkCreationTime = CreationTime metadata\<rparr>
      else \<lparr>ChunkFilename = '''', Data = b, ChunkContentHash = '''', ChunkNameHash = 0,
             ChunkCreationTime = ''''\<rparr>)
     # file_chunks_from False metadata bs"

definition file_chunks :: "bytes \<Rightarrow> FileMetadata \<Rightarrow> FileChunk list" where
  "file_chunks data metadata = file_chunks_from True metadata (chunks_of data)"

text \<open>The receiving loop: file name, data, metadata and counters so far.\<close>

definition chunk_bytes :: "bytes \<Rightarrow> u64" where
  "chunk_bytes d = of_nat (length d)"

fun recv_file ::
    "FileChunk list \<Rightarrow> string \<Rightarrow> bytes \<Rightarrow> FileMetadata option \<Rightarrow> BandwidthStats \<Rightarrow>
     string \<times> bytes \<times> FileMetadata option \<times> BandwidthStats" where
  "recv_file [] filename fileData fileMetadata bw = (filename, fileData, fileMetadata, bw)"
| "recv_file (chunk # chunks) filename fileData fileMetadata bw =
     (let filename1 = (if filename = '''' then ChunkFilename chunk else filename);
          fileMetadata1 =
            (if fileMetadata = None \<and> ChunkContentHash chunk \<noteq> ''''
             then Some \<lparr>FileName = filename1, FileContentHash = ChunkContentHash chunk,
                    FileNameHash = ChunkNameHash chunk, CreationTime = ChunkCreationTime chunk,
                    Appends = []\<rparr>
             else fileMetadata)
      in recv_file chunks filename1 (fileData @ Data chunk) fileMetadata1
           (AddReceived (chunk_bytes (Data chunk)) bw))"

text \<open>\<^verbatim>\<open>metadata.FileName\<close> on a nil pointer panics, before the check for nil.\<close>

definition saveFile ::
    "os_faults \<Rightarrow> bytes \<Rightarrow> FileMetadata option \<Rightarrow> Server \<Rightarrow> go_panic + upload_error option \<times> Server" where
  "saveFile os data metadata server =
     (if MkdirFails os then Inr (Some MkdirError, server)
      else case metadata of
          None \<Rightarrow> Inl NilDereference
        | Some meta \<Rightarrow>
            (case WriteFile os (FileName meta) data (FileDirectory server) of
               (False, dir) \<Rightarrow> Inr (Some WriteError, server\<lparr>FileDirectory := dir\<rparr>)
             | (True, dir) \<Rightarrow>
                 Inr (None, server\<lparr>FileDirectory := dir, Meta := AddFile meta (Meta server)\<rparr>)))"

definition FileTransfer ::
    "os_faults \<Rightarrow> FileChunk list \<Rightarrow> bool \<Rightarrow> Server \<Rightarrow> go_panic + UploadStatus \<times> Server" where
  "FileTransfer os chunks broken server =
     (case recv_file chunks '''' [] None (Bandwidth server) of
        (filename, fileData, fileMetadata, bw) \<Rightarrow>
          let server1 = server\<lparr>Bandwidth := bw\<rparr>
          in if broken then Inr (UploadFailed ReceiveError, server1)
             else if GetFile (Meta server1) filename \<noteq> None then Inr (UploadFailed FileExists, server1)
             else case saveFile os fileData fileMetadata server1 of
                 Inl p \<Rightarrow> Inl p
               | Inr (Some e, server2) \<Rightarrow> Inr (UploadFailed e, server2)
               | Inr (None, server2) \<Rightarrow> Inr (UploadOk, server2))"

section \<open>Uploading an append\<close>

fun append_chunks_from :: "bool \<Rightarrow> AppendInfo \<Rightarrow> bytes list \<Rightarrow> AppendChunk list" where
  "append_chunks_from isFirstChunk appendInfo [] = []"
| "append_chunks_from isFirstChunk appendInfo (b # bs) =
     (if isFirstChunk
      then \<lparr>AppendFilename = AppFileName appendInfo, AppendData = b,
             AppendContentHash = AppendHash appendInfo, AppendId = AppendID appendInfo,
             ClientId = ClientID appendInfo, ClientTime = ClientTimestamp appendInfo\<rparr>
      else \<lparr>AppendFilename = '''', AppendData = b, AppendContentHash = '''', AppendId = '''',
             ClientId = '''', ClientTime = ''''\<rparr>)
     # append_chunks_from False appendInfo bs"

definition append_chunks :: "bytes \<Rightarrow> AppendInfo \<Rightarrow> AppendChunk list" where
  "append_chunks data appendInfo = append_chunks_from True appendInfo (chunks_of data)"

text \<open>The received fields; \<open>None\<close> until the first chunk. Its data is not yet counted.\<close>

fun recv_append ::
    "AppendChunk list \<Rightarrow> AppendChunk option \<Rightarrow> bytes \<Rightarrow> BandwidthStats \<Rightarrow>
     AppendChunk option \<times> bytes \<times> BandwidthStats" where
  "recv_append [] first appendData bw = (first, appendData, bw)"
| "recv_append (chunk # chunks) first appendData bw =
     recv_append chunks (case first of None \<Rightarrow> Some chunk | Some c \<Rightarrow> Some c)
       (appendData @ AppendData chunk) (AddReceived (chunk_bytes (AppendData chunk)) bw)"

definition no_chunk :: AppendChunk where
  "no_chunk = \<lparr>AppendFilename = '''', AppendData = [], AppendContentHash = '''', AppendId = '''',
     ClientId = '''', ClientTime = ''''\<rparr>"

definition AppendTransfer ::
    "os_faults \<Rightarrow> AppendChunk list \<Rightarrow> bool \<Rightarrow> Server \<Rightarrow> UploadStatus \<times> Server" where
  "AppendTransfer os chunks broken server =
     (case recv_append chunks None [] (Bandwidth server) of
        (first, appendData, bw) \<Rightarrow>
          let server1 = server\<lparr>Bandwidth := bw\<rparr>;
              c = (case first of None \<Rightarrow> no_chunk | Some c \<Rightarrow> c)
          in if broken then (UploadFailed ReceiveError, server1)
             else if GetFile (Meta server1) (AppendFilename c) = None then (UploadFailed NoSuchFile, server1)
             else
               let appendInfo = \<lparr>AppFileName = AppendFilename c, AppendID = AppendId c,
                     ClientID = ClientId c, ClientTimestamp = ClientTime c,
                     AppendHash = AppendContentHash c, Size = int (length appendData)\<rparr>
               in if MkdirFails os then (UploadFailed MkdirError, server1)
                  else case WriteFile os (AppendId c) appendData (FileDirectory server1) of
                      (False, dir) \<Rightarrow> (UploadFailed WriteError, server1\<lparr>FileDirectory := dir\<rparr>)
                    | (True, dir) \<Rightarrow>
                        (case AppendToFile (AppendFilename c) appendInfo (Meta server1) of
                           (Some e, m) \<Rightarrow>
                             (UploadFailed MetadataError, server1\<lparr>FileDirectory := dir, Meta := m\<rparr>)
                         | (None, m) \<Rightarrow> (UploadOk, server1\<lparr>FileDirectory := dir, Meta := m\<rparr>)))"

section \<open>Downloading\<close>

datatype get_error = NotInMetadata | ReadError

definition data_chunk :: "string \<Rightarrow> bytes \<Rightarrow> FileChunk" where
  "data_chunk filename d = \<lparr>ChunkFilename = filename, Data = d, ChunkContentHash = '''',
     ChunkNameHash = 0, ChunkCreationTime = ''''\<rparr>"

text \<open>
  The loop over the paths: a file that cannot be opened is skipped, without its separator; a read
  error ends the stream.
\<close>

fun get_loop ::
    "os_faults \<Rightarrow> directory \<Rightarrow> string \<Rightarrow> string list \<Rightarrow> FileChunk list \<times> get_error option" where
  "get_loop os dir filename [] = ([], None)"
| "get_loop os dir filename (path # paths) =
     (case (if OpenFails os path then None else map_of dir path) of
        None \<Rightarrow> get_loop os dir filename paths
      | Some content \<Rightarrow>
          let chunks = map (data_chunk filename) (chunks_of content)
          in case ReadFails os path of
               Some n \<Rightarrow> (take n chunks, Some ReadError)
             | None \<Rightarrow>
                 let newline = (if paths = [] then [] else [data_chunk filename [10]])
                 in case get_loop os dir filename paths of
                      (later, e) \<Rightarrow> (chunks @ newline @ later, e))"

definition HyDFS_GetFile ::
    "os_faults \<Rightarrow> string \<Rightarrow> Server \<Rightarrow> (FileChunk list \<times> get_error option) \<times> Server" where
  "HyDFS_GetFile os filename server =
     (case GetFile (Meta server) filename of
        None \<Rightarrow> (([], Some NotInMetadata), server)
      | Some meta \<Rightarrow>
          let stream = get_loop os (FileDirectory server) filename
                (FileName meta # map AppendID (Appends meta))
          in (stream, server\<lparr>Bandwidth :=
                fold (\<lambda>chunk. AddSent (chunk_bytes (Data chunk))) (fst stream) (Bandwidth server)\<rparr>))"

text \<open>
  The client's loop, on a file just created empty. On any error the file is removed. A failing write
  is one that \<open>os\<close> names for this file.
\<close>

fun receive_loop ::
    "os_faults \<Rightarrow> string \<Rightarrow> FileChunk list \<Rightarrow> bool \<Rightarrow> bytes \<Rightarrow> directory \<Rightarrow> BandwidthStats \<Rightarrow>
     bool \<times> directory \<times> BandwidthStats" where
  "receive_loop os name [] failed written dir bw =
     (if failed then (False, Remove os name dir, AddReceived 0 bw) else (True, dir, bw))"
| "receive_loop os name (chunk # chunks) failed written dir bw =
     (let bw1 = AddReceived (chunk_bytes (Data chunk)) bw
      in if WriteFails os name \<noteq> None then (False, Remove os name dir, bw1)
         else receive_loop os name chunks failed (written @ Data chunk)
                (AList.update name (written @ Data chunk) dir) bw1)"

text \<open>
  \<^verbatim>\<open>ReceiveFileFromNode\<close> after the connection: \<open>stream\<close> is \<open>None\<close> if it could not
  be opened. The target file is created, and so truncated, before the first message is read.
\<close>

definition receive_file ::
    "os_faults \<Rightarrow> (FileChunk list \<times> bool) option \<Rightarrow> string \<Rightarrow> directory \<Rightarrow> BandwidthStats \<Rightarrow>
     bool \<times> directory \<times> BandwidthStats" where
  "receive_file os stream localPath dir bw =
     (case stream of
        None \<Rightarrow> (False, dir, bw)
      | Some (chunks, failed) \<Rightarrow>
          let name = Base localPath
          in if MkdirFails os \<or> OpenFails os name then (False, dir, bw)
             else receive_loop os name chunks failed [] (AList.update name [] dir) bw)"

section \<open>Streams and their contents\<close>

lemma recv_file_rest:
  "filename \<noteq> '''' \<Longrightarrow> recv_file (file_chunks_from False meta bs) filename d (Some m) bw =
    (filename, d @ concat bs, Some m, fold (\<lambda>b. AddReceived (chunk_bytes b)) bs bw)"
  by (induction bs arbitrary: d bw) (simp_all add: Let_def)

lemma recv_file_chunks:
  assumes "data \<noteq> []" and "FileName meta \<noteq> ''''" and "FileContentHash meta \<noteq> ''''"
  shows "recv_file (file_chunks data meta) '''' [] None bw =
    (FileName meta, data,
     Some (meta\<lparr>FileNameHash := to_int32 (FileNameHash meta), Appends := []\<rparr>),
     fold (\<lambda>b. AddReceived (chunk_bytes b)) (chunks_of data) bw)"
proof -
  obtain b bs where bs: "chunks_of data = b # bs"
    using assms(1) chunked.split_Nil [of data] by (cases "chunks_of data") auto
  then have "b @ concat bs = data" using chunked.split_concat [of data] by simp
  then show ?thesis
    using assms by (simp add: file_chunks_def bs Let_def recv_file_rest)
qed

lemma recv_append_rest:
  "recv_append (append_chunks_from False a bs) (Some c) d bw =
    (Some c, d @ concat bs, fold (\<lambda>b. AddReceived (chunk_bytes b)) bs bw)"
  by (induction bs arbitrary: d bw) simp_all

lemma recv_append_chunks:
  assumes "data \<noteq> []"
  shows "\<exists>b. recv_append (append_chunks data a) None [] bw =
    (Some \<lparr>AppendFilename = AppFileName a, AppendData = b, AppendContentHash = AppendHash a,
       AppendId = AppendID a, ClientId = ClientID a, ClientTime = ClientTimestamp a\<rparr>, data,
     fold (\<lambda>b. AddReceived (chunk_bytes b)) (chunks_of data) bw)"
proof -
  obtain b bs where bs: "chunks_of data = b # bs"
    using assms chunked.split_Nil [of data] by (cases "chunks_of data") auto
  then have "b @ concat bs = data" using chunked.split_concat [of data] by simp
  then show ?thesis by (simp add: append_chunks_def bs recv_append_rest)
qed

text \<open>The counters grow by what was received.\<close>

lemma received_bytes:
  "BytesReceived (fold (\<lambda>b. AddReceived (chunk_bytes b)) bs bw) =
    BytesReceived bw + of_nat (length (concat bs))"
  by (induction bs arbitrary: bw) (simp_all add: AddReceived_def chunk_bytes_def add.assoc)

lemma to_int32_small: "- (2 ^ 31) \<le> h \<Longrightarrow> h < 2 ^ 31 \<Longrightarrow> to_int32 h = h"
  by (simp add: to_int32_def sint_sbintrunc' signed_take_bit_int_eq_self)

section \<open>The handlers\<close>

lemma FileTransfer_ok:
  assumes "data \<noteq> []" and "FileName meta \<noteq> ''''" and "FileContentHash meta \<noteq> ''''"
    and "GetFile (Meta s) (FileName meta) = None"
    and "\<not> MkdirFails os" and "WriteFails os (FileName meta) = None"
  shows "FileTransfer os (file_chunks data meta) False s =
    Inr (UploadOk, s\<lparr>Bandwidth := fold (\<lambda>b. AddReceived (chunk_bytes b)) (chunks_of data) (Bandwidth s),
      FileDirectory := AList.update (FileName meta) data (FileDirectory s),
      Meta := AddFile (meta\<lparr>FileNameHash := to_int32 (FileNameHash meta), Appends := []\<rparr>) (Meta s)\<rparr>)"
  using assms
  by (simp add: FileTransfer_def recv_file_chunks Let_def saveFile_def WriteFile_ok)

lemma FileTransfer_failed_meta:
  "FileTransfer os chunks broken s = Inr (UploadFailed e, s') \<Longrightarrow> Meta s' = Meta s"
  by (auto simp: FileTransfer_def saveFile_def Let_def split: prod.splits if_splits option.splits sum.splits bool.splits)

text \<open>What an append leaves at the receiver, whether its identifier is new or known.\<close>

lemma AppendTransfer_ok:
  assumes "data \<noteq> []" and "AppendID a \<noteq> ''''" and "wf_metadata (Meta s)"
    and "GetFile (Meta s) (AppFileName a) = Some meta"
    and "\<not> MkdirFails os" and "WriteFails os (AppendID a) = None"
  shows "AppendTransfer os (append_chunks data a) False s =
    (UploadOk, s\<lparr>Bandwidth := fold (\<lambda>b. AddReceived (chunk_bytes b)) (chunks_of data) (Bandwidth s),
      FileDirectory := AList.update (AppendID a) data (FileDirectory s),
      Meta := snd (AppendToFile (AppFileName a) (a\<lparr>Size := int (length data)\<rparr>) (Meta s))\<rparr>)"
proof -
  obtain b where b: "recv_append (append_chunks data a) None [] (Bandwidth s) =
      (Some \<lparr>AppendFilename = AppFileName a, AppendData = b, AppendContentHash = AppendHash a,
         AppendId = AppendID a, ClientId = ClientID a, ClientTime = ClientTimestamp a\<rparr>, data,
       fold (\<lambda>b. AddReceived (chunk_bytes b)) (chunks_of data) (Bandwidth s))"
    using recv_append_chunks [OF assms(1)] by blast
  have info: "\<lparr>AppFileName = AppFileName a, AppendID = AppendID a, ClientID = ClientID a,
      ClientTimestamp = ClientTimestamp a, AppendHash = AppendHash a, Size = int (length data)\<rparr> =
      a\<lparr>Size := int (length data)\<rparr>"
    by simp
  have lock: "getFileLock (Meta s) (AppFileName a)"
    using assms(3,4) by (simp add: wf_metadata_def)
  then have "fst (AppendToFile (AppFileName a) x (Meta s)) = None" for x
    by (simp add: AppendToFile_def Let_def)
  then obtain m where m: "AppendToFile (AppFileName a) (a\<lparr>Size := int (length data)\<rparr>) (Meta s) = (None, m)"
    by (metis prod.collapse)
  show ?thesis
    using assms b by (simp add: AppendTransfer_def Let_def WriteFile_ok info m)
qed

text \<open>The contents of a stream.\<close>

definition stream_data :: "FileChunk list \<Rightarrow> bytes" where
  "stream_data chunks = concat (map Data chunks)"

fun join_lines :: "bytes list \<Rightarrow> bytes" where
  "join_lines [] = []"
| "join_lines (x # xs) = (if xs = [] then x else x @ 10 # join_lines xs)"

lemma stream_data_chunks: "stream_data (map (data_chunk f) (chunks_of c)) = c"
  by (simp add: stream_data_def data_chunk_def o_def chunked.split_concat)

lemma get_loop_data:
  assumes "\<forall>p \<in> set paths. map_of dir p = Some (content p) \<and> \<not> OpenFails os p \<and> ReadFails os p = None"
  shows "snd (get_loop os dir f paths) = None \<and>
    stream_data (fst (get_loop os dir f paths)) = join_lines (map content paths)"
  using assms
proof (induction paths)
  case (Cons p paths)
  obtain later e where l: "get_loop os dir f paths = (later, e)" by fastforce
  with Cons have "e = None" "stream_data later = join_lines (map content paths)" by auto
  then show ?case
    using Cons.prems l stream_data_chunks [of f "content p"]
    by (auto simp: Let_def stream_data_def data_chunk_def)
qed (simp add: stream_data_def)

lemma receive_loop_ok:
  "WriteFails os name = None \<Longrightarrow> map_of dir name = Some written \<Longrightarrow>
    fst (receive_loop os name chunks False written dir bw) \<and>
    map_of (fst (snd (receive_loop os name chunks False written dir bw))) =
      (map_of dir)(name \<mapsto> written @ stream_data chunks)"
proof (induction chunks arbitrary: written dir bw)
  case Nil
  then show ?case by (simp add: stream_data_def fun_upd_idem)
next
  case (Cons c chunks)
  have "map_of (AList.update name (written @ Data c) dir) name = Some (written @ Data c)" by simp
  from Cons.IH [OF Cons.prems(1) this, of "AddReceived (chunk_bytes (Data c)) bw"] Cons.prems(1) show ?case
    by (simp add: Let_def stream_data_def fun_eq_iff)
qed

lemma receive_loop_failed:
  "\<not> RemoveFails os name \<Longrightarrow>
    \<not> fst (receive_loop os name chunks True written dir bw) \<and>
    map_of (fst (snd (receive_loop os name chunks True written dir bw))) = (map_of dir)(name := None)"
  by (induction chunks arbitrary: written dir bw) (simp_all add: Let_def Remove_def)

end
