(* ===== verification/Downloads.thy ===== *)
theory Downloads
  imports File_Streams
begin

text \<open>
  The downloads of a node as they run side by side (\<^verbatim>\<open>ReceiveFileFromNode\<close> in
  \<^verbatim>\<open>src/grpc_client.go\<close>, started by \<^verbatim>\<open>handleGet\<close> in
  \<^verbatim>\<open>src/hydfs_operations.go\<close>): each step is one call on the local file. Several downloads may
  have the same file open; each writes at its own place, creating truncates the file for all of them, and
  removing takes the name away from the open file.
\<close>

section \<open>Steps\<close>

definition write_at :: "nat \<Rightarrow> bytes \<Rightarrow> bytes \<Rightarrow> bytes" where
  "write_at n b content = take n (content @ replicate (n - length content) 0) @ b @ drop (n + length b) content"

text \<open>The open files whose name is gone.\<close>

definition unlink :: "directory \<Rightarrow> Download list \<Rightarrow> Download list" where
  "unlink dir ds =
     map (\<lambda>d. if DlPhase d = Writing \<and> map_of dir (DlName d) = None then d\<lparr>DlPhase := Unlinked\<rparr> else d) ds"

definition new_download :: "string \<Rightarrow> FileChunk list \<times> bool \<Rightarrow> Download" where
  "new_download localPath stream =
     \<lparr>DlName = Base localPath, DlChunks = map Data (fst stream), DlFails = snd stream, DlOffset = 0,
      DlPhase = Opening\<rparr>"

definition set_download :: "nat \<Rightarrow> Download \<Rightarrow> directory \<Rightarrow> BandwidthStats \<Rightarrow> Server \<Rightarrow> Server" where
  "set_download i d dir bw s =
     s\<lparr>LocalDirectory := dir, Downloads := unlink dir ((Downloads s)[i := d]), Bandwidth := bw\<rparr>"

text \<open>
  A step of the \<open>i\<close>-th download: \<^verbatim>\<open>os.MkdirAll\<close> and \<^verbatim>\<open>os.Create\<close>, then one message
  after the other is received and written, then the end. On an error the name is removed, whatever file
  it leads to by then.
\<close>

definition download_step :: "os_faults \<Rightarrow> nat \<Rightarrow> Server \<Rightarrow> Server" where
  "download_step os i s =
     (if length (Downloads s) \<le> i then s
      else
        let d = Downloads s ! i; name = DlName d; dir = LocalDirectory s; bw = Bandwidth s
        in case DlPhase d of
            Ended _ \<Rightarrow> s
          | Opening \<Rightarrow>
              if MkdirFails os \<or> OpenFails os name then set_download i (d\<lparr>DlPhase := Ended False\<rparr>) dir bw s
              else set_download i (d\<lparr>DlPhase := Writing\<rparr>) (AList.update name [] dir) bw s
          | _ \<Rightarrow>
              (case DlChunks d of
                 [] \<Rightarrow>
                   if DlFails d
                   then set_download i (d\<lparr>DlPhase := Ended False\<rparr>) (Remove os name dir) (AddReceived 0 bw) s
                   else set_download i (d\<lparr>DlPhase := Ended True\<rparr>) dir bw s
               | chunk # chunks \<Rightarrow>
                   let bw1 = AddReceived (chunk_bytes chunk) bw
                   in if WriteFails os name \<noteq> None
                      then set_download i (d\<lparr>DlPhase := Ended False\<rparr>) (Remove os name dir) bw1 s
                      else set_download i (d\<lparr>DlChunks := chunks, DlOffset := DlOffset d + length chunk\<rparr>)
                        (if DlPhase d = Writing
                         then AList.update name (write_at (DlOffset d) chunk (case map_of dir name of None \<Rightarrow> [] | Some content \<Rightarrow> content)) dir
                         else dir) bw1 s))"

text \<open>Steps in the order of \<open>sched\<close> until the \<open>k\<close>-th download has ended, with its result, or the time is up.\<close>

fun run_until :: "os_faults \<Rightarrow> nat \<Rightarrow> nat list \<Rightarrow> Server \<Rightarrow> bool option \<times> Server" where
  "run_until os k [] s = (None, s)"
| "run_until os k (i # is) s =
     (let s1 = download_step os i s
      in case DlPhase (Downloads s1 ! k) of
          Ended ok \<Rightarrow> (Some ok, s1)
        | _ \<Rightarrow> run_until os k is s1)"

section \<open>What a step leaves alone\<close>

lemma length_unlink [simp]: "length (unlink dir ds) = length ds"
  by (simp add: unlink_def)

definition moves :: "Server \<Rightarrow> Server \<Rightarrow> bool" where
  "moves s s' \<longleftrightarrow> (\<exists>dir ds bw. s' = s\<lparr>LocalDirectory := dir, Downloads := ds, Bandwidth := bw\<rparr> \<and>
     length ds = length (Downloads s))"

lemma moves_refl [simp]: "moves s s"
  unfolding moves_def by (rule exI [of _ "LocalDirectory s"], rule exI [of _ "Downloads s"], rule exI [of _ "Bandwidth s"]) simp

lemma moves_trans [trans]: "moves s t \<Longrightarrow> moves t u \<Longrightarrow> moves s u"
  by (force simp: moves_def)

lemma moves_set [simp]: "moves s (set_download i d dir bw s)"
  unfolding moves_def set_download_def by (intro exI conjI, rule refl) simp

lemma moves_step: "moves s (download_step os i s)"
  by (simp add: download_step_def Let_def split: download_phase.split list.split)

lemma moves_run: "moves s (snd (run_until os k sched s))"
proof (induction sched arbitrary: s)
  case (Cons i sched)
  then show ?case using moves_trans [OF moves_step [of s os i] Cons.IH]
    by (simp add: Let_def moves_step split: download_phase.split)
qed simp

section \<open>A download alone\<close>

text \<open>Run from its start to its end with nothing in between, the steps are \<open>receive_file\<close>.\<close>

lemma unlink_unlink:
  "(\<And>n. map_of dir n = None \<Longrightarrow> map_of dir' n = None) \<Longrightarrow> unlink dir' (unlink dir ds) = unlink dir' ds"
  by (auto simp: unlink_def)

lemma unlink_append: "unlink dir (ds @ [d]) = unlink dir ds @ [if DlPhase d = Writing \<and> map_of dir (DlName d) = None
    then d\<lparr>DlPhase := Unlinked\<rparr> else d]"
  by (simp add: unlink_def)

lemma write_at_end: "write_at (length w) b w = w @ b"
  by (simp add: write_at_def)

lemma last_unlink [simp]:
  "(unlink dir ds @ [d]) ! length ds = d" "(unlink dir ds @ [d])[length ds := e] = unlink dir ds @ [e]"
  by (metis length_unlink nth_append_length, metis length_unlink list_update_length)

definition ended :: "nat \<Rightarrow> bool \<Rightarrow> directory \<Rightarrow> BandwidthStats \<Rightarrow> Server \<Rightarrow> Server \<Rightarrow> bool" where
  "ended k ok dir bw s0 s \<longleftrightarrow> (\<exists>d. DlPhase d = Ended ok \<and>
     s = s0\<lparr>LocalDirectory := dir, Downloads := unlink dir (Downloads s0) @ [d], Bandwidth := bw\<rparr>)"

lemma endedI:
  "DlPhase d = Ended ok \<Longrightarrow>
    ended k ok dir bw s0 (s0\<lparr>LocalDirectory := dir, Downloads := unlink dir (Downloads s0) @ [d], Bandwidth := bw\<rparr>)"
  unfolding ended_def by blast

abbreviation with_download :: "Server \<Rightarrow> directory \<Rightarrow> BandwidthStats \<Rightarrow> Download \<Rightarrow> Server" where
  "with_download s dir bw d \<equiv> s\<lparr>LocalDirectory := dir, Downloads := unlink dir (Downloads s) @ [d], Bandwidth := bw\<rparr>"

lemma set_last_download:
  assumes "\<And>n. map_of dir n = None \<Longrightarrow> map_of dir' n = None" and "DlPhase d' = Writing \<Longrightarrow> map_of dir' (DlName d') \<noteq> None"
  shows "set_download (length (Downloads s0)) d' dir' bw' (with_download s0 dir bw d) = with_download s0 dir' bw' d'"
  using assms by (simp add: set_download_def unlink_append unlink_unlink)

lemma set_last_removed:
  "set_download (length (Downloads s0)) (d'\<lparr>DlPhase := Ended ok\<rparr>) (Remove os n dir) bw' (with_download s0 dir bw d) =
    with_download s0 (Remove os n dir) bw' (d'\<lparr>DlPhase := Ended ok\<rparr>)"
  by (rule set_last_download) (simp_all add: Remove_def delete_conv')

lemma run_first: "k = length (Downloads s0) \<Longrightarrow> download_step os k s = with_download s0 dir bw d \<Longrightarrow>
    run_until os k (k # is) s = (case DlPhase d of Ended ok \<Rightarrow> (Some ok, with_download s0 dir bw d)
      | _ \<Rightarrow> run_until os k is (with_download s0 dir bw d))"
  by (simp add: Let_def split: download_phase.split)

lemma run_alone_writing:
  assumes k: "k = length (Downloads s0)" and "map_of dir (DlName d) = Some w" "DlPhase d = Writing" "DlOffset d = length w"
    and "receive_loop os (DlName d) chunks (DlFails d) w dir bw = (ok, dir', bw')" "DlChunks d = map Data chunks"
  shows "\<exists>s'. run_until os k (replicate (Suc (length chunks)) k) (with_download s0 dir bw d) = (Some ok, s') \<and>
    ended k ok dir' bw' s0 s'"
  using assms(2-)
proof (induction chunks arbitrary: d w dir bw)
  case Nil
  have "download_step os k (with_download s0 dir bw d) = with_download s0 dir' bw' (d\<lparr>DlPhase := Ended ok\<rparr>)"
    unfolding download_step_def Let_def k using Nil
    by (auto simp: set_last_download set_last_removed split: if_splits)
  from run_first [OF k this, of "[]"] show ?case by (simp add: endedI del: run_until.simps(2))
next
  case (Cons ch chunks)
  show ?case
  proof (cases "WriteFails os (DlName d) = None")
    case False
    have "download_step os k (with_download s0 dir bw d) = with_download s0 dir' bw' (d\<lparr>DlPhase := Ended ok\<rparr>)"
      unfolding download_step_def Let_def k using Cons.prems False
      by (auto simp: set_last_removed Let_def)
    from run_first [OF k this, of "replicate (length (ch # chunks)) k"] show ?thesis by (simp add: endedI del: run_until.simps(2))
  next
    case True
    let ?d = "d\<lparr>DlChunks := map Data chunks, DlOffset := length (w @ Data ch)\<rparr>"
    let ?dir = "AList.update (DlName d) (w @ Data ch) dir" and ?bw = "AddReceived (chunk_bytes (Data ch)) bw"
    have "set_download (length (Downloads s0)) ?d ?dir ?bw (with_download s0 dir bw d) = with_download s0 ?dir ?bw ?d"
      using Cons.prems(1) by (intro set_last_download) (auto simp: update_conv' split: if_splits)
    then have step: "download_step os k (with_download s0 dir bw d) = with_download s0 ?dir ?bw ?d"
      unfolding download_step_def Let_def k using True Cons.prems by (simp add: write_at_end)
    have "\<exists>s'. run_until os k (replicate (Suc (length chunks)) k) (with_download s0 ?dir ?bw ?d) = (Some ok, s') \<and>
        ended k ok dir' bw' s0 s'"
      using Cons.prems True by (intro Cons.IH [where d = ?d and w = "w @ Data ch"]) (simp_all add: update_conv' Let_def)
    then show ?thesis
      using run_first [OF k step, of "replicate (Suc (length chunks)) k"] Cons.prems(2) by (simp del: run_until.simps(2))
  qed
qed

lemma run_alone:
  assumes "receive_file os (Some (chunks, failed)) localPath (LocalDirectory s0) (Bandwidth s0) = (ok, dir, bw)"
    and k: "k = length (Downloads s0)"
  shows "\<exists>s'. run_until os k (replicate (length chunks + 2) k)
      (s0\<lparr>Downloads := Downloads s0 @ [new_download localPath (chunks, failed)]\<rparr>) = (Some ok, s') \<and> ended k ok dir bw s0 s'"
proof -
  let ?d = "new_download localPath (chunks, failed)" and ?n = "Base localPath"
  let ?s = "s0\<lparr>Downloads := Downloads s0 @ [?d]\<rparr>"
  have d: "DlName ?d = ?n" "DlPhase ?d = Opening" by (simp_all add: new_download_def)
  show ?thesis
  proof (cases "MkdirFails os \<or> OpenFails os ?n")
    case True
    then have r: "ok = False" "dir = LocalDirectory s0" "bw = Bandwidth s0" using assms(1)
      by (auto simp: receive_file_def Let_def)
    have "download_step os k ?s = with_download s0 dir bw (?d\<lparr>DlPhase := Ended ok\<rparr>)"
      using True d r k by (simp add: download_step_def Let_def set_download_def unlink_append)
    from run_first [OF k this, of "replicate (Suc (length chunks)) k"] show ?thesis by (simp add: endedI del: run_until.simps(2))
  next
    case False
    let ?dir = "AList.update ?n [] (LocalDirectory s0)"
    have step: "download_step os k ?s = with_download s0 ?dir (Bandwidth s0) (?d\<lparr>DlPhase := Writing\<rparr>)"
      using False d k by (simp add: download_step_def Let_def set_download_def unlink_append update_conv')
    have "\<exists>s'. run_until os k (replicate (Suc (length chunks)) k) (with_download s0 ?dir (Bandwidth s0) (?d\<lparr>DlPhase := Writing\<rparr>)) =
        (Some ok, s') \<and> ended k ok dir bw s0 s'"
      using assms(1) False
      by (intro run_alone_writing [OF k, where w = "[]"]) (simp_all add: new_download_def receive_file_def Let_def update_conv')
    then show ?thesis using run_first [OF k step, of "replicate (Suc (length chunks)) k"] by (simp del: run_until.simps(2))
  qed
qed

section \<open>Downloads of the same contents\<close>

lemma length_write_at [simp]: "length (write_at n b c) = max (length c) (n + length b)"
  by (simp add: write_at_def)

lemma nth_write_at: "i < length c \<Longrightarrow> write_at n b c ! i = (if n \<le> i \<and> i < n + length b then b ! (i - n) else c ! i)"
  by (auto simp: write_at_def nth_append nth_take)

text \<open>Writing a part of \<open>X\<close> at its place keeps what is already right.\<close>

lemma write_part:
  assumes "take p c = take p X" and "p \<le> length c" "length c \<le> length X" and "drop off X = b @ rest" "off \<le> length X"
  shows "take p (write_at off b c) = take p X" and "p \<le> length (write_at off b c)" and "length (write_at off b c) \<le> length X"
proof -
  have b: "b ! j = X ! (off + j)" if "j < length b" for j
    using arg_cong [OF assms(4), of "\<lambda>ys. ys ! j"] that assms(5) by (simp add: nth_append)
  have "length b \<le> length (drop off X)" using assms(4) by simp
  then have len: "off + length b \<le> length X" using assms(5) by simp
  then show "length (write_at off b c) \<le> length X" using assms(3) by simp
  show p: "p \<le> length (write_at off b c)" using assms(2) by simp
  show "take p (write_at off b c) = take p X"
  proof (rule nth_equalityI)
    show "length (take p (write_at off b c)) = length (take p X)" using p assms(2,3) len by simp
    fix i assume "i < length (take p (write_at off b c))"
    then have i: "i < p" "i < length c" using assms(2) by simp_all
    have "c ! i = X ! i" using arg_cong [OF assms(1), of "\<lambda>ys. ys ! i"] i by simp
    then show "take p (write_at off b c) ! i = take p X ! i"
      using i b [of "i - off"] by (auto simp: nth_write_at)
  qed
qed

lemma write_next:
  assumes "take p c = take p X" and "p \<le> length c" "length c \<le> length X" and "drop p X = b @ rest"
  shows "take (p + length b) (write_at p b c) = take (p + length b) X" and "p + length b \<le> length (write_at p b c)"
    and "length (write_at p b c) \<le> length X"
proof -
  have "length b \<le> length (drop p X)" using assms(4) by simp
  then have len: "p + length b \<le> length X" using assms(2,3) by simp
  show "p + length b \<le> length (write_at p b c)" by simp
  show "length (write_at p b c) \<le> length X" using len assms(3) by simp
  have "take p (c @ replicate (p - length c) 0) = take p X" using assms(1,2) by simp
  then show "take (p + length b) (write_at p b c) = take (p + length b) X"
    using len assms(2,3,4) by (simp add: write_at_def take_add)
qed

text \<open>
  A download of the local file \<open>n\<close> that will deliver \<open>X\<close>; one that has already opened the file; and the
  files that work.
\<close>

definition delivers :: "bytes \<Rightarrow> Download \<Rightarrow> bool" where
  "delivers X d \<longleftrightarrow> \<not> DlFails d \<and> DlOffset d \<le> length X \<and> drop (DlOffset d) X = concat (DlChunks d)"

definition concurs :: "string \<Rightarrow> bytes \<Rightarrow> Download \<Rightarrow> bool" where
  "concurs n X d \<longleftrightarrow> (DlName d = n \<longrightarrow> (\<exists>ok. DlPhase d = Ended ok) \<or> DlPhase d \<noteq> Opening \<and> delivers X d)"

definition disk_works :: "os_faults \<Rightarrow> string \<Rightarrow> bool" where
  "disk_works os n \<longleftrightarrow> \<not> MkdirFails os \<and> \<not> OpenFails os n \<and> WriteFails os n = None"

text \<open>
  The file \<open>n\<close> while the \<open>k\<close>-th download runs beside others that agree: before it opens the file
  anything, and then right up to its place and nowhere too long.
\<close>

definition filling :: "string \<Rightarrow> bytes \<Rightarrow> nat \<Rightarrow> Server \<Rightarrow> bool" where
  "filling n X k s \<longleftrightarrow> k < length (Downloads s) \<and> (\<forall>j < length (Downloads s). j \<noteq> k \<longrightarrow> concurs n X (Downloads s ! j)) \<and>
     (let d = Downloads s ! k in DlName d = n \<and> delivers X d \<and> (DlPhase d = Opening \<and> DlOffset d = 0 \<or>
        (DlPhase d = Writing \<or> DlPhase d = Ended True \<and> DlOffset d = length X) \<and>
        (\<exists>c. map_of (LocalDirectory s) n = Some c \<and> take (DlOffset d) c = take (DlOffset d) X \<and>
          DlOffset d \<le> length c \<and> length c \<le> length X)))"

lemma delivers_next:
  assumes "delivers X d" and "DlChunks d = b # bs"
  shows "delivers X (d\<lparr>DlChunks := bs, DlOffset := DlOffset d + length b\<rparr>)"
proof -
  have d: "drop (DlOffset d) X = b @ concat bs" "DlOffset d \<le> length X" using assms by (simp_all add: delivers_def)
  have "length (drop (DlOffset d) X) = length b + length (concat bs)" by (simp only: d(1) length_append)
  then have "DlOffset d + length b \<le> length X" using d(2) by simp
  moreover have "drop (length b) (drop (DlOffset d) X) = concat bs" by (simp only: d(1) append_eq_conv_conj) simp
  ultimately show ?thesis using assms(1) by (simp add: delivers_def add.commute)
qed

lemma concurs_unlinked: "concurs n X d \<Longrightarrow> DlPhase d = Writing \<Longrightarrow> concurs n X (d\<lparr>DlPhase := Unlinked\<rparr>)"
  by (auto simp: concurs_def delivers_def)

lemma unlink_nth: "j < length ds \<Longrightarrow> unlink dir ds ! j =
    (if DlPhase (ds ! j) = Writing \<and> map_of dir (DlName (ds ! j)) = None then (ds ! j)\<lparr>DlPhase := Unlinked\<rparr> else ds ! j)"
  by (simp add: unlink_def)

lemma concurs_set:
  assumes "j < length (Downloads s)" and "j \<noteq> i \<Longrightarrow> concurs n X (Downloads s ! j)" and "j = i \<Longrightarrow> concurs n X d"
  shows "concurs n X (Downloads (set_download i d dir bw s) ! j)"
proof -
  have "concurs n X ((Downloads s)[i := d] ! j)" using assms by (cases "j = i") simp_all
  then show ?thesis using assms(1) concurs_unlinked by (simp add: set_download_def unlink_nth)
qed

definition overwrites :: "string \<Rightarrow> bytes \<Rightarrow> directory \<Rightarrow> directory \<Rightarrow> bool" where
  "overwrites n X dir dir' \<longleftrightarrow> map_of dir' n = map_of dir n \<or>
     (\<exists>off b rest. drop off X = b @ rest \<and> off \<le> length X \<and>
        map_of dir' n = Some (write_at off b (case map_of dir n of None \<Rightarrow> [] | Some c \<Rightarrow> c)))"

lemma agreeing_step:
  assumes "disk_works os n" and "concurs n X (Downloads s ! i)" and "i < length (Downloads s)"
  shows "download_step os i s = s \<or> (\<exists>d' dir' bw'. download_step os i s = set_download i d' dir' bw' s \<and>
    concurs n X d' \<and> overwrites n X (LocalDirectory s) dir')"
proof -
  let ?d = "Downloads s ! i"
  have other: "concurs n X d'" "overwrites n X (LocalDirectory s) dir'"
    if "DlName ?d \<noteq> n" "DlName d' = DlName ?d" "map_of dir' n = map_of (LocalDirectory s) n" for d' dir'
    using that by (simp_all add: concurs_def overwrites_def)
  show ?thesis
  proof (cases "DlName ?d = n")
    case False
    have del: "map_of (Remove os (DlName ?d) dir) n = map_of dir n" for dir
      using False by (simp add: Remove_def delete_conv')
    have up: "map_of (AList.update (DlName ?d) c dir) n = map_of dir n" for c dir
      using False by (simp add: update_conv')
    show ?thesis
      unfolding download_step_def Let_def
      by (cases "DlPhase ?d"; cases "DlChunks ?d")
        (use False assms(3) in \<open>auto intro!: exI conjI other simp: del up\<close>)
  next
    case True
    then consider ok where "DlPhase ?d = Ended ok" | "DlPhase ?d \<noteq> Opening" "delivers X ?d"
      using assms(2) by (auto simp: concurs_def)
    then show ?thesis
    proof cases
      case 1
      then show ?thesis by (simp add: download_step_def Let_def)
    next
      case 2
      show ?thesis
      proof (cases "DlChunks ?d")
        case Nil
        then show ?thesis using 2 assms(1,3) True
          by (cases "DlPhase ?d") (auto simp: download_step_def Let_def delivers_def concurs_def overwrites_def intro!: exI)
      next
        case (Cons b bs)
        let ?e = "?d\<lparr>DlChunks := bs, DlOffset := DlOffset ?d + length b\<rparr>"
        have e: "concurs n X ?e" using delivers_next [OF 2(2) Cons] 2(1) by (simp add: concurs_def)
        have "drop (DlOffset ?d) X = b @ concat bs" "DlOffset ?d \<le> length X"
          using 2(2) Cons by (simp_all add: delivers_def)
        then have "overwrites n X dir (AList.update n (write_at (DlOffset ?d) b (case map_of dir n of None \<Rightarrow> [] | Some c \<Rightarrow> c)) dir)" for dir
          unfolding overwrites_def by (auto simp: update_conv')
        then show ?thesis using 2(1) assms(1,3) True Cons e
          by (cases "DlPhase ?d") (auto simp: download_step_def Let_def disk_works_def intro!: exI, auto simp: overwrites_def)
      qed
    qed
  qed
qed

lemma set_download_simps [simp]:
  "LocalDirectory (set_download i d dir bw s) = dir" "length (Downloads (set_download i d dir bw s)) = length (Downloads s)"
  by (simp_all add: set_download_def)

text \<open>The file is there, and whatever still runs does not change it.\<close>

definition settled :: "string \<Rightarrow> bytes \<Rightarrow> Server \<Rightarrow> bool" where
  "settled n X s \<longleftrightarrow> map_of (LocalDirectory s) n = Some X \<and> (\<forall>d \<in> set (Downloads s). concurs n X d)"

lemma settled_step:
  assumes "disk_works os n" and "settled n X s"
  shows "settled n X (download_step os i s)"
proof (cases "i < length (Downloads s)")
  case True
  then have d: "concurs n X (Downloads s ! i)" using assms(2) by (simp add: settled_def)
  from agreeing_step [OF assms(1) d True] show ?thesis
  proof (elim disjE exE conjE)
    fix d' dir' bw'
    assume step: "download_step os i s = set_download i d' dir' bw' s" and d': "concurs n X d'"
      and dir': "overwrites n X (LocalDirectory s) dir'"
    have X: "map_of (LocalDirectory s) n = Some X" and all: "\<And>j. j < length (Downloads s) \<Longrightarrow> concurs n X (Downloads s ! j)"
      using assms(2) by (simp_all add: settled_def)
    have same: "write_at off b X = X" if "drop off X = b @ rest" "off \<le> length X" for off b rest
      using write_part(1,3) [OF refl order.refl order.refl that] by simp
    have "map_of dir' n = Some X"
      using dir' unfolding overwrites_def X option.case by (elim disjE exE conjE) (simp_all add: X same)
    moreover have "concurs n X d" if dd: "d \<in> set (Downloads (set_download i d' dir' bw' s))" for d
    proof -
      obtain j where "j < length (Downloads s)" "Downloads (set_download i d' dir' bw' s) ! j = d"
        using dd unfolding in_set_conv_nth set_download_simps by blast
      then show ?thesis using concurs_set [of j s i n X d' dir' bw'] d' all by blast
    qed
    ultimately show ?thesis unfolding step settled_def by (simp add: set_download_simps(1))
  qed (use assms(2) in simp)
qed (use assms(2) in \<open>simp add: download_step_def\<close>)

lemma settled_steps: "disk_works os n \<Longrightarrow> settled n X s \<Longrightarrow> settled n X (fold (download_step os) is s)"
  by (induction "is" arbitrary: s) (simp_all add: settled_step)

text \<open>The steps that a download still needs.\<close>

definition steps_left :: "Download \<Rightarrow> nat" where
  "steps_left d = (case DlPhase d of Opening \<Rightarrow> length (DlChunks d) + 2 | Ended _ \<Rightarrow> 0 | _ \<Rightarrow> length (DlChunks d) + 1)"

lemma filling_own_step:
  assumes "disk_works os n" and "filling n X k s"
  shows "filling n X k (download_step os k s)"
    and "steps_left (Downloads (download_step os k s) ! k) = steps_left (Downloads s ! k) - 1"
    and "DlPhase (Downloads (download_step os k s) ! k) \<noteq> Opening"
proof -
  let ?d = "Downloads s ! k"
  have k: "k < length (Downloads s)" and n: "DlName ?d = n" and del: "delivers X ?d"
    and others: "\<And>j. j < length (Downloads s) \<Longrightarrow> j \<noteq> k \<Longrightarrow> concurs n X (Downloads s ! j)"
    using assms(2) by (simp_all add: filling_def Let_def)
  have set: "filling n X k (set_download k d' dir' bw' s) \<and> Downloads (set_download k d' dir' bw' s) ! k = d'"
    if "DlName d' = n" "delivers X d'" "DlPhase d' = Writing \<or> DlPhase d' = Ended True \<and> DlOffset d' = length X"
      "map_of dir' n = Some c" "take (DlOffset d') c = take (DlOffset d') X" "DlOffset d' \<le> length c" "length c \<le> length X"
    for d' dir' bw' c
  proof -
    have d: "Downloads (set_download k d' dir' bw' s) ! k = d'"
      using k that(1,4) by (simp add: set_download_def unlink_nth)
    have "concurs n X (Downloads (set_download k d' dir' bw' s) ! j)" if "j < length (Downloads s)" "j \<noteq> k" for j
      using that others by (intro concurs_set) simp_all
    moreover have "length (Downloads (set_download k d' dir' bw' s)) = length (Downloads s)"
      "map_of (LocalDirectory (set_download k d' dir' bw' s)) n = Some c" using that(4) by (simp_all add: set_download_def)
    ultimately show ?thesis using that k unfolding filling_def Let_def d by auto
  qed
  have state: "DlPhase ?d = Opening \<and> DlOffset ?d = 0 \<or>
        (DlPhase ?d = Writing \<or> DlPhase ?d = Ended True \<and> DlOffset ?d = length X) \<and>
        (\<exists>c. map_of (LocalDirectory s) n = Some c \<and> take (DlOffset ?d) c = take (DlOffset ?d) X \<and>
          DlOffset ?d \<le> length c \<and> length c \<le> length X)"
    using assms(2) by (simp add: filling_def Let_def)
  have "filling n X k (download_step os k s) \<and>
    steps_left (Downloads (download_step os k s) ! k) = steps_left ?d - 1 \<and>
    DlPhase (Downloads (download_step os k s) ! k) \<noteq> Opening"
  proof (cases "DlPhase ?d")
    case Opening
    then have "download_step os k s = set_download k (?d\<lparr>DlPhase := Writing\<rparr>) (AList.update n [] (LocalDirectory s)) (Bandwidth s) s"
      using k n assms(1) by (simp add: download_step_def Let_def disk_works_def)
    then show ?thesis
      using set [of "?d\<lparr>DlPhase := Writing\<rparr>" "AList.update n [] (LocalDirectory s)" "[]"] n del state Opening
      by (simp add: delivers_def update_conv' steps_left_def)
  next
    case Writing
    then obtain c where c: "map_of (LocalDirectory s) n = Some c" "take (DlOffset ?d) c = take (DlOffset ?d) X"
      "DlOffset ?d \<le> length c" "length c \<le> length X" using state by auto
    show ?thesis
    proof (cases "DlChunks ?d")
      case Nil
      then have off: "DlOffset ?d = length X" "\<not> DlFails ?d" using del by (simp_all add: delivers_def)
      then have "download_step os k s = set_download k (?d\<lparr>DlPhase := Ended True\<rparr>) (LocalDirectory s) (Bandwidth s) s"
        using k Nil Writing by (simp add: download_step_def Let_def)
      then show ?thesis using set [of "?d\<lparr>DlPhase := Ended True\<rparr>" "LocalDirectory s" c] n del c off Nil Writing
        by (simp add: delivers_def steps_left_def)
    next
      case (Cons b bs)
      let ?e = "?d\<lparr>DlChunks := bs, DlOffset := DlOffset ?d + length b\<rparr>"
      let ?dir = "AList.update n (write_at (DlOffset ?d) b c) (LocalDirectory s)"
      have "drop (DlOffset ?d) X = b @ concat bs" using del Cons by (simp add: delivers_def)
      note w = write_next [OF c(2-4) this]
      have "download_step os k s = set_download k ?e ?dir (AddReceived (chunk_bytes b) (Bandwidth s)) s"
        using k n Cons Writing c(1) assms(1) by (simp add: download_step_def Let_def disk_works_def)
      then show ?thesis
        using set [of ?e ?dir "write_at (DlOffset ?d) b c"] n delivers_next [OF del Cons] w Writing Cons
        by (simp add: update_conv' steps_left_def)
    qed
  next
    case (Ended ok)
    then show ?thesis using assms(2) by (simp add: download_step_def Let_def steps_left_def)
  qed (use state in simp)
  then show "filling n X k (download_step os k s)"
    and "steps_left (Downloads (download_step os k s) ! k) = steps_left (Downloads s ! k) - 1"
    and "DlPhase (Downloads (download_step os k s) ! k) \<noteq> Opening" by blast+
qed

lemma filling_other_step:
  assumes "disk_works os n" and f: "filling n X k s" and "i \<noteq> k"
  shows "filling n X k (download_step os i s)" and "Downloads (download_step os i s) ! k = Downloads s ! k"
proof -
  let ?d = "Downloads s ! k"
  have "filling n X k (download_step os i s) \<and> Downloads (download_step os i s) ! k = ?d"
  proof (cases "i < length (Downloads s)")
    case True
    have k: "k < length (Downloads s)" and others: "\<And>j. j < length (Downloads s) \<Longrightarrow> j \<noteq> k \<Longrightarrow> concurs n X (Downloads s ! j)"
      using f by (simp_all add: filling_def Let_def)
    from agreeing_step [OF assms(1) others [OF True assms(3)] True] show ?thesis
    proof (elim disjE exE conjE)
      fix d' dir' bw'
      assume step: "download_step os i s = set_download i d' dir' bw' s" and d': "concurs n X d'"
        and dir': "overwrites n X (LocalDirectory s) dir'"
      have c': "\<exists>c'. map_of dir' n = Some c' \<and> take p c' = take p X \<and> p \<le> length c' \<and> length c' \<le> length X"
        if c: "map_of (LocalDirectory s) n = Some c" "take p c = take p X" "p \<le> length c" "length c \<le> length X" for p c
        using dir' c write_part [OF c(2-4)] unfolding overwrites_def by auto
      have named: "DlName ?d = n" "DlPhase ?d = Writing \<Longrightarrow> map_of dir' n \<noteq> None"
        using f c' by (simp add: filling_def Let_def) (use f c' in \<open>fastforce simp: filling_def Let_def\<close>)
      have d: "Downloads (set_download i d' dir' bw' s) ! k = ?d"
        using k assms(3) named by (auto simp: set_download_def unlink_nth)
      have "concurs n X (Downloads (set_download i d' dir' bw' s) ! j)" if "j < length (Downloads s)" "j \<noteq> k" for j
        using that others d' by (intro concurs_set) simp_all
      moreover have "length (Downloads (set_download i d' dir' bw' s)) = length (Downloads s)"
        "LocalDirectory (set_download i d' dir' bw' s) = dir'" by (simp_all add: set_download_def)
      ultimately show ?thesis using f c' unfolding step filling_def Let_def d by auto
    qed (use f in simp)
  qed (use f in \<open>simp add: download_step_def\<close>)
  then show "filling n X k (download_step os i s)" and "Downloads (download_step os i s) ! k = Downloads s ! k" by blast+
qed

lemma filling_ended:
  assumes "filling n X k s" and "DlPhase (Downloads s ! k) = Ended ok"
  shows "ok \<and> settled n X s"
proof -
  have "concurs n X d" if dd: "d \<in> set (Downloads s)" for d
  proof -
    obtain j where "j < length (Downloads s)" "Downloads s ! j = d" using dd unfolding in_set_conv_nth by blast
    then show ?thesis using assms by (cases "j = k") (auto simp: filling_def concurs_def)
  qed
  then show ?thesis using assms by (auto simp: filling_def settled_def Let_def)
qed

text \<open>
  A download beside others that agree: under any schedule it does not fail, when it has ended the file is
  right, and it ends when it gets its steps.
\<close>

lemma run_until_agrees:
  assumes "disk_works os n" and "filling n X k s" and "run_until os k sched s = (r, s')" and "DlPhase (Downloads s ! k) \<noteq> Ended True"
  shows "case r of None \<Rightarrow> filling n X k s' \<and> (DlPhase (Downloads s ! k) \<noteq> Opening \<or> k \<in> set sched \<longrightarrow> DlPhase (Downloads s' ! k) \<noteq> Opening) \<and>
      count_list sched k < steps_left (Downloads s ! k) \<and> DlPhase (Downloads s' ! k) \<noteq> Ended True
    | Some ok \<Rightarrow> ok \<and> settled n X s'"
  using assms
proof (induction sched arbitrary: s)
  case Nil
  have "DlPhase (Downloads s ! k) \<noteq> Ended False" using Nil.prems(2) by (auto simp: filling_def Let_def)
  then have "0 < steps_left (Downloads s ! k)" using Nil.prems(4)
    by (cases "DlPhase (Downloads s ! k)") (auto simp: steps_left_def)
  then show ?case using Nil by auto
next
  case (Cons i sched)
  let ?s1 = "download_step os i s"
  have s1: "filling n X k ?s1"
    using filling_own_step(1) [OF Cons.prems(1,2)] filling_other_step(1) [OF Cons.prems(1,2)] by (cases "i = k") simp_all
  have left: "steps_left (Downloads ?s1 ! k) = steps_left (Downloads s ! k) - (if i = k then 1 else 0)"
    using filling_own_step(2) [OF Cons.prems(1,2)] filling_other_step(2) [OF Cons.prems(1,2)] by simp
  show ?case
  proof (cases "\<exists>ok. DlPhase (Downloads ?s1 ! k) = Ended ok")
    case True
    then obtain ok where ok: "DlPhase (Downloads ?s1 ! k) = Ended ok" by blast
    then have "r = Some ok" "s' = ?s1" using Cons.prems(3) by (simp_all add: Let_def)
    then show ?thesis using filling_ended [OF s1 ok] by simp
  next
    case False
    then have run: "run_until os k sched ?s1 = (r, s')" using Cons.prems(3)
      by (cases "DlPhase (Downloads ?s1 ! k)") (simp_all add: Let_def)
    have "DlPhase (Downloads ?s1 ! k) \<noteq> Opening" if "DlPhase (Downloads s ! k) \<noteq> Opening \<or> i = k"
      using that filling_own_step(3) [OF Cons.prems(1,2)] filling_other_step(2) [OF Cons.prems(1,2), of i] by (cases "i = k") auto
    moreover have "DlPhase (Downloads ?s1 ! k) \<noteq> Ended True" using False by blast
    note IH = Cons.IH [OF Cons.prems(1) s1 run this]
    ultimately show ?thesis
    proof (cases r)
      case None
      have "count_list (i # sched) k < steps_left (Downloads s ! k)"
      proof -
        have "count_list sched k < steps_left (Downloads ?s1 ! k)" using IH unfolding None option.case by blast
        then show ?thesis using left by (auto split: if_splits)
      qed
      then show ?thesis using IH \<open>_ \<Longrightarrow> DlPhase (Downloads ?s1 ! k) \<noteq> Opening\<close> unfolding None option.case by auto
    next
      case (Some ok)
      then show ?thesis using IH by simp
    qed
  qed
qed

section \<open>A download that fails later\<close>

definition still_running :: "Download \<Rightarrow> bool" where
  "still_running d \<longleftrightarrow> (case DlPhase d of Ended ok \<Rightarrow> False | _ \<Rightarrow> True)"

lemma still_running_unlink [simp]:
  "still_running (d\<lparr>DlPhase := Unlinked\<rparr>)" "DlPhase d = Writing \<Longrightarrow> steps_left (d\<lparr>DlPhase := Unlinked\<rparr>) = steps_left d"
  by (simp_all add: still_running_def steps_left_def)

lemma own_download:
  assumes "i < length (Downloads s)"
  shows "Downloads (set_download i d dir bw s) ! i =
    (if DlPhase d = Writing \<and> map_of dir (DlName d) = None then d\<lparr>DlPhase := Unlinked\<rparr> else d)"
  using assms by (simp add: set_download_def unlink_nth)

text \<open>Each step of a failing download brings it closer to removing its file.\<close>

lemma failing_step:
  assumes i: "i < length (Downloads s)" and d: "still_running (Downloads s ! i)" "DlFails (Downloads s ! i)" "DlName (Downloads s ! i) = n"
    and os: "\<not> MkdirFails os" "\<not> OpenFails os n" "\<not> RemoveFails os n"
  shows "let s' = download_step os i s; d' = Downloads s' ! i in
    \<not> still_running d' \<and> map_of (LocalDirectory s') n = None \<or>
    still_running d' \<and> DlFails d' \<and> DlName d' = n \<and> steps_left d' = steps_left (Downloads s ! i) - 1 \<and> 1 < steps_left (Downloads s ! i)"
proof -
  have rm: "map_of (Remove os n dir) n = None" for dir using os(3) by (simp add: Remove_def delete_conv')
  show ?thesis
  proof (cases "DlPhase (Downloads s ! i)")
    case Opening
    then show ?thesis using i d os
      by (simp add: download_step_def Let_def own_download update_conv' still_running_def steps_left_def)
  next
    case (Ended ok)
    then show ?thesis using d(1) by (simp add: still_running_def)
  next
    case Writing
    then show ?thesis using i d
      by (cases "DlChunks (Downloads s ! i)"; cases "WriteFails os n")
        (simp_all add: download_step_def Let_def own_download rm still_running_def steps_left_def)
  next
    case Unlinked
    then show ?thesis using i d
      by (cases "DlChunks (Downloads s ! i)"; cases "WriteFails os n")
        (simp_all add: download_step_def Let_def own_download rm still_running_def steps_left_def)
  qed
qed

lemma ended_step: "\<not> still_running (Downloads s ! i) \<Longrightarrow> download_step os i s = s"
  by (simp add: still_running_def download_step_def Let_def split: download_phase.splits)

lemma failing_steps:
  assumes "i < length (Downloads s)" and "DlFails (Downloads s ! i)" "DlName (Downloads s ! i) = n" "still_running (Downloads s ! i)"
    and os: "\<not> MkdirFails os" "\<not> OpenFails os n" "\<not> RemoveFails os n"
  shows "map_of (LocalDirectory (fold (download_step os) (replicate (steps_left (Downloads s ! i)) i) s)) n = None"
  using assms(1-4)
proof (induction "steps_left (Downloads s ! i)" arbitrary: s)
  case 0
  then show ?case by (cases "DlPhase (Downloads s ! i)") (auto simp: steps_left_def still_running_def)
next
  case (Suc m)
  let ?s = "download_step os i s"
  have len: "i < length (Downloads ?s)" using Suc.prems(1) moves_step [of s os i] by (auto simp: moves_def)
  consider "\<not> still_running (Downloads ?s ! i)" "map_of (LocalDirectory ?s) n = None"
    | "still_running (Downloads ?s ! i)" "DlFails (Downloads ?s ! i)" "DlName (Downloads ?s ! i) = n" "steps_left (Downloads ?s ! i) = m"
    using failing_step [OF Suc.prems(1,4,2,3) os] Suc.hyps(2) by (auto simp: Let_def)
  then have "map_of (LocalDirectory (fold (download_step os) (replicate m i) ?s)) n = None"
  proof cases
    case 1
    have "fold (download_step os) (replicate j i) ?s = ?s" for j by (induction j) (simp_all add: ended_step [OF 1(1)])
    then show ?thesis using 1(2) by simp
  next
    case 2
    then show ?thesis using Suc.hyps(1) [of ?s] len by simp
  qed
  then show ?case using Suc.hyps(2) [symmetric] by simp
qed

end
