(* ===== verification/Cluster.thy ===== *)
theory Cluster
  imports Rpc_Server Downloads Ring
begin

text \<open>
  Several nodes and the network between them: the calls of \<^verbatim>\<open>src/rpc_client.go\<close>
  and of \<^verbatim>\<open>src/grpc_client.go\<close>, and the stabilization and garbage collection of
  \<^verbatim>\<open>src/ring.go\<close> that are made of them. A handler runs to its end before the next one
  starts. The network is a list of outcomes, one for each call in turn; when it is used up, calls
  succeed. A goroutine that panics takes its process down, and the node disappears.
\<close>

section \<open>Nodes and calls\<close>

text \<open>
  \<open>Unreachable\<close>: the request is lost. \<open>Broken n\<close>: a stream breaks off after \<open>n\<close> messages.
  \<open>Late\<close>: the handler runs, but its answer comes after the deadline, or cannot be read.
  \<open>Slow broken sched\<close>: a stream that takes its time; it may break off after \<open>broken\<close> messages. For a download
  of \<^verbatim>\<open>handleGet\<close>, \<open>sched\<close> names the downloads of the node that move, one step each, until
  this one ends or its time is up. A call that never returns is not among the outcomes, but for such a
  download: it stays where its last step has left it.
\<close>

datatype link = Unreachable | Broken nat | Late | Slow "nat option" "nat list" | Up

record Cluster =
  Nodes :: "Server go_map"
  Network :: "link list"
  Os :: "string \<Rightarrow> os_faults"
  Ord :: "string list \<Rightarrow> string list"

text \<open>\<open>Ord\<close> is the order in which the runtime ranges over a map with the given keys.\<close>

definition next_link :: "Cluster \<Rightarrow> link \<times> Cluster" where
  "next_link c = (case Network c of [] \<Rightarrow> (Up, c) | l # ls \<Rightarrow> (l, c\<lparr>Network := ls\<rparr>))"

definition node :: "string \<Rightarrow> Cluster \<Rightarrow> Server option" where
  "node addr c = map_of (Nodes c) addr"

definition put_node :: "string \<Rightarrow> Server \<Rightarrow> Cluster \<Rightarrow> Cluster" where
  "put_node addr s c = c\<lparr>Nodes := AList.update addr s (Nodes c)\<rparr>"

definition crash :: "string \<Rightarrow> Cluster \<Rightarrow> Cluster" where
  "crash addr c = c\<lparr>Nodes := AList.delete addr (Nodes c)\<rparr>"

text \<open>
  \<^verbatim>\<open>makeRPCCall\<close>: \<open>None\<close> is an error. A request or an answer beyond the 4096 bytes of
  the receiver's buffer does not parse, which is the same to the caller as \<open>Unreachable\<close> or \<open>Late\<close>.
\<close>

definition makeRPCCall :: "string \<Rightarrow> (Server \<Rightarrow> 'r \<times> Server) \<Rightarrow> Cluster \<Rightarrow> 'r option \<times> Cluster" where
  "makeRPCCall address handler c =
     (case next_link c of
        (l, c1) \<Rightarrow>
          (case node address c1 of
             None \<Rightarrow> (None, c1)
           | Some s \<Rightarrow>
               if l = Unreachable then (None, c1)
               else case handler s of
                   (r, s') \<Rightarrow> (if l = Up then Some r else None, put_node address s' c1)))"

definition callGetFileMetadata :: "string \<Rightarrow> string \<Rightarrow> Cluster \<Rightarrow> (bool \<times> FileMetadata go_map) option \<times> Cluster" where
  "callGetFileMetadata address filename = makeRPCCall address (\<lambda>s. (GetFileMetadata filename s, s))"

definition GetKeysMetadata :: "string \<Rightarrow> int \<Rightarrow> int \<Rightarrow> Cluster \<Rightarrow> FileMetadata go_map option \<times> Cluster" where
  "GetKeysMetadata address startRange endRange c =
     makeRPCCall address (\<lambda>s. (GetFilesMetadata (Ord c) startRange endRange s, s)) c"

definition CallUpdateAppendOrder :: "string \<Rightarrow> string \<Rightarrow> AppendInfo list \<Rightarrow> Cluster \<Rightarrow> bool option \<times> Cluster" where
  "CallUpdateAppendOrder address filename newAppends = makeRPCCall address (UpdateAppendOrder filename newAppends)"

definition fetchMetadataFromNode :: "Member \<Rightarrow> int \<Rightarrow> int \<Rightarrow> Cluster \<Rightarrow> FileMetadata go_map \<times> Cluster" where
  "fetchMetadataFromNode m startRange endRange c =
     (case GetKeysMetadata (Address m) startRange endRange c of
        (None, c1) \<Rightarrow> ([], c1)
      | (Some files, c1) \<Rightarrow> (files, c1))"

section \<open>Streams between nodes\<close>

text \<open>
  The listening address that \<^verbatim>\<open>StartHyDFSGRPCServer\<close> derives; callers derive theirs with
  \<open>convertToGRPCAddress\<close>. Both add 1000 to the port, so a stream to a node is named by its address.
\<close>

definition grpc_listen_address :: "string \<Rightarrow> string option" where
  "grpc_listen_address addr =
     (case split_on (CHR '':'') addr of
        [host, portStr] \<Rightarrow>
          (case atoi portStr of None \<Rightarrow> None | Some port \<Rightarrow> Some (host @ '':'' @ itoa (port + 1000)))
      | _ \<Rightarrow> None)"

lemma grpc_addresses_agree: "grpc_listen_address addr = Some g \<Longrightarrow> convertToGRPCAddress addr = g"
  by (auto simp: grpc_listen_address_def convertToGRPCAddress_def split: list.splits option.splits)

definition add_sent :: "string \<Rightarrow> bytes list \<Rightarrow> Cluster \<Rightarrow> Cluster" where
  "add_sent addr datas c =
     (case node addr c of
        None \<Rightarrow> c
      | Some s \<Rightarrow> put_node addr
          (s\<lparr>Bandwidth := fold (\<lambda>d. AddSent (chunk_bytes d)) datas (Bandwidth s)\<rparr>) c)"

text \<open>
  \<^verbatim>\<open>SendFileToNode\<close> from node \<open>self\<close>; the result tells whether it returned no error. A
  sender that has crashed sends nothing.
\<close>

definition SendFileToNode :: "string \<Rightarrow> string \<Rightarrow> bytes \<Rightarrow> FileMetadata \<Rightarrow> Cluster \<Rightarrow> bool \<times> Cluster" where
  "SendFileToNode self targetAddr data metadata c =
     (case next_link c of
        (l, c1) \<Rightarrow>
          if node self c1 = None \<or> node targetAddr c1 = None \<or> l = Unreachable then (False, c1)
          else
            let all = file_chunks data metadata;
                chunks = (case l of Broken n \<Rightarrow> take n all | _ \<Rightarrow> all);
                broken = (case l of Broken n \<Rightarrow> True | _ \<Rightarrow> False);
                c2 = add_sent self (map Data chunks) c1
            in case node targetAddr c2 of
                None \<Rightarrow> (False, c2)
              | Some t \<Rightarrow>
                  (case FileTransfer (Os c targetAddr) chunks broken t of
                     Inl _ \<Rightarrow> (False, crash targetAddr c2)
                   | Inr (status, t') \<Rightarrow> (l = Up \<and> status = UploadOk, put_node targetAddr t' c2)))"

definition SendAppendToNode :: "string \<Rightarrow> string \<Rightarrow> bytes \<Rightarrow> AppendInfo \<Rightarrow> Cluster \<Rightarrow> bool \<times> Cluster" where
  "SendAppendToNode self targetAddr data appendInfo c =
     (case next_link c of
        (l, c1) \<Rightarrow>
          if node self c1 = None \<or> node targetAddr c1 = None \<or> l = Unreachable then (False, c1)
          else
            let all = append_chunks data appendInfo;
                chunks = (case l of Broken n \<Rightarrow> take n all | _ \<Rightarrow> all);
                broken = (case l of Broken n \<Rightarrow> True | _ \<Rightarrow> False);
                c2 = add_sent self (map AppendData chunks) c1
            in case node targetAddr c2 of
                None \<Rightarrow> (False, c2)
              | Some t \<Rightarrow>
                  (case AppendTransfer (Os c targetAddr) chunks broken t of
                     (status, t') \<Rightarrow> (l = Up \<and> status = UploadOk, put_node targetAddr t' c2)))"

text \<open>
  What of the messages of a stream arrives, and whether an error ends it.
\<close>

definition arriving :: "link \<Rightarrow> FileChunk list \<Rightarrow> get_error option \<Rightarrow> FileChunk list \<times> bool" where
  "arriving l all e =
     (case l of
        Broken n \<Rightarrow> (take n all, True)
      | Slow (Some n) _ \<Rightarrow> (take n all, True)
      | _ \<Rightarrow> (all, e \<noteq> None))"

text \<open>
  \<^verbatim>\<open>ReceiveFileFromNode\<close> into the node's own directory (\<open>inStore\<close>) or the local one, from its
  start to its end with no other download moving. There is no deadline, however long it takes.
\<close>

definition ReceiveFileFromNode ::
    "string \<Rightarrow> string \<Rightarrow> string \<Rightarrow> bool \<Rightarrow> string \<Rightarrow> Cluster \<Rightarrow> bool \<times> Cluster" where
  "ReceiveFileFromNode self targetAddr hyDFSfilename inStore localPath c =
     (case next_link c of
        (l, c1) \<Rightarrow>
          if node self c1 = None \<or> node targetAddr c1 = None \<or> l = Unreachable then (False, c1)
          else
            case node targetAddr c1 of
              None \<Rightarrow> (False, c1)
            | Some t \<Rightarrow>
                (case HyDFS_GetFile (Os c targetAddr) hyDFSfilename t of
                   ((all, e), t') \<Rightarrow>
                     let c2 = put_node targetAddr t' c1
                     in case node self c2 of
                         None \<Rightarrow> (False, c2)
                       | Some s \<Rightarrow>
                           (case receive_file (Os c self) (Some (arriving l all e)) localPath
                                   (if inStore then FileDirectory s else LocalDirectory s) (Bandwidth s) of
                              (success, dir, bw) \<Rightarrow>
                                (success, put_node self
                                  ((if inStore then s\<lparr>FileDirectory := dir\<rparr>
                                    else s\<lparr>LocalDirectory := dir, Downloads := unlink dir (Downloads s)\<rparr>)
                                     \<lparr>Bandwidth := bw\<rparr>) c2))))"

section \<open>Pushing and pulling\<close>

text \<open>One file of \<^verbatim>\<open>pushFilesToSuccessors\<close>: the file if missing or different, then its appends.\<close>

definition push_append ::
    "string \<Rightarrow> string \<Rightarrow> string list \<Rightarrow> AppendInfo \<Rightarrow> Cluster \<Rightarrow> Cluster" where
  "push_append self target remoteAppends app c =
     (if AppendID app \<in> set remoteAppends then c
      else case node self c of
          None \<Rightarrow> c
        | Some s \<Rightarrow>
            (case ReadFile (Os c self) (AppendID app) (FileDirectory s) of
               None \<Rightarrow> c
             | Some data \<Rightarrow> snd (SendAppendToNode self target data app c)))"

definition push_file ::
    "string \<Rightarrow> string \<Rightarrow> FileMetadata go_map \<Rightarrow> string \<Rightarrow> Cluster \<Rightarrow> Cluster" where
  "push_file self target succMeta filename c =
     (case node self c of
        None \<Rightarrow> c
      | Some s \<Rightarrow>
          (case GetFile (Meta s) filename of
             None \<Rightarrow> c
           | Some localMeta \<Rightarrow>
               let remote = map_of succMeta filename;
                   c1 = (if (case remote of None \<Rightarrow> True
                              | Some remoteMeta \<Rightarrow> FileContentHash localMeta \<noteq> FileContentHash remoteMeta)
                         then (case ReadFile (Os c self) filename (FileDirectory s) of
                                 None \<Rightarrow> c
                               | Some data \<Rightarrow> snd (SendFileToNode self target data localMeta c))
                         else c);
                   remoteAppends = (case remote of None \<Rightarrow> [] | Some remoteMeta \<Rightarrow> map AppendID (Appends remoteMeta))
               in fold (push_append self target remoteAppends) (Appends localMeta) c1))"

definition pushFilesToSuccessors ::
    "string \<Rightarrow> string list \<Rightarrow> Member list \<Rightarrow> int \<Rightarrow> int \<Rightarrow> Cluster \<Rightarrow> Cluster" where
  "pushFilesToSuccessors self myFiles successors startRange endRange c =
     fold (\<lambda>successor c.
         case fetchMetadataFromNode successor startRange endRange c of
           (succMeta, c1) \<Rightarrow> fold (push_file self (Address successor) succMeta) myFiles c1)
       successors c"

text \<open>
  One file of \<^verbatim>\<open>getFilesFromSuccessors\<close>. \<open>localMeta\<close> is read before a missing file is
  entered, so then it is the zero metadata.
\<close>

definition update_meta :: "string \<Rightarrow> (Metadata \<Rightarrow> Metadata) \<Rightarrow> Cluster \<Rightarrow> Cluster" where
  "update_meta self f c =
     (case node self c of None \<Rightarrow> c | Some s \<Rightarrow> put_node self (s\<lparr>Meta := f (Meta s)\<rparr>) c)"

definition pull_append ::
    "string \<Rightarrow> string \<Rightarrow> string \<Rightarrow> string list \<Rightarrow> AppendInfo \<Rightarrow> Cluster \<Rightarrow> Cluster" where
  "pull_append self target filename localAppends remoteAppend c =
     (if AppendID remoteAppend \<in> set localAppends then c
      else case ReceiveFileFromNode self target (AppendID remoteAppend) True (AppendID remoteAppend) c of
          (success, c1) \<Rightarrow>
            if success then update_meta self (\<lambda>m. snd (AppendToFile filename remoteAppend m)) c1 else c1)"

definition pull_file :: "string \<Rightarrow> string \<Rightarrow> FileMetadata go_map \<Rightarrow> string \<Rightarrow> Cluster \<Rightarrow> Cluster" where
  "pull_file self target succMeta remoteFilename c =
     (case (node self c, map_of succMeta remoteFilename) of
        (Some s, Some remoteMeta) \<Rightarrow>
          (case GetFile (Meta s) remoteFilename of
             None \<Rightarrow>
               (case ReceiveFileFromNode self target remoteFilename True remoteFilename c of
                  (False, c1) \<Rightarrow> c1
                | (True, c1) \<Rightarrow>
                    fold (pull_append self target remoteFilename []) (Appends remoteMeta)
                      (update_meta self (AddFile (remoteMeta\<lparr>Appends := []\<rparr>)) c1))
           | Some localMeta \<Rightarrow>
               fold (pull_append self target remoteFilename (map AppendID (Appends localMeta)))
                 (Appends remoteMeta) c)
      | _ \<Rightarrow> c)"

definition getFilesFromSuccessors :: "string \<Rightarrow> Member list \<Rightarrow> int \<Rightarrow> int \<Rightarrow> Cluster \<Rightarrow> Cluster" where
  "getFilesFromSuccessors self successors startRange endRange c =
     fold (\<lambda>successor c.
         case fetchMetadataFromNode successor startRange endRange c of
           (succMeta, c1) \<Rightarrow>
             fold (pull_file self (Address successor) succMeta) (Ord c (map_keys succMeta)) c1)
       successors c"

section \<open>Stabilization\<close>

text \<open>The files a stabilization pushes: the given one if it is in range, else all in range.\<close>

definition files_to_push :: "string \<Rightarrow> string list \<Rightarrow> string list" where
  "files_to_push filename allFiles =
     (if filename \<noteq> '''' then (if filename \<in> set allFiles then [filename] else allFiles) else allFiles)"

definition stabilizeRing :: "string \<Rightarrow> string \<Rightarrow> Cluster \<Rightarrow> Cluster" where
  "stabilizeRing self filename c =
     (case node self c of
        None \<Rightarrow> c
      | Some s \<Rightarrow>
          (case GetPrimaryKeyRange (GetAll (Members s)) (ServerID s) of
             Inl _ \<Rightarrow> crash self c
           | Inr None \<Rightarrow> c
           | Inr (Some (startRange, endRange)) \<Rightarrow>
               (case GetFilesWithinRange (Ord c) (Files (Meta s)) (Some (startRange, endRange)) of
                  Inl _ \<Rightarrow> crash self c
                | Inr allFiles \<Rightarrow>
                    (case GetSuccessors (GetAll (Members s)) (ServerID s) (ReplicationFactor (Config s)) of
                       Inl _ \<Rightarrow> crash self c
                     | Inr successors \<Rightarrow>
                         if successors = [] then c
                         else getFilesFromSuccessors self successors startRange endRange
                           (pushFilesToSuccessors self (files_to_push filename allFiles) successors
                              startRange endRange c)))))"

definition handleReplicationWindowChange :: "string \<Rightarrow> string \<Rightarrow> Cluster \<Rightarrow> Cluster" where
  "handleReplicationWindowChange self nodeID c =
     (case node self c of
        None \<Rightarrow> c
      | Some s \<Rightarrow>
          let members = GetAll (Members s); n = int (length members);
              changedIdx = GetNodeIndex members nodeID; myIdx = GetNodeIndex members (ServerID s)
          in if n = 0 \<or> changedIdx = - 1 \<or> myIdx = - 1 then c
             else if window_hit myIdx changedIdx n (ReplicationFactor (Config s))
             then stabilizeRing self '''' c else c)"

section \<open>Garbage collection\<close>

text \<open>
  One file of \<^verbatim>\<open>deleteFilesOutsideMyRange\<close>. Removals that fail are logged and ignored.
\<close>

definition collect_file :: "os_faults \<Rightarrow> int \<Rightarrow> int \<Rightarrow> string \<Rightarrow> Server \<Rightarrow> Server" where
  "collect_file os startRange endRange filename s =
     (case GetFile (Meta s) filename of
        None \<Rightarrow> s
      | Some fileMeta \<Rightarrow>
          if IsHashInRange (FileNameHash fileMeta) startRange endRange then s
          else s\<lparr>FileDirectory := fold (\<lambda>a. Remove os (AppendID a)) (Appends fileMeta)
                   (Remove os filename (FileDirectory s)),
                 Meta := snd (DeleteFile filename (Meta s))\<rparr>)"

definition deleteFilesOutsideMyRange ::
    "os_faults \<Rightarrow> (string list \<Rightarrow> string list) \<Rightarrow> Server \<Rightarrow> go_panic + Server" where
  "deleteFilesOutsideMyRange os ord s =
     (let members = GetAll (Members s)
      in if length members = 0 then Inr s
         else case GetAllKeyRange members (ServerID s) (ReplicationFactor (Config s)) of
             Inl e \<Rightarrow> Inl e
           | Inr None \<Rightarrow> Inr s
           | Inr (Some (startRange, endRange)) \<Rightarrow>
               Inr (fold (collect_file os startRange endRange) (ListFiles ord (Meta s)) s))"

end
