(* ===== verification/Operations.thy ===== *)
theory Operations
  imports Cluster
begin

text \<open>
  Models the client operations and the merge of \<^verbatim>\<open>src/hydfs_operations.go\<close>, the
  commands of \<^verbatim>\<open>src/cli.go\<close> and the dispatch of RPC requests in
  \<^verbatim>\<open>src/rpc_server.go\<close>. The goroutines of one operation, one for each target, run
  one after the other in an order \<open>sched\<close>, a permutation. Console output becomes the result of an
  operation where it says more than the state; the rest is dropped.
\<close>

section \<open>Writing\<close>

datatype outcome =
    NoTargets
  | NoLocalFile
  | Completed nat nat
  | Crashed

text \<open>Sends to the targets in turn; the number of those that succeeded.\<close>

fun send_all :: "(string \<Rightarrow> Cluster \<Rightarrow> bool \<times> Cluster) \<Rightarrow> string list \<Rightarrow> Cluster \<Rightarrow> nat \<times> Cluster" where
  "send_all send [] c = (0, c)"
| "send_all send (addr # addrs) c =
     (case send addr c of
        (ok, c1) \<Rightarrow>
          (case send_all send addrs c1 of
             (n, c2) \<Rightarrow> ((if ok then Suc n else n), c2)))"

definition file_hash :: "Server \<Rightarrow> string \<Rightarrow> int" where
  "file_hash s name = HashToMbits (HashBits (Config s)) name"

definition new_file :: "instant \<Rightarrow> Server \<Rightarrow> string \<Rightarrow> bytes \<Rightarrow> FileMetadata" where
  "new_file now s hyDFSfilename fileData =
     \<lparr>FileName = hyDFSfilename, FileContentHash = contentHash fileData,
      FileNameHash = file_hash s hyDFSfilename, CreationTime = itoa (Unix now), Appends = []\<rparr>"

definition handleCreate ::
    "string \<Rightarrow> (string list \<Rightarrow> string list) \<Rightarrow> instant \<Rightarrow> string \<Rightarrow> string \<Rightarrow> Cluster \<Rightarrow> outcome \<times> Cluster" where
  "handleCreate self sched now localFilename hyDFSfilename c =
     (case node self c of
        None \<Rightarrow> (Crashed, c)
      | Some s \<Rightarrow>
          (case findTargetNodes (GetAll (Members s)) (file_hash s hyDFSfilename) (ReplicationFactor (Config s)) of
             Inl _ \<Rightarrow> (Crashed, crash self c)
           | Inr targetMembers \<Rightarrow>
               if targetMembers = [] then (NoTargets, c)
               else case ReadFile (Os c self) (Base localFilename) (LocalDirectory s) of
                   None \<Rightarrow> (NoLocalFile, c)
                 | Some fileData \<Rightarrow>
                     (case send_all (\<lambda>addr. SendFileToNode self addr fileData (new_file now s hyDFSfilename fileData))
                             (sched (map Address targetMembers)) c of
                        (n, c1) \<Rightarrow> (Completed n (length targetMembers), c1))))"

definition new_append :: "instant \<Rightarrow> Server \<Rightarrow> string \<Rightarrow> bytes \<Rightarrow> AppendInfo" where
  "new_append now s hyDFSfilename fileData =
     (let clientTimestamp = itoa (Unix now)
      in \<lparr>AppFileName = hyDFSfilename,
          AppendID = hyDFSfilename @ ''_'' @ clientTimestamp @ ''_'' @ vm_name (Addr s),
          ClientID = ServerID s, ClientTimestamp = clientTimestamp,
          AppendHash = contentHash fileData, Size = int (length fileData)\<rparr>)"

definition handleAppend ::
    "string \<Rightarrow> (string list \<Rightarrow> string list) \<Rightarrow> instant \<Rightarrow> string \<Rightarrow> string \<Rightarrow> Cluster \<Rightarrow> outcome \<times> Cluster" where
  "handleAppend self sched now localFilename hyDFSfilename c =
     (case node self c of
        None \<Rightarrow> (Crashed, c)
      | Some s \<Rightarrow>
          (case findTargetNodes (GetAll (Members s)) (file_hash s hyDFSfilename) (ReplicationFactor (Config s)) of
             Inl _ \<Rightarrow> (Crashed, crash self c)
           | Inr targetMembers \<Rightarrow>
               if targetMembers = [] then (NoTargets, c)
               else case ReadFile (Os c self) (Base localFilename) (LocalDirectory s) of
                   None \<Rightarrow> (NoLocalFile, c)
                 | Some fileData \<Rightarrow>
                     (case send_all (\<lambda>addr. SendAppendToNode self addr fileData (new_append now s hyDFSfilename fileData))
                             (sched (map Address targetMembers)) c of
                        (n, c1) \<Rightarrow> (Completed n (length targetMembers), c1))))"

section \<open>Reading\<close>

text \<open>
  One attempt of \<^verbatim>\<open>handleGet\<close>: the goroutine of the download is started, and the result tells
  whether it has returned without error within \<^verbatim>\<open>ReadTimeout\<close>. When the time is up it runs on,
  beside the next attempts and whatever comes later (\<open>DownloadStep\<close> of \<open>System\<close>). A \<open>Late\<close> download is one that
  has not done its first step then. The numbers in \<open>sched\<close> count back from the new download.
\<close>

definition slow_download ::
    "string \<Rightarrow> string \<Rightarrow> string \<Rightarrow> string \<Rightarrow> link \<Rightarrow> nat list \<Rightarrow> Cluster \<Rightarrow> bool \<times> Cluster" where
  "slow_download self targetAddr hyDFSfilename localFilename l sched c =
     (if node self c = None then (False, c)
      else case node targetAddr c of
        None \<Rightarrow> (False, c)
      | Some t \<Rightarrow>
          (case HyDFS_GetFile (Os c targetAddr) hyDFSfilename t of
             ((all, e), t') \<Rightarrow>
               let c1 = put_node targetAddr t' c
               in case node self c1 of
                   None \<Rightarrow> (False, c1)
                 | Some s \<Rightarrow>
                     (case run_until (Os c self) (length (Downloads s)) (map ((-) (length (Downloads s))) sched)
                             (s\<lparr>Downloads := Downloads s @ [new_download localFilename (arriving l all e)]\<rparr>) of
                        (r, s') \<Rightarrow> (r = Some True, put_node self s' c1))))"

definition download_attempt :: "string \<Rightarrow> string \<Rightarrow> string \<Rightarrow> string \<Rightarrow> Cluster \<Rightarrow> bool \<times> Cluster" where
  "download_attempt self targetAddr hyDFSfilename localFilename c =
     (case next_link c of
        (Slow broken sched, c1) \<Rightarrow>
          slow_download self targetAddr hyDFSfilename localFilename (Slow broken sched) sched c1
      | (Late, c1) \<Rightarrow> slow_download self targetAddr hyDFSfilename localFilename Late [] c1
      | _ \<Rightarrow> ReceiveFileFromNode self targetAddr hyDFSfilename False localFilename c)"

text \<open>The targets are tried in turn until one download succeeds in time.\<close>

fun try_targets :: "string \<Rightarrow> string \<Rightarrow> string \<Rightarrow> string list \<Rightarrow> Cluster \<Rightarrow> string option \<times> Cluster" where
  "try_targets self hyDFSfilename localFilename [] c = (None, c)"
| "try_targets self hyDFSfilename localFilename (addr # addrs) c =
     (case download_attempt self addr hyDFSfilename localFilename c of
        (success, c1) \<Rightarrow>
          if success then (Some addr, c1)
          else try_targets self hyDFSfilename localFilename addrs c1)"

definition handleGet :: "string \<Rightarrow> string \<Rightarrow> string \<Rightarrow> Cluster \<Rightarrow> string option \<times> Cluster" where
  "handleGet self hyDFSfilename localFilename c =
     (case node self c of
        None \<Rightarrow> (None, c)
      | Some s \<Rightarrow>
          (case findTargetNodes (GetAll (Members s)) (file_hash s hyDFSfilename) (ReplicationFactor (Config s)) of
             Inl _ \<Rightarrow> (None, crash self c)
           | Inr targetMembers \<Rightarrow> try_targets self hyDFSfilename localFilename (map Address targetMembers) c))"

definition handleGetFromReplica :: "string \<Rightarrow> string \<Rightarrow> string \<Rightarrow> string \<Rightarrow> Cluster \<Rightarrow> bool \<times> Cluster" where
  "handleGetFromReplica self vmID hyDFSfilename localFilename c =
     (case map_of NodeMap vmID of
        None \<Rightarrow> (False, c)
      | Some vmAddress \<Rightarrow>
          ReceiveFileFromNode self vmAddress hyDFSfilename False localFilename c)"

text \<open>\<^verbatim>\<open>handleLS\<close>: the addresses it prints.\<close>

fun ls_targets :: "string \<Rightarrow> string list \<Rightarrow> Cluster \<Rightarrow> string list \<times> Cluster" where
  "ls_targets hyDFSfilename [] c = ([], c)"
| "ls_targets hyDFSfilename (addr # addrs) c =
     (case callGetFileMetadata addr hyDFSfilename c of
        (resp, c1) \<Rightarrow>
          (case ls_targets hyDFSfilename addrs c1 of
             (found, c2) \<Rightarrow>
               ((case resp of
                   None \<Rightarrow> found
                 | Some (success, files) \<Rightarrow>
                     if \<not> success \<or> map_of files hyDFSfilename = None then found else addr # found), c2)))"

definition handleLS :: "string \<Rightarrow> string \<Rightarrow> Cluster \<Rightarrow> string list \<times> Cluster" where
  "handleLS self hyDFSfilename c =
     (case node self c of
        None \<Rightarrow> ([], c)
      | Some s \<Rightarrow>
          (case findTargetNodes (GetAll (Members s)) (file_hash s hyDFSfilename) (ReplicationFactor (Config s)) of
             Inl _ \<Rightarrow> ([], crash self c)
           | Inr targetMembers \<Rightarrow> ls_targets hyDFSfilename (map Address targetMembers) c))"

text \<open>\<^verbatim>\<open>handleListStore\<close>: the names and hashes it prints.\<close>

definition handleListStore :: "(string list \<Rightarrow> string list) \<Rightarrow> Server \<Rightarrow> (string \<times> int) list" where
  "handleListStore ord s =
     concat (map (\<lambda>filename. case GetFile (Meta s) filename of
         None \<Rightarrow> []
       | Some fileMeta \<Rightarrow> [(filename, FileNameHash fileMeta)]) (ListFiles ord (Meta s)))"

section \<open>Merging\<close>

definition filesAndAppendsMatch :: "FileMetadata \<Rightarrow> FileMetadata \<Rightarrow> bool" where
  "filesAndAppendsMatch localMeta remoteMeta \<longleftrightarrow>
     FileContentHash localMeta = FileContentHash remoteMeta \<and>
     length (Appends localMeta) = length (Appends remoteMeta) \<and>
     (\<forall>app \<in> set (Appends remoteMeta). AppendID app \<in> AppendID ` set (Appends localMeta))"

fun ordersMatch :: "string list \<Rightarrow> AppendInfo list \<Rightarrow> bool" where
  "ordersMatch [] [] = True"
| "ordersMatch (i # is) (a # as) = (i = AppendID a \<and> ordersMatch is as)"
| "ordersMatch _ _ = False"

definition ensureRemoteFileInSync ::
    "string \<Rightarrow> Member \<Rightarrow> string \<Rightarrow> FileMetadata \<Rightarrow> Cluster \<Rightarrow> bool \<times> Cluster" where
  "ensureRemoteFileInSync self successor filename localMeta c =
     (case callGetFileMetadata (Address successor) filename c of
        (None, c1) \<Rightarrow> (False, c1)
      | (Some (_, files), c1) \<Rightarrow>
          (case map_of files filename of
             None \<Rightarrow> (False, stabilizeRing self filename c1)
           | Some remoteMeta \<Rightarrow>
               (True, if filesAndAppendsMatch localMeta remoteMeta then c1 else stabilizeRing self filename c1)))"

definition syncRemoteAppendOrder ::
    "Member \<Rightarrow> string \<Rightarrow> FileMetadata \<Rightarrow> string list \<Rightarrow> Cluster \<Rightarrow> Cluster" where
  "syncRemoteAppendOrder successor filename localMeta localAppendIDs c =
     (case callGetFileMetadata (Address successor) filename c of
        (None, c1) \<Rightarrow> c1
      | (Some (_, files), c1) \<Rightarrow>
          (case map_of files filename of
             None \<Rightarrow> c1
           | Some remoteMeta \<Rightarrow>
               if ordersMatch localAppendIDs (Appends remoteMeta) then c1
               else snd (CallUpdateAppendOrder (Address successor) filename (Appends localMeta) c1)))"

text \<open>A node that crashed on the way does nothing more.\<close>

definition merge_successor ::
    "string \<Rightarrow> string \<Rightarrow> FileMetadata \<Rightarrow> string list \<Rightarrow> Member \<Rightarrow> Cluster \<Rightarrow> Cluster" where
  "merge_successor self filename localMeta localAppendIDs successor c =
     (if node self c = None then c
      else case ensureRemoteFileInSync self successor filename localMeta c of
          (ok, c1) \<Rightarrow>
            if ok \<and> node self c1 \<noteq> None
            then syncRemoteAppendOrder successor filename localMeta localAppendIDs c1 else c1)"

definition executeMerge :: "string \<Rightarrow> string \<Rightarrow> Cluster \<Rightarrow> Cluster" where
  "executeMerge self hyDFSfilename c =
     (case node self c of
        None \<Rightarrow> c
      | Some s \<Rightarrow>
          (case GetSuccessors (GetAll (Members s)) (ServerID s) (ReplicationFactor (Config s)) of
             Inl _ \<Rightarrow> crash self c
           | Inr successors \<Rightarrow>
               if successors = [] then c
               else case GetFile (Meta s) hyDFSfilename of
                   None \<Rightarrow> c
                 | Some localMeta \<Rightarrow>
                     fold (merge_successor self hyDFSfilename localMeta (map AppendID (Appends localMeta)))
                       successors c))"

text \<open>On nil bounds the range test panics as soon as there is a file.\<close>

definition executeMergeForAllFiles :: "string \<Rightarrow> Cluster \<Rightarrow> Cluster" where
  "executeMergeForAllFiles self c =
     (case node self c of
        None \<Rightarrow> c
      | Some s \<Rightarrow>
          (case GetPrimaryKeyRange (GetAll (Members s)) (ServerID s) of
             Inl _ \<Rightarrow> crash self c
           | Inr bounds \<Rightarrow>
               (case GetFilesWithinRange (Ord c) (Files (Meta s)) bounds of
                  Inl _ \<Rightarrow> crash self c
                | Inr allFiles \<Rightarrow> fold (executeMerge self) allFiles c)))"

text \<open>The result tells whether the merge was run or accepted, \<open>None\<close> when nobody was asked.\<close>

definition handleMergeCommand :: "string \<Rightarrow> string \<Rightarrow> Cluster \<Rightarrow> bool option \<times> Cluster" where
  "handleMergeCommand self hyDFSfilename c =
     (case node self c of
        None \<Rightarrow> (None, c)
      | Some s \<Rightarrow>
          (case GetPrimaryKeyRange (GetAll (Members s)) (ServerID s) of
             Inl _ \<Rightarrow> (None, crash self c)
           | Inr None \<Rightarrow> (None, c)
           | Inr (Some (startRange, endRange)) \<Rightarrow>
               if IsHashInRange (file_hash s hyDFSfilename) startRange endRange
               then (Some True, executeMerge self hyDFSfilename c)
               else case findTargetNodes (GetAll (Members s)) (file_hash s hyDFSfilename)
                       (ReplicationFactor (Config s)) of
                   Inl _ \<Rightarrow> (None, crash self c)
                 | Inr [] \<Rightarrow> (None, c)
                 | Inr (primaryNode # _) \<Rightarrow>
                     (case next_link c of
                        (l, c1) \<Rightarrow>
                          if node (Address primaryNode) c1 = None \<or> l = Unreachable then (Some False, c1)
                          else (Some (l = Up), executeMerge (Address primaryNode) hyDFSfilename c1))))"

section \<open>Several appends\<close>

text \<open>\<^verbatim>\<open>CallMultiAppend\<close>: the other node runs \<open>handleAppend\<close> and always answers success.\<close>

definition CallMultiAppend ::
    "(string list \<Rightarrow> string list) \<Rightarrow> instant \<Rightarrow> string \<Rightarrow> string \<Rightarrow> string \<Rightarrow> Cluster \<Rightarrow> bool \<times> Cluster" where
  "CallMultiAppend sched now address hyDFSfilename localFilename c =
     (case next_link c of
        (l, c1) \<Rightarrow>
          if node address c1 = None \<or> l = Unreachable then (False, c1)
          else (l = Up, snd (handleAppend address sched now localFilename hyDFSfilename c1)))"

fun multi_append ::
    "(string list \<Rightarrow> string list) \<Rightarrow> instant \<Rightarrow> string \<Rightarrow> (string \<times> string) list \<Rightarrow> Cluster \<Rightarrow> nat \<times> Cluster" where
  "multi_append sched now hyDFSfilename [] c = (0, c)"
| "multi_append sched now hyDFSfilename ((vmName, localFile) # rest) c =
     (case map_of NodeMap vmName of
        None \<Rightarrow> multi_append sched now hyDFSfilename rest c
      | Some vmAddress \<Rightarrow>
          (case CallMultiAppend sched now vmAddress hyDFSfilename localFile c of
             (ok, c1) \<Rightarrow>
               (case multi_append sched now hyDFSfilename rest c1 of
                  (n, c2) \<Rightarrow> ((if ok then Suc n else n), c2))))"

text \<open>\<^verbatim>\<open>localFiles[i]\<close> panics if there are fewer files than names.\<close>

definition handleMultiAppend ::
    "string \<Rightarrow> (string list \<Rightarrow> string list) \<Rightarrow> instant \<Rightarrow> string \<Rightarrow> string list \<Rightarrow> string list \<Rightarrow> Cluster \<Rightarrow>
     nat \<times> Cluster" where
  "handleMultiAppend self sched now hyDFSfilename vmNames localFiles c =
     (if length localFiles < length vmNames then (0, crash self c)
      else multi_append sched now hyDFSfilename (zip vmNames localFiles) c)"

section \<open>Commands\<close>

definition parseMultiAppend :: "string list \<Rightarrow> string \<times> string list \<times> string list" where
  "parseMultiAppend args =
     (let bad = ('''', [], []) :: string \<times> string list \<times> string list;
          is_vm = (\<lambda>a. has_prefix (to_lower a) ''vm'')
      in if length args < 3 then bad
         else if is_vm (hd args) then bad
         else
           let vmNames = takeWhile is_vm (tl args); localFiles = dropWhile is_vm (tl args)
           in if localFiles = [] then bad
              else if length vmNames \<noteq> length localFiles then bad
              else if length vmNames = 0 then bad
              else (hd args, vmNames, localFiles))"

text \<open>
  \<^verbatim>\<open>handleSwitch\<close>: the switch is applied here and sent to every address of the list but
  the own one, dead members included; \<open>False\<close> when a name is not known.
\<close>

definition handleSwitch :: "string \<Rightarrow> string \<Rightarrow> string \<Rightarrow> Cluster \<Rightarrow> bool \<times> Cluster" where
  "handleSwitch self protocolStr suspicionStr c =
     (case (map_of ProtocolMap (to_lower protocolStr), map_of SuspicionMap (to_lower suspicionStr), node self c) of
        (Some protocol, Some suspicion, Some s) \<Rightarrow>
          let s1 = s\<lparr>Config := SwitchProtocol protocol suspicion (Config s)\<rparr>;
              snapshot = Snapshot (Members s1)
          in (True, fold (\<lambda>k c. case map_of snapshot k of
                 None \<Rightarrow> c
               | Some member \<Rightarrow>
                   if Address member \<noteq> Addr s1
                   then snd (makeRPCCall (Address member) (ProtocolSwitch protocol suspicion) c) else c)
               (Ord c (map_keys snapshot)) (put_node self s1 c))
      | _ \<Rightarrow> (False, c))"

datatype Command =
    ListSelf
  | Leave
  | DisplaySuspects
  | DisplayProtocol
  | Switch string string
  | DropRate string
  | Create string string
  | Get string string
  | AppendCmd string string
  | MergeCmd string
  | MultiAppendCmd "string list"
  | PrintMeta string
  | Ls string
  | ListStore
  | ListMemIds
  | GetFromReplica string string string
  | BadFormat string
  | UnknownCommand string
  | NoCommand

text \<open>The switch of \<^verbatim>\<open>handleCommand\<close>, as far as it depends on the words alone.\<close>

definition parse_command :: "string \<Rightarrow> Command" where
  "parse_command cmd =
     (case Fields cmd of
        [] \<Rightarrow> NoCommand
      | command # args \<Rightarrow>
          if command = ''list_self'' then ListSelf
          else if command = ''leave'' then Leave
          else if command = ''display_suspects'' then DisplaySuspects
          else if command = ''display_protocol'' then DisplayProtocol
          else if command = ''switch'' then
            (case args of [a, b] \<Rightarrow> Switch a b | _ \<Rightarrow> BadFormat command)
          else if command = ''drop'' then (case args of [a] \<Rightarrow> DropRate a | _ \<Rightarrow> BadFormat command)
          else if command = ''create'' then
            (case args of [a, b] \<Rightarrow> Create a b | _ \<Rightarrow> BadFormat command)
          else if command = ''get'' then (case args of [a, b] \<Rightarrow> Get a b | _ \<Rightarrow> BadFormat command)
          else if command = ''append'' then
            (case args of [a, b] \<Rightarrow> AppendCmd a b | _ \<Rightarrow> BadFormat command)
          else if command = ''merge'' then (case args of [a] \<Rightarrow> MergeCmd a | _ \<Rightarrow> BadFormat command)
          else if command = ''multiappend'' then
            (if length args < 3 then BadFormat command else MultiAppendCmd args)
          else if command = ''printmeta'' then (case args of [a] \<Rightarrow> PrintMeta a | _ \<Rightarrow> BadFormat command)
          else if command = ''ls'' then (case args of [a] \<Rightarrow> Ls a | _ \<Rightarrow> BadFormat command)
          else if command = ''liststore'' then ListStore
          else if command = ''list_mem_ids'' then ListMemIds
          else if command = ''getfromreplica'' then
            (case args of [a, b, d] \<Rightarrow> GetFromReplica a b d | _ \<Rightarrow> BadFormat command)
          else UnknownCommand command)"

definition update_node :: "string \<Rightarrow> (Server \<Rightarrow> Server) \<Rightarrow> Cluster \<Rightarrow> Cluster" where
  "update_node self f c = (case node self c of None \<Rightarrow> c | Some s \<Rightarrow> put_node self (f s) c)"

text \<open>
  The state after a command. \<open>parse_float\<close> stands for \<^verbatim>\<open>strconv.ParseFloat\<close>, \<open>None\<close> on
  an error.
\<close>

definition handleCommand ::
    "string \<Rightarrow> (string list \<Rightarrow> string list) \<Rightarrow> (string \<Rightarrow> float64 option) \<Rightarrow> instant \<Rightarrow> string \<Rightarrow> Cluster \<Rightarrow> Cluster" where
  "handleCommand self sched parse_float now cmd c =
     (case parse_command cmd of
        Leave \<Rightarrow> update_node self (leaveGroup now) c
      | Switch a b \<Rightarrow> snd (handleSwitch self a b c)
      | DropRate a \<Rightarrow> update_node self (\<lambda>s. s\<lparr>Config := SetMessageDropRate (parse_float a) (Config s)\<rparr>) c
      | Create a b \<Rightarrow> snd (handleCreate self sched now a b c)
      | Get a b \<Rightarrow> snd (handleGet self a b c)
      | AppendCmd a b \<Rightarrow> snd (handleAppend self sched now a b c)
      | MergeCmd a \<Rightarrow> snd (handleMergeCommand self a c)
      | MultiAppendCmd args \<Rightarrow>
          (case parseMultiAppend args of
             (f, vms, locals) \<Rightarrow> snd (handleMultiAppend self sched now f vms locals c))
      | Ls a \<Rightarrow> snd (handleLS self a c)
      | GetFromReplica a b d \<Rightarrow> snd (handleGetFromReplica self a b d c)
      | _ \<Rightarrow> c)"

end
