(* ===== verification/Gossip_Convergence.thy ===== *)
theory Gossip_Convergence
  imports Merge_Entries Examples
begin

text \<open>
  Gossip converges: what a node ends up knowing of another depends only on the set of lists it has
  received. A node is shown to be a replica that accumulates a maximum.
\<close>

section \<open>Convergence\<close>

text \<open>
  A replica that accumulates a maximum: each message moves its rank to the larger of its own and the
  message's. Then only the set of messages counts, not their order, nor how often one arrives.
\<close>

locale max_replica =
  fixes rank :: "'s \<Rightarrow> 'r::linorder" and weight :: "'x \<Rightarrow> 'r" and deliver :: "'x \<Rightarrow> 's \<Rightarrow> 's"
    and ok :: "'s \<Rightarrow> bool" and fit :: "'x \<Rightarrow> bool"
  assumes deliver_ok: "ok s \<Longrightarrow> fit x \<Longrightarrow> ok (deliver x s)"
    and deliver_rank: "ok s \<Longrightarrow> fit x \<Longrightarrow> rank (deliver x s) = max (rank s) (weight x)"
begin

lemma run_rank:
  "ok s \<Longrightarrow> \<forall>x \<in> set xs. fit x \<Longrightarrow>
    ok (fold deliver xs s) \<and> rank (fold deliver xs s) = Max (insert (rank s) (weight ` set xs))"
proof (induction xs arbitrary: s)
  case (Cons x xs)
  then have "ok (fold deliver xs (deliver x s)) \<and> rank (fold deliver xs (deliver x s)) =
      Max (insert (max (rank s) (weight x)) (weight ` set xs))"
    using deliver_ok deliver_rank by auto
  moreover have "Max (insert (max (rank s) (weight x)) (weight ` set xs)) =
      Max (insert (rank s) (insert (weight x) (weight ` set xs)))"
    by (cases "set xs = {}") (simp_all add: max.assoc)
  ultimately show ?case by simp
qed simp

lemma converge:
  assumes "ok s" "ok t" "rank s = rank t" "\<forall>x \<in> set xs. fit x" "\<forall>x \<in> set ys. fit x"
    and "insert (rank s) (weight ` set xs) = insert (rank t) (weight ` set ys)"
  shows "rank (fold deliver xs s) = rank (fold deliver ys t)"
  using assms run_rank by simp

end

text \<open>
  What a node knows of a member, ordered by how much it overrides: nothing, then a live entry by
  incarnation (only with suspicion), status and heartbeat, then a final entry.
\<close>

definition knowledge :: "SuspicionType \<Rightarrow> Member option \<Rightarrow> nat \<times> u64 \<times> nat \<times> u64" where
  "knowledge mode entry =
     (case entry of
        None \<Rightarrow> (0, 0, 0, 0)
      | Some m \<Rightarrow>
          if is_final m then (2, 0, 0, 0)
          else (1, if mode = Suspect then Incarnation m else 0, getStatusPriority (Status m), Heartbeat m))"

text \<open>A gossiped entry that says dead is ignored.\<close>

definition told :: "SuspicionType \<Rightarrow> string \<Rightarrow> Member list \<Rightarrow> nat \<times> u64 \<times> nat \<times> u64" where
  "told mode k rs = Max (insert (0, 0, 0, 0)
     (knowledge mode ` Some ` {r \<in> set rs. ID r = k \<and> Status r \<noteq> StatusDead}))"

definition named :: "Member \<Rightarrow> bool" where
  "named m \<longleftrightarrow> Status m \<in> {StatusAlive, StatusSuspect, StatusDead, StatusVoluntaryLeave}"

lemma knowledge_least: "(0, 0, 0, 0) \<le> knowledge mode e"
  by (cases e) (simp_all add: knowledge_def)

lemma knowledge_merge:
  assumes "named r" and "\<And>m. l = Some m \<Longrightarrow> named m" and "Status r \<noteq> StatusDead" and "ID r \<noteq> self"
    and "Protocol cfg = GossipProtocol" and "Suspicion cfg \<in> {Suspect, NoSuspect}"
  shows "knowledge (Suspicion cfg) (merge_entry cfg self inc sid now l r) =
    max (knowledge (Suspicion cfg) l) (knowledge (Suspicion cfg) (Some r))"
proof (cases l)
  case None
  then show ?thesis using assms by (auto simp: merge_entry_def knowledge_def is_final_def max_def)
next
  case (Some m)
  with assms show ?thesis
    by (auto simp: merge_entry_def knowledge_def named_def suspicion_winner_def nosuspicion_winner_def
        is_final_def less_Status_def max_def)
qed


lemma named_fields [simp]:
  "named (m\<lparr>LastUpdated := u\<rparr>) = named m" "named (m\<lparr>Incarnation := i\<rparr>) = named m"
  by (simp_all add: named_def)

lemma named_winner:
  assumes "named l" "named r"
  shows "named (suspicion_winner p sid now l r)" and "named (nosuspicion_winner p sid now l r)"
  using winner_cases [of p sid now l r] assms by auto

lemma named_merge_entry:
  "named r \<Longrightarrow> (\<And>m. l = Some m \<Longrightarrow> named m) \<Longrightarrow> merge_entry cfg self inc sid now l r = Some m \<Longrightarrow> named m"
  by (cases l) (auto simp: merge_entry_def named_winner split: if_splits)

text \<open>One received list.\<close>

definition deliver :: "(nat \<Rightarrow> instant) \<times> Member list \<times> string \<Rightarrow> Server \<Rightarrow> Server" where
  "deliver x s = (case x of (clk, rs, sid) \<Rightarrow> mergeMembership clk rs sid s)"

definition gossip_node :: "SuspicionType \<Rightarrow> string \<Rightarrow> Server \<Rightarrow> bool" where
  "gossip_node mode k s \<longleftrightarrow> wf_server s \<and> Protocol (Config s) = GossipProtocol \<and>
     Suspicion (Config s) = mode \<and> mode \<in> {Suspect, NoSuspect} \<and> ServerID s \<noteq> k \<and>
     (\<forall>m. find_member (Members s) k = Some m \<longrightarrow> named m)"

definition gossip_list :: "(nat \<Rightarrow> instant) \<times> Member list \<times> string \<Rightarrow> bool" where
  "gossip_list x \<longleftrightarrow> (case x of (clk, rs, sid) \<Rightarrow> distinct (map ID rs) \<and> (\<forall>r \<in> set rs. named r))"

lemma deliver_cases:
  assumes "gossip_node mode k s" and "gossip_list (clk, rs, sid)"
  obtains (silent) "find_member (Members (mergeMembership clk rs sid s)) k = find_member (Members s) k"
      "{r \<in> set rs. ID r = k \<and> Status r \<noteq> StatusDead} = {}"
  | (told) r now where "named r" "Status r \<noteq> StatusDead" "ID r = k"
      "{r \<in> set rs. ID r = k \<and> Status r \<noteq> StatusDead} = {r}"
      "find_member (Members (mergeMembership clk rs sid s)) k =
        merge_entry (Config s) (ServerID s) (IncarnationNumber s) sid now (find_member (Members s) k) r"
proof (cases "k \<in> ID ` set rs")
  case False
  with assms silent show ?thesis
    using mergeMembership_entries [of s rs clk sid] by (auto simp: gossip_node_def gossip_list_def)
next
  case True
  then obtain i where i: "i < length rs" "ID (rs ! i) = k" by (auto simp: in_set_conv_nth)
  have e: "find_member (Members (mergeMembership clk rs sid s)) k =
      merge_entry (Config s) (ServerID s) (IncarnationNumber s) sid (clk i) (find_member (Members s) k) (rs ! i)"
    using assms mergeMembership_entries [of s rs clk sid] i by (auto simp: gossip_node_def gossip_list_def)
  have u: "r = rs ! i" if "r \<in> set rs" "ID r = k" for r
    using that i assms(2) by (auto simp: gossip_list_def distinct_map inj_on_def)
  show ?thesis
  proof (cases "Status (rs ! i) = StatusDead")
    case True
    with e assms(1) u show ?thesis
      by (intro silent) (auto simp: merge_entry_def gossip_node_def)
  next
    case False
    with e i u assms(2) show ?thesis by (intro told [of "rs ! i" "clk i"]) (auto simp: gossip_list_def)
  qed
qed

interpretation gossip: max_replica "\<lambda>s. knowledge mode (find_member (Members s) k)"
  "\<lambda>x. case x of (clk, rs, sid) \<Rightarrow> told mode k rs" deliver "gossip_node mode k" gossip_list
  for mode k
proof
  fix s and x :: "(nat \<Rightarrow> instant) \<times> Member list \<times> string"
  assume ok: "gossip_node mode k s" and fit: "gossip_list x"
  obtain clk rs sid where x: "x = (clk, rs, sid)" by (cases x)
  from ok fit [unfolded x]
  have "gossip_node mode k (deliver x s) \<and> knowledge mode (find_member (Members (deliver x s)) k) =
      max (knowledge mode (find_member (Members s) k)) (told mode k rs)"
  proof (cases rule: deliver_cases)
    case silent
    have "told mode k rs = (0, 0, 0, 0)" by (simp add: told_def silent(2) del: Collect_empty_eq)
    with ok silent(1) show ?thesis
      by (simp add: x deliver_def gossip_node_def wf_mergeMembership max_absorb1 knowledge_least)
  next
    case (told r now)
    have susp: "Suspicion (Config s) = mode" "mode \<in> {Suspect, NoSuspect}" using ok by (simp_all add: gossip_node_def)
    have "knowledge mode (find_member (Members (deliver x s)) k) =
        max (knowledge mode (find_member (Members s) k)) (knowledge mode (Some r))"
      using ok told knowledge_merge [of r "find_member (Members s) k" "ServerID s" "Config s"]
      by (auto simp: x deliver_def gossip_node_def)
    moreover have "told mode k rs = knowledge mode (Some r)"
      by (simp add: told_def told(4) max_absorb2 knowledge_least)
    moreover have "gossip_node mode k (deliver x s)"
      using ok told named_merge_entry [OF told(1), of "find_member (Members s) k" "Config s"]
      by (simp add: x deliver_def gossip_node_def wf_mergeMembership)
    ultimately show ?thesis by simp
  qed
  then show "gossip_node mode k (deliver x s)"
    "knowledge mode (find_member (Members (deliver x s)) k) =
      max (knowledge mode (find_member (Members s) k)) (case x of (clk, rs, sid) \<Rightarrow> told mode k rs)"
    by (simp_all add: x)
qed

text \<open>
  C13. Gossip converges: two nodes in the same suspicion mode, neither of them \<open>k\<close>, that start
  with the same knowledge of \<open>k\<close> and have received the same set of gossip lists, in whatever order,
  with whatever repetitions and at whatever times, agree on \<open>k\<close>: either neither has an entry, or both
  hold a final one, or both hold live entries of the same status and heartbeat, and with suspicion of
  the same incarnation.
\<close>

theorem gossip_converges:
  assumes s: "gossip_node mode k s" and t: "gossip_node mode k t"
    and start: "knowledge mode (find_member (Members s) k) = knowledge mode (find_member (Members t) k)"
    and fit: "\<forall>x \<in> set xs. gossip_list x" "\<forall>x \<in> set ys. gossip_list x"
    and same: "set (map (fst \<circ> snd) xs) = set (map (fst \<circ> snd) ys)"
  shows "(case (find_member (Members (fold deliver xs s)) k, find_member (Members (fold deliver ys t)) k) of
      (None, None) \<Rightarrow> True
    | (Some m, Some m') \<Rightarrow>
        if is_final m \<or> is_final m' then is_final m \<and> is_final m'
        else Status m = Status m' \<and> Heartbeat m = Heartbeat m' \<and>
          (mode = Suspect \<longrightarrow> Incarnation m = Incarnation m')
    | _ \<Rightarrow> False)"
proof -
  have w: "(\<lambda>x. case x of (clk, rs, sid) \<Rightarrow> told mode k rs) = told mode k \<circ> fst \<circ> snd"
    by (auto simp: fun_eq_iff)
  have "knowledge mode (find_member (Members (fold deliver xs s)) k) =
      knowledge mode (find_member (Members (fold deliver ys t)) k)"
    using arg_cong [OF same, of "image (told mode k)"]
    by (intro gossip.converge [OF s t start fit]) (simp add: w start image_image)
  moreover have "gossip_node mode k (fold deliver xs s)" "gossip_node mode k (fold deliver ys t)"
    using gossip.run_rank [OF s fit(1)] gossip.run_rank [OF t fit(2)] by auto
  ultimately show ?thesis
    by (auto simp: gossip_node_def knowledge_def named_def is_final_def split: option.splits if_splits)
qed

theorem gossip_converges_witness:
  "\<exists>a b. find_member (Members (fold deliver
        [(\<lambda>i. 5, [example_member ''127.0.0.1:5002'' 91 StatusSuspect], ''x''),
         (\<lambda>i. 6, [example_member ''127.0.0.1:5002'' 91 StatusAlive], ''y'')] example_server)) ''127.0.0.1:5002-0'' = a \<and>
    find_member (Members (fold deliver
        [(\<lambda>i. 8, [example_member ''127.0.0.1:5002'' 91 StatusAlive], ''x''),
         (\<lambda>i. 9, [example_member ''127.0.0.1:5002'' 91 StatusSuspect], ''x'')] example_server)) ''127.0.0.1:5002-0'' = b \<and>
    (case (a, b) of
      (None, None) \<Rightarrow> True
    | (Some m, Some m') \<Rightarrow>
        if is_final m \<or> is_final m' then is_final m \<and> is_final m'
        else Status m = Status m' \<and> Heartbeat m = Heartbeat m' \<and>
          (Suspect = Suspect \<longrightarrow> Incarnation m = Incarnation m')
    | _ \<Rightarrow> False)"
proof (intro exI conjI)
  have node: "gossip_node Suspect ''127.0.0.1:5002-0'' example_server"
    by (simp add: gossip_node_def wf_example_server find_member_def two_ring_def ID_example)
  show "case (find_member (Members (fold deliver
        [(\<lambda>i. 5, [example_member ''127.0.0.1:5002'' 91 StatusSuspect], ''x''),
         (\<lambda>i. 6, [example_member ''127.0.0.1:5002'' 91 StatusAlive], ''y'')] example_server)) ''127.0.0.1:5002-0'',
      find_member (Members (fold deliver
        [(\<lambda>i. 8, [example_member ''127.0.0.1:5002'' 91 StatusAlive], ''x''),
         (\<lambda>i. 9, [example_member ''127.0.0.1:5002'' 91 StatusSuspect], ''x'')] example_server)) ''127.0.0.1:5002-0'') of
      (None, None) \<Rightarrow> True
    | (Some m, Some m') \<Rightarrow>
        if is_final m \<or> is_final m' then is_final m \<and> is_final m'
        else Status m = Status m' \<and> Heartbeat m = Heartbeat m' \<and>
          (Suspect = Suspect \<longrightarrow> Incarnation m = Incarnation m')
    | _ \<Rightarrow> False"
    by (rule gossip_converges [OF node node refl])
      (auto simp: gossip_list_def named_def)
qed (rule refl)+

end
