(* ===== verification/Protocols.thy ===== *)
theory Protocols
  imports Gossip_Convergence Failure_Detector
begin

text \<open>
  Models \<^verbatim>\<open>src/protocols.go\<close>: the round-robin choice of whom to contact, with its
  three global variables, and the two senders. \<open>ord\<close> is the order in which the runtime ranges over a
  map and \<open>shuf\<close> what \<^verbatim>\<open>rand.Shuffle\<close> makes of the list; both are permutations.
  A sender's goroutines become a list of calls; what the ping goroutine does with its answer is
  \<open>ping_answered\<close>.
\<close>

section \<open>Choosing nodes\<close>

record round_robin =
  nodeOrder :: "string list"
  currentPointer :: int
  lastMemberCount :: int

definition initial_round_robin :: round_robin where
  "initial_round_robin = \<lparr>nodeOrder = [], currentPointer = 0, lastMemberCount = 0\<rparr>"

definition candidates :: "(string list \<Rightarrow> string list) \<Rightarrow> string \<Rightarrow> Member go_map \<Rightarrow> string list" where
  "candidates ord self membershipSnapshot =
     concat (map (\<lambda>nodeId. case map_of membershipSnapshot nodeId of
         None \<Rightarrow> []
       | Some member \<Rightarrow> if nodeId \<noteq> self \<and> Status member \<noteq> StatusDead then [ID member] else [])
       (ord (map_keys membershipSnapshot)))"

text \<open>The loop that fills \<^verbatim>\<open>result\<close>; its first argument counts the iterations left.\<close>

fun take_nodes :: "nat \<Rightarrow> string list \<Rightarrow> round_robin \<Rightarrow> go_panic + string list \<times> round_robin" where
  "take_nodes 0 result rr = Inr (result, rr)"
| "take_nodes (Suc i) result rr =
     (case go_nth (nodeOrder rr) (currentPointer rr) of
        Inl e \<Rightarrow> Inl e
      | Inr node \<Rightarrow>
          take_nodes i (result @ [node])
            (rr\<lparr>currentPointer := go_mod (currentPointer rr + 1) (int (length (nodeOrder rr)))\<rparr>))"

definition rebuild :: "(string list \<Rightarrow> string list) \<Rightarrow> string list \<Rightarrow> round_robin \<Rightarrow> round_robin" where
  "rebuild shuf cands rr =
     (if int (length cands) \<noteq> lastMemberCount rr \<or> nodeOrder rr = []
      then \<lparr>nodeOrder = shuf cands, currentPointer = 0, lastMemberCount = int (length cands)\<rparr>
      else rr)"

definition selectNextKNodes ::
    "(string list \<Rightarrow> string list) \<Rightarrow> (string list \<Rightarrow> string list) \<Rightarrow> int \<Rightarrow> string \<Rightarrow> Member go_map \<Rightarrow>
     round_robin \<Rightarrow> go_panic + string list \<times> round_robin" where
  "selectNextKNodes ord shuf k self membershipSnapshot rr =
     (let cands = candidates ord self membershipSnapshot
      in if cands = [] then Inr ([], rr)
         else
           let rr1 = rebuild shuf cands rr;
               k1 = (if k > int (length (nodeOrder rr1)) then int (length (nodeOrder rr1)) else k)
           in if k1 < 0 then Inl NegativeLength else take_nodes (nat k1) [] rr1)"

section \<open>Sending\<close>

datatype Call =
    GossipCall string string "Member list"
  | PingCall string string string "Member list"

text \<open>A call names its address and sender; a ping keeps the identity it is meant for.\<close>

definition gossip_member :: "Member \<Rightarrow> Member" where
  "gossip_member m = m\<lparr>LastUpdated := zero_time\<rparr>"

definition ping_member :: "Member \<Rightarrow> Member" where
  "ping_member m = m\<lparr>Heartbeat := 0, LastUpdated := zero_time\<rparr>"

text \<open>The list sent, in the order \<open>ord\<close> of the map.\<close>

definition sent_list ::
    "(Member \<Rightarrow> Member) \<Rightarrow> (string list \<Rightarrow> string list) \<Rightarrow> Member go_map \<Rightarrow> Member list" where
  "sent_list optimize ord snapshot =
     concat (map (\<lambda>k. case map_of snapshot k of None \<Rightarrow> [] | Some m \<Rightarrow> [optimize m]) (ord (map_keys snapshot)))"

definition gossipSend ::
    "(string list \<Rightarrow> string list) \<Rightarrow> (string list \<Rightarrow> string list) \<Rightarrow> int \<Rightarrow> Server \<Rightarrow> round_robin \<Rightarrow>
     go_panic + Call list \<times> round_robin" where
  "gossipSend ord shuf nodeCount s rr =
     (let snapshot = Snapshot (Members s)
      in case selectNextKNodes ord shuf nodeCount (ServerID s) snapshot rr of
           Inl e \<Rightarrow> Inl e
         | Inr (nodes, rr') \<Rightarrow>
             Inr (map (\<lambda>nodeId. GossipCall (GetAddressFromID nodeId) (ServerID s)
                    (sent_list gossip_member ord snapshot)) nodes, rr'))"

definition pingSend ::
    "(string list \<Rightarrow> string list) \<Rightarrow> (string list \<Rightarrow> string list) \<Rightarrow> int \<Rightarrow> Server \<Rightarrow> round_robin \<Rightarrow>
     go_panic + Call list \<times> round_robin" where
  "pingSend ord shuf nodeCount s rr =
     (let snapshot = Snapshot (Members s)
      in case selectNextKNodes ord shuf nodeCount (ServerID s) snapshot rr of
           Inl e \<Rightarrow> Inl e
         | Inr (nodes, rr') \<Rightarrow>
             Inr (map (\<lambda>nodeId. PingCall nodeId (GetAddressFromID nodeId) (ServerID s)
                    (sent_list ping_member ord snapshot)) nodes, rr'))"

text \<open>One tick of \<^verbatim>\<open>sendTimelyMessagesAsPerProtocol\<close>.\<close>

definition sendTimelyMessages ::
    "(string list \<Rightarrow> string list) \<Rightarrow> (string list \<Rightarrow> string list) \<Rightarrow> Server \<Rightarrow> round_robin \<Rightarrow>
     go_panic + Call list \<times> round_robin" where
  "sendTimelyMessages ord shuf s rr =
     (case Protocol (Config s) of
        GossipProtocol \<Rightarrow> gossipSend ord shuf (Fanout (Config s)) s rr
      | PingAckProtocol \<Rightarrow> pingSend ord shuf (Fanout (Config s)) s rr
      | ProtocolOther _ \<Rightarrow> Inr ([], rr))"

text \<open>
  The answer to a ping, \<open>None\<close> when the call failed; \<open>r\<close> is the random number that decides whether
  \<^verbatim>\<open>CallPing\<close> drops it.
\<close>

definition ping_answered ::
    "(nat \<Rightarrow> instant) \<Rightarrow> float64 \<Rightarrow> Member list option \<Rightarrow> string \<Rightarrow> Server \<Rightarrow> Server" where
  "ping_answered clk r resp nodeId s =
     (case resp of
        None \<Rightarrow> s
      | Some membershipList \<Rightarrow>
          if drops (Config s) r then s else mergeMembership clk membershipList nodeId s)"

section \<open>Round robin\<close>

definition wf_round_robin :: "round_robin \<Rightarrow> bool" where
  "wf_round_robin rr \<longleftrightarrow> nodeOrder rr = [] \<or>
     0 \<le> currentPointer rr \<and> currentPointer rr < int (length (nodeOrder rr))"

lemma wf_initial_round_robin: "wf_round_robin initial_round_robin"
  by (simp add: wf_round_robin_def initial_round_robin_def)

lemma rebuild_fresh:
  "wf_round_robin rr \<Longrightarrow> cands \<noteq> [] \<Longrightarrow> mset (shuf cands) = mset cands \<Longrightarrow>
    wf_round_robin (rebuild shuf cands rr) \<and> nodeOrder (rebuild shuf cands rr) \<noteq> []"
  by (cases "shuf cands = []") (auto simp: rebuild_def wf_round_robin_def)

text \<open>The nodes from a pointer on, cyclically.\<close>

definition cycle :: "'a list \<Rightarrow> nat \<Rightarrow> nat \<Rightarrow> 'a list" where
  "cycle xs p k = map (\<lambda>i. xs ! ((p + i) mod length xs)) [0..<k]"

lemma cycle_Suc:
  "xs \<noteq> [] \<Longrightarrow> p < length xs \<Longrightarrow> cycle xs p (Suc k) = xs ! p # cycle xs ((p + 1) mod length xs) k"
  by (simp add: cycle_def map_Suc_upt [symmetric] mod_simps upt_conv_Cons del: upt_Suc)

lemma cycle_add:
  "xs \<noteq> [] \<Longrightarrow> cycle xs p (j + k) = cycle xs p j @ cycle xs ((p + j) mod length xs) k"
  by (intro nth_equalityI) (auto simp: cycle_def nth_append mod_simps)

lemma cycle_full: "mset (cycle xs p (length xs)) = mset xs"
proof (cases "xs = []")
  case False
  have "cycle xs p (length xs) = rotate p xs"
    using False by (intro nth_equalityI) (simp_all add: cycle_def nth_rotate)
  then show ?thesis
    by (metis append_take_drop_id mset_append rotate_drop_take union_commute)
qed (simp add: cycle_def)

lemma take_nodes_cycle:
  assumes "nodeOrder rr \<noteq> []" and "currentPointer rr = int p" and "p < length (nodeOrder rr)"
  shows "take_nodes k result rr = Inr (result @ cycle (nodeOrder rr) p k,
    rr\<lparr>currentPointer := int ((p + k) mod length (nodeOrder rr))\<rparr>)"
  using assms
proof (induction k arbitrary: p result rr)
  case 0
  then show ?case by (simp add: cycle_def)
next
  case (Suc k)
  let ?n = "length (nodeOrder rr)"
  have ptr: "go_mod (currentPointer rr + 1) (int ?n) = int ((p + 1) mod ?n)"
    using Suc.prems go_mod_nat [of ?n "p + 1"] by (simp add: add.commute)
  have "take_nodes (Suc k) result rr =
      take_nodes k (result @ [nodeOrder rr ! p]) (rr\<lparr>currentPointer := int ((p + 1) mod ?n)\<rparr>)"
    using Suc.prems ptr by (simp add: go_simps)
  also have "\<dots> = Inr ((result @ [nodeOrder rr ! p]) @ cycle (nodeOrder rr) ((p + 1) mod ?n) k,
      rr\<lparr>currentPointer := int (((p + 1) mod ?n + k) mod ?n)\<rparr>)"
    using Suc.IH [of "rr\<lparr>currentPointer := int ((p + 1) mod ?n)\<rparr>"] Suc.prems by simp
  also have "\<dots> = Inr (result @ cycle (nodeOrder rr) p (Suc k),
      rr\<lparr>currentPointer := int ((p + Suc k) mod ?n)\<rparr>)"
    using Suc.prems by (simp add: cycle_Suc mod_simps)
  finally show ?case .
qed


section \<open>Many rounds\<close>

type_synonym pick = "(string list \<Rightarrow> string list) \<times> (string list \<Rightarrow> string list) \<times> Member go_map"

text \<open>Successive calls; the nodes they contact, in order.\<close>

fun select_all :: "int \<Rightarrow> string \<Rightarrow> pick list \<Rightarrow> round_robin \<Rightarrow> go_panic + string list \<times> round_robin" where
  "select_all k self [] rr = Inr ([], rr)"
| "select_all k self ((ord, shuf, snap) # picks) rr =
     (case selectNextKNodes ord shuf k self snap rr of
        Inl e \<Rightarrow> Inl e
      | Inr (nodes, rr1) \<Rightarrow>
          (case select_all k self picks rr1 of
             Inl e \<Rightarrow> Inl e
           | Inr (later, rr2) \<Rightarrow> Inr (nodes @ later, rr2)))"

definition cand_count :: "string \<Rightarrow> pick \<Rightarrow> nat" where
  "cand_count self x = (case x of (ord, shuf, snap) \<Rightarrow> length (candidates ord self snap))"

text \<open>As long as the number of candidates does not change, the old order goes round.\<close>

lemma select_stable:
  assumes "nodeOrder rr = xs" "currentPointer rr = int p" "p < length xs"
    and "lastMemberCount rr = int (length (candidates ord self snap))"
    and "0 \<le> k" "k \<le> int (length xs)" "candidates ord self snap \<noteq> []"
  shows "selectNextKNodes ord shuf k self snap rr =
    Inr (cycle xs p (nat k), rr\<lparr>currentPointer := int ((p + nat k) mod length xs)\<rparr>)"
proof -
  have "rebuild shuf (candidates ord self snap) rr = rr" and "xs \<noteq> []"
    using assms by (auto simp: rebuild_def)
  then show ?thesis
    using assms take_nodes_cycle [of rr p "nat k" "[]"] by (simp add: selectNextKNodes_def Let_def)
qed

lemma select_all_stable:
  assumes "nodeOrder rr = xs" "currentPointer rr = int p" "p < length xs"
    and "0 \<le> k" "k \<le> int (length xs)" "0 < n" "lastMemberCount rr = int n"
    and "\<forall>x \<in> set picks. cand_count self x = n"
  shows "\<exists>rr'. select_all k self picks rr = Inr (cycle xs p (length picks * nat k), rr')"
  using assms
proof (induction picks arbitrary: rr p)
  case Nil
  then show ?case by (simp add: cycle_def)
next
  case (Cons x picks)
  obtain ord shuf snap where x: "x = (ord, shuf, snap)" by (cases x)
  let ?p = "(p + nat k) mod length xs"
  have n: "length (candidates ord self snap) = n" using Cons.prems(8) by (simp add: x cand_count_def)
  have one: "selectNextKNodes ord shuf k self snap rr = Inr (cycle xs p (nat k), rr\<lparr>currentPointer := int ?p\<rparr>)"
    using Cons.prems n by (intro select_stable) auto
  have pl: "?p < length xs" using Cons.prems(3) by (intro mod_less_divisor) linarith
  have "\<exists>rr'. select_all k self picks (rr\<lparr>currentPointer := int ?p\<rparr>) =
      Inr (cycle xs ?p (length picks * nat k), rr')"
    using Cons.prems by (intro Cons.IH) (simp_all add: pl)
  then obtain rr' where rest: "select_all k self picks (rr\<lparr>currentPointer := int ?p\<rparr>) =
      Inr (cycle xs ?p (length picks * nat k), rr')" ..
  have "xs \<noteq> []" using Cons.prems(3) by auto
  then show ?case
    using one rest cycle_add [of xs p "nat k" "length picks * nat k"] by (simp add: x)
qed

lemma cycle_rounds: "xs \<noteq> [] \<Longrightarrow> mset (cycle xs p (m * length xs)) = repeat_mset m (mset xs)"
proof (induction m arbitrary: p)
  case (Suc m)
  then show ?case
    using cycle_add [of xs p "length xs" "m * length xs"] cycle_full [of xs] by simp
qed (simp add: cycle_def)

lemma set_cycle: "xs \<noteq> [] \<Longrightarrow> set (cycle xs p k) \<subseteq> set xs"
  by (auto simp: cycle_def)

text \<open>
  C28. The round robin is fair: from the start of the process, with one node contacted per round, after
  \<open>m\<close> full rounds over an unchanged set of candidates every candidate has been contacted exactly
  \<open>m\<close> times, whatever orders the map iteration and the shuffle produce, and no call fails.
\<close>

theorem round_robin_fair:
  assumes picks: "\<forall>x \<in> set picks. case x of (ord, shuf, snap) \<Rightarrow>
      mset (candidates ord self snap) = M \<and> (\<forall>xs. mset (shuf xs) = mset xs)"
    and len: "length picks = m * size M" and M: "M \<noteq> {#}"
  shows "\<exists>nodes rr. select_all 1 self picks initial_round_robin = Inr (nodes, rr) \<and> mset nodes = repeat_mset m M"
proof (cases picks)
  case Nil
  with len M show ?thesis by auto
next
  case (Cons x rest)
  obtain ord shuf snap where x: "x = (ord, shuf, snap)" by (cases x)
  have cM: "mset (candidates ord self snap) = M" and sh: "\<And>xs. mset (shuf xs) = mset xs"
    using picks by (auto simp: Cons x)
  define xs where "xs = shuf (candidates ord self snap)"
  have xs: "mset xs = M" by (simp add: xs_def sh cM)
  have n: "length xs = size M" using xs by (metis size_mset)
  have ne: "candidates ord self snap \<noteq> []" "xs \<noteq> []" using M cM xs by auto
  have sizes: "\<forall>y \<in> set picks. cand_count self y = size M"
    using picks by (auto simp: cand_count_def)
  have pos: "0 < size M" using M by (simp add: nonempty_has_size)
  define rr where "rr = \<lparr>nodeOrder = xs, currentPointer = 0, lastMemberCount = int (size M)\<rparr>"
  have lenc: "length (candidates ord self snap) = size M" using cM by (metis size_mset)
  have "rebuild shuf (candidates ord self snap) initial_round_robin = rr"
    using lenc by (simp add: rebuild_def initial_round_robin_def rr_def xs_def)
  moreover have "rebuild shuf (candidates ord self snap) rr = rr"
    using lenc ne by (simp add: rebuild_def rr_def)
  ultimately have "selectNextKNodes ord shuf 1 self snap initial_round_robin = selectNextKNodes ord shuf 1 self snap rr"
    using ne by (simp add: selectNextKNodes_def Let_def)
  then have "select_all 1 self picks initial_round_robin = select_all 1 self picks rr"
    by (simp add: Cons x)
  moreover have "\<exists>rr'. select_all 1 self picks rr = Inr (cycle xs 0 (length picks * nat 1), rr')"
    using ne n M sizes by (intro select_all_stable [where n = "size M"]) (simp_all add: rr_def pos Suc_le_eq)
  moreover have "mset (cycle xs 0 (length picks * nat 1)) = repeat_mset m M"
    using cycle_rounds [OF ne(2), of 0 m] xs n len by simp
  ultimately show ?thesis by auto
qed

lemma alive_candidates:
  "candidates id ''127.0.0.1:5000-0'' (Snapshot alive_ring) =
    [''127.0.0.1:5005-0'', ''127.0.0.1:5009-0'', ''127.0.0.1:5007-0'']"
  by (simp add: candidates_def Snapshot_def alive_ring_def ID_example map_keys_def)

theorem round_robin_fair_witness:
  "\<exists>nodes rr. select_all 1 ''127.0.0.1:5000-0'' (replicate 6 (id, rev, Snapshot alive_ring)) initial_round_robin =
      Inr (nodes, rr) \<and>
    mset nodes = repeat_mset 2 {#''127.0.0.1:5005-0'', ''127.0.0.1:5009-0'', ''127.0.0.1:5007-0''#}"
  by (rule round_robin_fair) (simp_all add: alive_candidates)

text \<open>
  A replacement goes unnoticed: once an order is built, calls whose candidates are equally many
  contact only nodes of that order, so a member that joined when another vanished is not contacted.
\<close>

theorem stale_round_robin:
  assumes order: "nodeOrder rr \<noteq> []" "wf_round_robin rr" and n: "lastMemberCount rr = int n" "0 < n"
    and picks: "\<forall>x \<in> set picks. cand_count self x = n"
    and k: "0 \<le> k" "k \<le> int (length (nodeOrder rr))"
  shows "\<exists>nodes rr'. select_all k self picks rr = Inr (nodes, rr') \<and> set nodes \<subseteq> set (nodeOrder rr)"
proof -
  obtain p where p: "currentPointer rr = int p" "p < length (nodeOrder rr)"
    using order by (auto simp: wf_round_robin_def intro: that [of "nat (currentPointer rr)"])
  show ?thesis
    using select_all_stable [OF refl p k n(2,1) picks] set_cycle [OF order(1)] by blast
qed

theorem stale_round_robin_witness:
  "\<exists>nodes rr'. select_all 1 ''127.0.0.1:5000-0'' [(id, rev, Snapshot alive_ring)]
      \<lparr>nodeOrder = [''a'', ''b'', ''c''], currentPointer = 2, lastMemberCount = int 3\<rparr> = Inr (nodes, rr') \<and>
    set nodes \<subseteq> {''a'', ''b'', ''c''}"
  using stale_round_robin [of "\<lparr>nodeOrder = [''a'', ''b'', ''c''], currentPointer = 2, lastMemberCount = int 3\<rparr>" 3
      "[(id, rev, Snapshot alive_ring)]" "''127.0.0.1:5000-0''" 1]
  by (simp add: wf_round_robin_def cand_count_def alive_candidates)

section \<open>What gossip carries\<close>

lemma sent_list_set:
  assumes wf: "wf_members ms" and ord: "mset (ord (map_keys (Snapshot ms))) = mset (map_keys (Snapshot ms))"
    and id: "\<And>m. ID (opt m) = ID m"
  shows "set (sent_list opt ord (Snapshot ms)) = opt ` set ms"
    and "distinct (map ID (sent_list opt ord (Snapshot ms)))"
proof -
  let ?snap = "Snapshot ms"
  let ?keys = "ord (map_keys ?snap)"
  note look = Snapshot_lookup [OF wf_membersD [OF wf]]
  have dk: "distinct ?keys"
    using mset_eq_imp_distinct_iff [OF ord] wf_Snapshot [of ms] by (simp add: wf_map_def map_keys_def)
  have keys: "set ?keys = dom (map_of ?snap)"
    using ord by (metis set_map_keys set_mset_mset)
  have all: "map_of ?snap k \<noteq> None" if "k \<in> set ?keys" for k
    using that keys by auto
  have sl: "sent_list opt ord ?snap = map (\<lambda>k. opt (the (map_of ?snap k))) ?keys"
    unfolding sent_list_def
    by (subst concat_map_singleton [symmetric], intro arg_cong [where f = concat] map_cong refl)
      (use all in fastforce)
  have ids: "ID (opt (the (map_of ?snap k))) = k" if "k \<in> set ?keys" for k
    using all [OF that] find_member_ID [of ms k] by (auto simp: look id)
  show "distinct (map ID (sent_list opt ord ?snap))"
    using dk ids by (simp add: sl o_def distinct_map inj_on_def)
  show "set (sent_list opt ord ?snap) = opt ` set ms"
  proof -
    have "(\<lambda>k. the (map_of ?snap k)) ` dom (map_of ?snap) = set ms"
    proof (intro equalityI subsetI)
      fix m assume "m \<in> (\<lambda>k. the (map_of ?snap k)) ` dom (map_of ?snap)"
      then show "m \<in> set ms" using find_member_ID by (auto simp: look)
    next
      fix m assume "m \<in> set ms"
      then have "map_of ?snap (ID m) = Some m"
        using find_member_eq_Some [OF wf_membersD [OF wf]] by (simp add: look)
      then show "m \<in> (\<lambda>k. the (map_of ?snap k)) ` dom (map_of ?snap)"
        by (intro image_eqI [of _ _ "ID m"]) auto
    qed
    then have "opt ` (\<lambda>k. the (map_of ?snap k)) ` dom (map_of ?snap) = opt ` set ms" by (rule arg_cong)
    then show ?thesis by (simp add: sl keys image_image)
  qed
qed

text \<open>
  C29. Gossip pushes what its sender knows: whoever receives the list of a \<open>gossipSend\<close> knows, of every
  node \<open>k\<close> other than itself, the larger of what it knew and what the sender knows, except that a death
  is not passed on.
\<close>

theorem gossip_push:
  assumes s: "wf_server s" "\<forall>m \<in> set (Members s). named m"
    and t: "gossip_node mode k t"
    and ord: "\<And>xs. mset (ord xs) = mset xs"
    and send: "gossipSend ord shuf n s rr = Inr (calls, rr')" and call: "GossipCall addr sid rs \<in> set calls"
  shows "knowledge mode (find_member (Members (mergeMembership clk rs sid t)) k) =
    (case find_member (Members s) k of
       None \<Rightarrow> knowledge mode (find_member (Members t) k)
     | Some m \<Rightarrow> if Status m = StatusDead then knowledge mode (find_member (Members t) k)
                 else max (knowledge mode (find_member (Members t) k)) (knowledge mode (Some m)))"
proof -
  note wfm = wf_server_members [OF s(1)]
  have rs: "rs = sent_list gossip_member ord (Snapshot (Members s))"
    using send call by (auto simp: gossipSend_def Let_def split: sum.splits)
  have idg: "ID (gossip_member m) = ID m" for m by (simp add: gossip_member_def)
  note sent = sent_list_set [where ms = "Members s" and ord = ord and opt = gossip_member,
    OF wfm ord idg, folded rs]
  have "gossip_list (clk, rs, sid)"
    using sent s(2) by (auto simp: gossip_list_def gossip_member_def)
  then have run: "knowledge mode (find_member (Members (mergeMembership clk rs sid t)) k) =
      max (knowledge mode (find_member (Members t) k)) (told mode k rs)"
    using gossip.deliver_rank [OF t, of "(clk, rs, sid)"] by (simp add: deliver_def)
  have gst: "Status (gossip_member m) = Status m" for m by (simp add: gossip_member_def)
  have told: "{r \<in> set rs. ID r = k \<and> Status r \<noteq> StatusDead} =
      gossip_member ` {x \<in> set (Members s). ID x = k \<and> Status x \<noteq> StatusDead}"
    by (auto simp: sent(1) idg gst)
  have only: "{x \<in> set (Members s). ID x = k \<and> Status x \<noteq> StatusDead} =
      (case find_member (Members s) k of None \<Rightarrow> {} | Some m \<Rightarrow> if Status m = StatusDead then {} else {m})"
  proof (cases "find_member (Members s) k")
    case None
    then have "\<forall>m \<in> set (Members s). ID m \<noteq> k" by (auto simp: find_member_None)
    with None show ?thesis by auto
  next
    case (Some m)
    then have "x \<in> set (Members s) \<and> ID x = k \<longleftrightarrow> x = m" for x
      using find_member_eq_Some [OF wf_membersD [OF wfm], of k x] by auto
    then have "{x \<in> set (Members s). ID x = k \<and> Status x \<noteq> StatusDead} = {x. x = m \<and> Status x \<noteq> StatusDead}"
      by blast
    with Some show ?thesis by auto
  qed
  have "knowledge mode (Some (gossip_member m)) = knowledge mode (Some m)" for m
    by (simp add: knowledge_def gossip_member_def is_final_def)
  then show ?thesis
    using run knowledge_least [of mode]
    by (cases "find_member (Members s) k") (simp_all add: told_def told only max_absorb1 max_absorb2)
qed

theorem gossip_push_witness:
  "\<exists>calls rr' addr sid rs. gossipSend id id 1 example_server initial_round_robin = Inr (calls, rr') \<and>
    calls = [GossipCall addr sid rs] \<and>
    knowledge Suspect (find_member (Members (mergeMembership (\<lambda>i. 7) rs sid example_peer)) ''127.0.0.1:5000-0'') =
      max (knowledge Suspect (find_member (Members example_peer) ''127.0.0.1:5000-0''))
        (knowledge Suspect (Some (example_member ''127.0.0.1:5000'' 29 StatusAlive)))"
proof -
  have cand: "candidates id ''127.0.0.1:5000-0'' (Snapshot two_ring) = [''127.0.0.1:5001-0'']"
    by (simp add: candidates_def Snapshot_def two_ring_def ID_example map_keys_def)
  obtain rr' addr sid rs where r: "gossipSend id id 1 example_server initial_round_robin =
      Inr ([GossipCall addr sid rs], rr')"
    by (simp add: gossipSend_def selectNextKNodes_def cand rebuild_def initial_round_robin_def Let_def go_nth_def
        numeral_nat)
  have "gossip_node Suspect ''127.0.0.1:5000-0'' example_peer"
    using find_example(3) by (simp add: gossip_node_def wf_example_peer named_def)
  then have "knowledge Suspect (find_member (Members (mergeMembership (\<lambda>i. 7) rs sid example_peer)) ''127.0.0.1:5000-0'') =
      max (knowledge Suspect (find_member (Members example_peer) ''127.0.0.1:5000-0''))
        (knowledge Suspect (Some (example_member ''127.0.0.1:5000'' 29 StatusAlive)))"
    using gossip_push [OF wf_example_server _ _ _ r, of Suspect "''127.0.0.1:5000-0''" example_peer addr sid rs "\<lambda>i. 7"]
      find_example(1) by (simp add: two_ring_def named_def)
  with r show ?thesis by blast
qed

end
