(* ===== verification/System.thy ===== *)
theory System
  imports Operations Protocols
begin

text \<open>
  The whole system as a machine of events: the start of a node (\<^verbatim>\<open>src/main.go\<close> and
  \<^verbatim>\<open>StartRPCServer\<close>), the ticks of \<^verbatim>\<open>src/server.go\<close>, the requests
  that \<^verbatim>\<open>handleRPCRequest\<close> dispatches, and the goroutines that handlers leave behind.
  An event runs to its end before the next one. What an event takes from outside, the clock, random
  numbers and orders, is in its \<open>Env\<close>.
\<close>

record Env =
  Clk :: "nat \<Rightarrow> instant"
  Sched :: "string list \<Rightarrow> string list"
  Shuffle :: "string list \<Rightarrow> string list"
  Rand :: float64
  ParseFloat :: "string \<Rightarrow> float64 option"

record System =
  Sys :: Cluster
  Robin :: "string \<Rightarrow> round_robin"

section \<open>Requests\<close>

datatype RpcRequest =
    JoinReq Member
  | GossipReq string "Member list"
  | PingReq string "Member list"
  | ProtocolSwitchReq ProtocolType SuspicionType
  | GetFilesMetadataReq int int
  | GetFileMetadataReq string
  | MultiAppendReq string string
  | UpdateAppendOrderReq string "AppendInfo list"
  | MergeReq string
  | ExecuteCommandReq string
  | InvalidRequest

datatype RpcResponse =
    JoinResp JoinResponse
  | GossipResp bool
  | PingResp string "Member list"
  | SwitchResp bool
  | FilesResp "FileMetadata go_map"
  | FileResp bool "FileMetadata go_map"
  | DoneResp bool
  | ErrorResp

definition ExecuteCommand :: "string \<Rightarrow> Server \<Rightarrow> bool \<times> Server" where
  "ExecuteCommand command s = (True, s\<lparr>Goroutines := Goroutines s @ [HandleCommand command]\<rparr>)"

text \<open>A request at node \<open>self\<close>; one that does not parse or names no method is an error.\<close>

definition at_node :: "string \<Rightarrow> ('r \<Rightarrow> RpcResponse) \<Rightarrow> (Server \<Rightarrow> 'r \<times> Server) \<Rightarrow> Cluster \<Rightarrow> RpcResponse \<times> Cluster" where
  "at_node self wrap handler c =
     (case node self c of
        None \<Rightarrow> (ErrorResp, c)
      | Some s \<Rightarrow> (case handler s of (r, s') \<Rightarrow> (wrap r, put_node self s' c)))"

definition handleRPCRequest :: "Env \<Rightarrow> string \<Rightarrow> RpcRequest \<Rightarrow> Cluster \<Rightarrow> RpcResponse \<times> Cluster" where
  "handleRPCRequest env self req c =
     (case req of
        JoinReq m \<Rightarrow> at_node self JoinResp (Join (Clk env 0) m) c
      | GossipReq sender ms \<Rightarrow> at_node self GossipResp (Gossip (Clk env) sender ms) c
      | PingReq sender ms \<Rightarrow> at_node self (\<lambda>(x, y). PingResp x y) (Ping (Clk env) sender ms) c
      | ProtocolSwitchReq p x \<Rightarrow> at_node self SwitchResp (ProtocolSwitch p x) c
      | GetFilesMetadataReq a b \<Rightarrow> at_node self FilesResp (\<lambda>s. (GetFilesMetadata (Ord c) a b s, s)) c
      | GetFileMetadataReq f \<Rightarrow> at_node self (\<lambda>(x, y). FileResp x y) (\<lambda>s. (GetFileMetadata f s, s)) c
      | MultiAppendReq f l \<Rightarrow> (DoneResp True, snd (handleAppend self (Sched env) (Clk env 0) l f c))
      | UpdateAppendOrderReq f as \<Rightarrow> at_node self DoneResp (UpdateAppendOrder f as) c
      | MergeReq f \<Rightarrow> (DoneResp True, executeMerge self f c)
      | ExecuteCommandReq cmd \<Rightarrow> at_node self DoneResp (ExecuteCommand cmd) c
      | InvalidRequest \<Rightarrow> (ErrorResp, c))"

section \<open>Starting a node\<close>

text \<open>
  \<open>NewServer\<close> comes before the socket: a second process for a node that is running empties that node's
  directory and then fails to listen. A name outside \<open>NodeMap\<close> is not modelled: such a process listens
  at a port that the system picks.
\<close>

definition start_node :: "Env \<Rightarrow> string \<Rightarrow> directory \<Rightarrow> directory \<Rightarrow> Cluster \<Rightarrow> Cluster" where
  "start_node env nodeName fileDir localDir c =
     (case map_of NodeMap nodeName of
        None \<Rightarrow> c
      | Some nodeAddr \<Rightarrow>
          (case node nodeAddr c of
            Some running \<Rightarrow> put_node nodeAddr (running\<lparr>FileDirectory := []\<rparr>) c
          | None \<Rightarrow>
            let cfg = initial_Config; isIntroducer = (nodeAddr = IntroducerAddr cfg);
                s = NewServer cfg (Clk env 0) (Clk env 1) fileDir localDir nodeAddr (IntroducerAddr cfg) isIntroducer;
                clear = (\<lambda>s. s\<lparr>FileDirectory := clearHydfsFolder (Os c nodeAddr) (FileDirectory s)\<rparr>)
            in if isIntroducer then put_node nodeAddr (clear s) c
               else case makeRPCCall (ServerIntroducerAddr s) (Join (Clk env 2) (join_member (Clk env 3) s)) c of
                   (resp, c1) \<Rightarrow>
                     (case notifyIntroducer (\<lambda>i. Clk env (i + 4)) resp s of
                        None \<Rightarrow> c1
                      | Some s1 \<Rightarrow> put_node nodeAddr (clear s1) c1)))"

section \<open>Ticks\<close>

text \<open>The calls of one tick of the messages, one after the other.\<close>

definition run_call :: "Env \<Rightarrow> string \<Rightarrow> Call \<Rightarrow> Cluster \<Rightarrow> Cluster" where
  "run_call env self call c =
     (case call of
        GossipCall dst sender ms \<Rightarrow> snd (makeRPCCall dst (Gossip (Clk env) sender ms) c)
      | PingCall nodeId dst sender ms \<Rightarrow>
          (case makeRPCCall dst (Ping (Clk env) sender ms) c of
             (resp, c1) \<Rightarrow> update_node self
               (ping_answered (Clk env) (Rand env) (map_option snd resp) nodeId) c1))"

definition message_tick :: "Env \<Rightarrow> string \<Rightarrow> System \<Rightarrow> System" where
  "message_tick env self y =
     (case node self (Sys y) of
        None \<Rightarrow> y
      | Some s \<Rightarrow>
          (case sendTimelyMessages (Ord (Sys y)) (Shuffle env) s (Robin y self) of
             Inl _ \<Rightarrow> y\<lparr>Sys := crash self (Sys y)\<rparr>
           | Inr (calls, rr) \<Rightarrow>
               y\<lparr>Sys := fold (run_call env self) calls (Sys y), Robin := (Robin y)(self := rr)\<rparr>))"

definition collector_tick :: "string \<Rightarrow> Cluster \<Rightarrow> Cluster" where
  "collector_tick self c =
     (case node self c of
        None \<Rightarrow> c
      | Some s \<Rightarrow>
          (case deleteFilesOutsideMyRange (Os c self) (Ord c) s of
             Inl _ \<Rightarrow> crash self c
           | Inr s' \<Rightarrow> put_node self s' c))"

text \<open>A goroutine that was left behind, the \<open>i\<close>-th, runs.\<close>

definition run_task :: "Env \<Rightarrow> string \<Rightarrow> nat \<Rightarrow> Cluster \<Rightarrow> Cluster" where
  "run_task env self i c =
     (case node self c of
        None \<Rightarrow> c
      | Some s \<Rightarrow>
          if length (Goroutines s) \<le> i then c
          else
            let c1 = put_node self (s\<lparr>Goroutines := take i (Goroutines s) @ drop (Suc i) (Goroutines s)\<rparr>) c
            in case Goroutines s ! i of
                HandleReplicationWindowChange nodeID \<Rightarrow> handleReplicationWindowChange self nodeID c1
              | HandleCommand cmd \<Rightarrow> handleCommand self (Sched env) (ParseFloat env) (Clk env 0) cmd c1)"

section \<open>Events\<close>

text \<open>
  \<open>DownloadStep self i\<close>: the \<open>i\<close>-th download of a node, left running by a \<open>handleGet\<close>, does its next
  step. \<open>Environment\<close>: other files fail from now on, maps are ranged over in another order, and the next
  calls have these outcomes.
\<close>

datatype event =
    Start string directory directory
  | Request string RpcRequest
  | CommandLine string string
  | MessageTick string
  | HeartbeatTick string
  | DetectorTick string
  | CollectorTick string
  | MergeTick string
  | RunTask string nat
  | DownloadStep string nat
  | Environment "string \<Rightarrow> os_faults" "string list \<Rightarrow> string list" "link list"
  | Kill string

definition event_step :: "Env \<times> event \<Rightarrow> System \<Rightarrow> System" where
  "event_step x y =
     (case x of (env, e) \<Rightarrow>
        (case e of
           MessageTick self \<Rightarrow> message_tick env self y
         | Start name fileDir localDir \<Rightarrow>
             y\<lparr>Sys := start_node env name fileDir localDir (Sys y),
               Robin := (case map_of NodeMap name of
                   None \<Rightarrow> Robin y
                 | Some a \<Rightarrow> if node a (Sys y) = None then (Robin y)(a := initial_round_robin) else Robin y)\<rparr>
         | _ \<Rightarrow> y\<lparr>Sys :=
             (case e of
                Request self req \<Rightarrow> snd (handleRPCRequest env self req (Sys y))
              | CommandLine self cmd \<Rightarrow>
                  handleCommand self (Sched env) (ParseFloat env) (Clk env 0) cmd (Sys y)
              | HeartbeatTick self \<Rightarrow> update_node self (increaseHeartbeat (Clk env 0)) (Sys y)
              | DetectorTick self \<Rightarrow>
                  update_node self (\<lambda>s. snd (MarkSuspectIfNeeded (Clk env) suspicionTimeout deadTimeout
                    cleanUpTimeout s)) (Sys y)
              | CollectorTick self \<Rightarrow> collector_tick self (Sys y)
              | MergeTick self \<Rightarrow> executeMergeForAllFiles self (Sys y)
              | RunTask self i \<Rightarrow> run_task env self i (Sys y)
              | DownloadStep self i \<Rightarrow> update_node self (download_step (Os (Sys y) self) i) (Sys y)
              | Environment os ord links \<Rightarrow> (Sys y)\<lparr>Os := os, Ord := ord, Network := links\<rparr>
              | Kill self \<Rightarrow> crash self (Sys y)
              | _ \<Rightarrow> Sys y)\<rparr>))"

end
