(* ===== verification/Node_Laws.thy ===== *)
theory Node_Laws
  imports System
begin

text \<open>
  What the operations of the system keep of every node, proved once for any property of a node that
  its elementary updates keep. Three interfaces, each extending the one before: \<open>store_law\<close> for the
  operations on files (streams, stabilization, garbage collection, client operations, merge),
  \<open>command_law\<close> for all commands, and \<open>event_law\<close> for all events of the system.
\<close>

named_theorems law_intros

definition all_nodes :: "(string \<Rightarrow> Server \<Rightarrow> bool) \<Rightarrow> Cluster \<Rightarrow> bool" where
  "all_nodes P c \<longleftrightarrow> (\<forall>a s. node a c = Some s \<longrightarrow> P a s)"

text \<open>One step of a metadata store.\<close>

definition meta_step :: "Metadata \<Rightarrow> Metadata \<Rightarrow> bool" where
  "meta_step m m' \<longleftrightarrow> (\<exists>f. m' = AddFile f m) \<or> (\<exists>f i. m' = snd (AppendToFile f i m)) \<or>
     (\<exists>f. m' = snd (DeleteFile f m))"

lemma meta_step_intros [intro!, simp]:
  "meta_step m (AddFile f m)" "meta_step m (snd (AppendToFile n i m))" "meta_step m (snd (DeleteFile n m))"
  by (auto simp: meta_step_def)

lemma meta_step_append: "AppendToFile n i m = (e, m') \<Longrightarrow> meta_step m m'"
  by (metis meta_step_intros(2) snd_conv)

text \<open>Settings of the configuration that never change.\<close>

definition same_settings :: "Configuration \<Rightarrow> Configuration \<Rightarrow> bool" where
  "same_settings c d \<longleftrightarrow> HashBits c = HashBits d \<and> ReplicationFactor c = ReplicationFactor d \<and>
     IntroducerAddr c = IntroducerAddr d"

lemma same_settings_simps [simp]:
  "same_settings (SwitchProtocol p x c) c" "same_settings (SetMessageDropRate r c) c"
  "same_settings (c\<lparr>Protocol := q, Suspicion := y\<rparr>) c"
  by (simp_all add: same_settings_def SwitchProtocol_def SetMessageDropRate_def Let_def split: option.split)

section \<open>Nodes\<close>

lemma node_put [simp]: "node a (put_node b s c) = (if a = b then Some s else node a c)"
  by (simp add: node_def put_node_def)

lemma node_crash [simp]: "node a (crash b c) = (if a = b then None else node a c)"
  by (simp add: node_def crash_def)

lemma node_next_link [simp]: "node a (snd (next_link c)) = node a c"
  by (simp add: next_link_def node_def split: list.split)

lemma law_node: "all_nodes P c \<Longrightarrow> node a c = Some s \<Longrightarrow> P a s"
  by (simp add: all_nodes_def)

lemma law_Environment: "all_nodes P c \<Longrightarrow> all_nodes P (c\<lparr>Os := os, Ord := ord, Network := links\<rparr>)"
  by (simp add: all_nodes_def node_def)

lemma law_put: "all_nodes P c \<Longrightarrow> P a s \<Longrightarrow> all_nodes P (put_node a s c)"
  by (simp add: all_nodes_def)

lemma law_crash: "all_nodes P c \<Longrightarrow> all_nodes P (crash a c)"
  by (simp add: all_nodes_def)

lemma law_next_link: "all_nodes P c \<Longrightarrow> next_link c = (l, c1) \<Longrightarrow> all_nodes P c1"
  by (metis all_nodes_def node_next_link snd_conv)

lemma law_makeRPCCall:
  assumes "all_nodes P c" and "makeRPCCall a h c = (r, c1)" and "\<And>s. P a s \<Longrightarrow> P a (snd (h s))"
  shows "all_nodes P c1"
proof -
  obtain l c2 where l: "next_link c = (l, c2)" by fastforce
  have w: "all_nodes P c2" using law_next_link [OF assms(1) l] .
  show ?thesis
    using assms(2,3) w law_node [OF w]
    by (auto simp: makeRPCCall_def l split: option.splits prod.splits if_splits intro!: law_put)
      (metis snd_conv)+
qed

lemma law_makeRPCCall_snd:
  "all_nodes P c \<Longrightarrow> (\<And>s. P a s \<Longrightarrow> P a (snd (h s))) \<Longrightarrow> all_nodes P (snd (makeRPCCall a h c))"
  by (metis prod.collapse law_makeRPCCall)

lemma law_read_call: "all_nodes P c \<Longrightarrow> makeRPCCall a (\<lambda>s. (g s, s)) c = (r, c1) \<Longrightarrow> all_nodes P c1"
  by (erule law_makeRPCCall) auto

lemma law_update_node:
  "all_nodes P c \<Longrightarrow> (\<And>s. P a s \<Longrightarrow> P a (f s)) \<Longrightarrow> all_nodes P (update_node a f c)"
  by (auto simp: update_node_def intro!: law_put dest: law_node split: option.split)

lemma fold_keeps: "(\<And>x c. x \<in> set xs \<Longrightarrow> P c \<Longrightarrow> P (f x c)) \<Longrightarrow> P c \<Longrightarrow> P (fold f xs c)"
  by (induction xs arbitrary: c) auto

lemmas law_cluster_intros [law_intros] = law_put law_crash law_update_node law_Environment

section \<open>Operations on files\<close>

locale store_law =
  fixes P :: "string \<Rightarrow> Server \<Rightarrow> bool"
  assumes P_Bandwidth [law_intros]: "P a s \<Longrightarrow> P a (s\<lparr>Bandwidth := b\<rparr>)"
    and P_FileDirectory [law_intros]: "P a s \<Longrightarrow> P a (s\<lparr>FileDirectory := d\<rparr>)"
    and P_LocalDirectory [law_intros]: "P a s \<Longrightarrow> P a (s\<lparr>LocalDirectory := d\<rparr>)"
    and P_Downloads [law_intros]: "P a s \<Longrightarrow> P a (s\<lparr>Downloads := ds\<rparr>)"
    and P_Meta [law_intros]: "P a s \<Longrightarrow> meta_step (Meta s) m \<Longrightarrow> P a (s\<lparr>Meta := m\<rparr>)"
begin

lemma law_FileTransfer:
  "P a s \<Longrightarrow> FileTransfer os chunks broken s = Inr (st, s') \<Longrightarrow> P a s'"
  by (auto simp: FileTransfer_def saveFile_def Let_def
      split: prod.splits if_splits option.splits sum.splits bool.splits intro!: law_intros)

lemma law_AppendTransfer:
  assumes "P a s"
  shows "P a (snd (AppendTransfer os chunks broken s))"
proof -
  show ?thesis
    using assms by (auto simp: AppendTransfer_def Let_def
        split: prod.splits if_splits option.splits bool.splits intro!: law_intros dest: meta_step_append)
qed

lemma law_HyDFS_GetFile: "P a s \<Longrightarrow> P a (snd (HyDFS_GetFile os f s))"
  by (auto simp: HyDFS_GetFile_def Let_def split: option.split intro!: law_intros)

lemma law_add_sent [law_intros]: "all_nodes P c \<Longrightarrow> all_nodes P (add_sent a ds c)"
  by (auto simp: add_sent_def split: option.split intro!: law_intros dest: law_node)

lemma law_SendFileToNode [law_intros]:
  assumes "all_nodes P c"
  shows "all_nodes P (snd (SendFileToNode self t d m c))"
proof -
  obtain l c1 where l: "next_link c = (l, c1)" by fastforce
  note w = law_next_link [OF assms l]
  show ?thesis
    using w by (auto simp: SendFileToNode_def l Let_def split: option.split sum.split prod.split
        intro!: law_intros dest: law_node [OF law_add_sent [OF w]] law_FileTransfer)
qed

lemma law_SendAppendToNode [law_intros]:
  assumes "all_nodes P c"
  shows "all_nodes P (snd (SendAppendToNode self t d a c))"
proof -
  obtain l c1 where l: "next_link c = (l, c1)" by fastforce
  note w = law_next_link [OF assms l]
  have "P t t'" if "AppendTransfer os ch b s = (st, t')" "node t (add_sent self ds c1) = Some s" for os ch b s st t' ds
    using law_AppendTransfer [OF law_node [OF law_add_sent [OF w] that(2)], of os ch b] that(1) by simp
  with w show ?thesis
    by (auto simp: SendAppendToNode_def l Let_def split: option.split prod.split intro!: law_intros)
qed

lemma law_ReceiveFileFromNode [law_intros]:
  assumes "all_nodes P c"
  shows "all_nodes P (snd (ReceiveFileFromNode self t f b lp c))"
proof -
  obtain l c1 where l: "next_link c = (l, c1)" by fastforce
  note w = law_next_link [OF assms l]
  show ?thesis
  proof (cases "node self c1 = None \<or> node t c1 = None \<or> l = Unreachable")
    case True
    with w show ?thesis by (auto simp: ReceiveFileFromNode_def l)
  next
    case False
    then obtain ts where ts: "node t c1 = Some ts" by auto
    obtain all e t' where g: "HyDFS_GetFile (Os c t) f ts = ((all, e), t')" by (metis surj_pair)
    have wt: "P t t'" using law_HyDFS_GetFile [OF law_node [OF w ts], of "Os c t" f] g by simp
    then have w2: "all_nodes P (put_node t t' c1)" using w by (intro law_put)
    have sv: "P self s" if "(if self = t then Some t' else node self c1) = Some s" for s
      using law_node [OF w2, of self s] that by simp
    show ?thesis
      using False w2 by (auto simp: ReceiveFileFromNode_def l ts g Let_def
          split: option.split prod.split intro!: law_intros wt dest: sv law_node [OF w])
  qed
qed

lemma law_moves: "P a s \<Longrightarrow> moves s s' \<Longrightarrow> P a s'"
  by (auto simp: moves_def intro!: P_Bandwidth P_Downloads P_LocalDirectory)

lemma law_slow_download [law_intros]:
  assumes c: "all_nodes P c"
  shows "all_nodes P (snd (slow_download self t f lf l sched c))"
proof (cases "node t c")
  case (Some ts)
  obtain all e t' where g: "HyDFS_GetFile (Os c t) f ts = ((all, e), t')" by (metis surj_pair)
  have "P t t'" using law_HyDFS_GetFile [OF law_node [OF c Some], of "Os c t" f] g by simp
  then have w: "all_nodes P (put_node t t' c)" using c by (intro law_put)
  have "P self s'" if "(if self = t then Some t' else node self c) = Some s"
    "run_until os k is (s\<lparr>Downloads := ds\<rparr>) = (r, s')" for s s' os k "is" ds r
    using law_moves [OF P_Downloads [OF law_node [OF w, of self s]], of ds s'] moves_run [of "s\<lparr>Downloads := ds\<rparr>" os k "is"] that
    by simp
  then show ?thesis using c w
    by (auto simp: slow_download_def Some g Let_def split: option.split prod.split intro!: law_put)
qed (use assms in \<open>simp add: slow_download_def\<close>)

lemma law_download_attempt [law_intros]:
  assumes "all_nodes P c"
  shows "all_nodes P (snd (download_attempt self t f lf c))"
proof -
  obtain l c1 where l: "next_link c = (l, c1)" by fastforce
  show ?thesis using assms law_next_link [OF assms l]
    by (auto simp: download_attempt_def l split: link.split intro!: law_intros)
qed

text \<open>Stabilization.\<close>

lemma law_fetchMetadataFromNode:
  "all_nodes P c \<Longrightarrow> fetchMetadataFromNode m a b c = (files, c1) \<Longrightarrow> all_nodes P c1"
  by (auto simp: fetchMetadataFromNode_def GetKeysMetadata_def split: prod.splits option.splits
      dest: law_read_call)

lemma law_push_append: "all_nodes P c \<Longrightarrow> all_nodes P (push_append self t ra app c)"
  by (auto simp: push_append_def split: option.split intro!: law_intros)

lemma law_push_file: "all_nodes P c \<Longrightarrow> all_nodes P (push_file self t sm f c)"
  unfolding push_file_def Let_def
  by (auto split: option.split intro!: fold_keeps [of _ "all_nodes P"] law_push_append law_intros)

lemma law_pushFilesToSuccessors [law_intros]:
  "all_nodes P c \<Longrightarrow> all_nodes P (pushFilesToSuccessors self fs succs a b c)"
  unfolding pushFilesToSuccessors_def
  by (rule fold_keeps [of _ "all_nodes P"])
    (auto split: prod.split intro!: fold_keeps [of _ "all_nodes P"] law_push_file dest: law_fetchMetadataFromNode)

lemma law_update_meta [law_intros]:
  "all_nodes P c \<Longrightarrow> (\<And>m. meta_step m (f m)) \<Longrightarrow> all_nodes P (update_meta self f c)"
  by (auto simp: update_meta_def split: option.split intro!: law_intros dest: law_node)

lemma law_pull_append: "all_nodes P c \<Longrightarrow> all_nodes P (pull_append self t f la ra c)"
  using law_ReceiveFileFromNode [of c self t "AppendID ra" True "AppendID ra"]
  by (auto simp: pull_append_def split: prod.split intro!: law_intros)

lemma law_pull_file: "all_nodes P c \<Longrightarrow> all_nodes P (pull_file self t sm f c)"
  using law_ReceiveFileFromNode [of c self t f True f]
  unfolding pull_file_def
  by (auto split: option.split prod.split bool.split intro!: fold_keeps [of _ "all_nodes P"] law_pull_append law_intros)

lemma law_getFilesFromSuccessors [law_intros]:
  "all_nodes P c \<Longrightarrow> all_nodes P (getFilesFromSuccessors self succs a b c)"
  unfolding getFilesFromSuccessors_def
  by (rule fold_keeps [of _ "all_nodes P"])
    (auto split: prod.split intro!: fold_keeps [of _ "all_nodes P"] law_pull_file dest: law_fetchMetadataFromNode)

lemma law_stabilizeRing [law_intros]: "all_nodes P c \<Longrightarrow> all_nodes P (stabilizeRing self f c)"
  by (auto simp: stabilizeRing_def split: option.split sum.split prod.split intro!: law_intros)

lemma law_handleReplicationWindowChange [law_intros]:
  "all_nodes P c \<Longrightarrow> all_nodes P (handleReplicationWindowChange self i c)"
  by (auto simp: handleReplicationWindowChange_def Let_def split: option.split intro!: law_intros)

lemma law_collect_file: "P a s \<Longrightarrow> P a (collect_file os lo hi f s)"
  by (auto simp: collect_file_def split: option.split intro!: law_intros)

lemma law_deleteFilesOutsideMyRange:
  "P a s \<Longrightarrow> deleteFilesOutsideMyRange os ord s = Inr s' \<Longrightarrow> P a s'"
  by (auto simp: deleteFilesOutsideMyRange_def Let_def split: if_splits sum.splits option.splits
      intro!: fold_keeps [of _ "P a"] law_collect_file)

lemma law_collector_tick [law_intros]: "all_nodes P c \<Longrightarrow> all_nodes P (collector_tick self c)"
  by (auto simp: collector_tick_def split: option.split sum.split
      intro!: law_intros dest: law_node law_deleteFilesOutsideMyRange)

text \<open>Client operations.\<close>

lemma law_send_all:
  "all_nodes P c \<Longrightarrow> (\<And>a c. all_nodes P c \<Longrightarrow> all_nodes P (snd (send a c))) \<Longrightarrow>
    send_all send as c = (n, c') \<Longrightarrow> all_nodes P c'"
proof (induction as arbitrary: c n)
  case (Cons a as)
  obtain ok c1 where s: "send a c = (ok, c1)" by fastforce
  then have "all_nodes P c1" using Cons.prems(2) [OF Cons.prems(1), of a] by simp
  with Cons s show ?case by (auto split: prod.splits)
qed simp

lemma law_handleCreate [law_intros]: "all_nodes P c \<Longrightarrow> all_nodes P (snd (handleCreate self sched now lf hf c))"
  by (auto simp: handleCreate_def split: option.split sum.split prod.split
      intro!: law_intros dest: law_send_all [OF _ law_SendFileToNode])

lemma law_handleAppend [law_intros]: "all_nodes P c \<Longrightarrow> all_nodes P (snd (handleAppend self sched now lf hf c))"
  by (auto simp: handleAppend_def split: option.split sum.split prod.split
      intro!: law_intros dest: law_send_all [OF _ law_SendAppendToNode])

lemma law_try_targets: "all_nodes P c \<Longrightarrow> all_nodes P (snd (try_targets self hf lf as c))"
proof (induction as arbitrary: c)
  case (Cons a as)
  then show ?case
    using law_download_attempt [OF Cons.prems, of self a hf lf] by (auto split: prod.split)
qed simp

lemma law_handleGet [law_intros]: "all_nodes P c \<Longrightarrow> all_nodes P (snd (handleGet self hf lf c))"
  by (auto simp: handleGet_def split: option.split sum.split intro!: law_intros law_try_targets)

lemma law_handleGetFromReplica [law_intros]:
  "all_nodes P c \<Longrightarrow> all_nodes P (snd (handleGetFromReplica self v hf lf c))"
  using law_ReceiveFileFromNode [of c self _ hf False lf]
  by (auto simp: handleGetFromReplica_def split: option.split)

lemma law_callGetFileMetadata: "all_nodes P c \<Longrightarrow> callGetFileMetadata a f c = (r, c1) \<Longrightarrow> all_nodes P c1"
  by (auto simp: callGetFileMetadata_def dest: law_read_call)

lemma law_ls_targets: "all_nodes P c \<Longrightarrow> all_nodes P (snd (ls_targets f as c))"
proof (induction as arbitrary: c)
  case (Cons a as)
  obtain r c1 where r: "callGetFileMetadata a f c = (r, c1)" by fastforce
  obtain found c2 where f: "ls_targets f as c1 = (found, c2)" by fastforce
  have "all_nodes P (snd (ls_targets f as c1))"
    by (rule Cons.IH [OF law_callGetFileMetadata [OF Cons.prems r]])
  then show ?case by (simp add: r f)
qed simp

lemma law_handleLS [law_intros]: "all_nodes P c \<Longrightarrow> all_nodes P (snd (handleLS self f c))"
  by (auto simp: handleLS_def split: option.split sum.split intro!: law_intros law_ls_targets)

lemma law_ensureRemoteFileInSync:
  "all_nodes P c \<Longrightarrow> ensureRemoteFileInSync self m f lm c = (ok, c1) \<Longrightarrow> all_nodes P c1"
  by (auto simp: ensureRemoteFileInSync_def split: prod.splits option.splits if_splits
      dest: law_callGetFileMetadata intro!: law_stabilizeRing)

lemma law_UpdateAppendOrder [law_intros]: "P a s \<Longrightarrow> P a (snd (UpdateAppendOrder f as s))"
  by (auto simp: UpdateAppendOrder_def split: option.split intro!: law_intros)

lemma law_CallUpdateAppendOrder: "all_nodes P c \<Longrightarrow> all_nodes P (snd (CallUpdateAppendOrder a f as c))"
  by (auto simp: CallUpdateAppendOrder_def intro!: law_makeRPCCall_snd law_intros)

lemma law_syncRemoteAppendOrder: "all_nodes P c \<Longrightarrow> all_nodes P (syncRemoteAppendOrder m f lm ids c)"
  by (auto simp: syncRemoteAppendOrder_def split: prod.split option.split
      dest: law_callGetFileMetadata intro!: law_CallUpdateAppendOrder)

lemma law_merge_successor: "all_nodes P c \<Longrightarrow> all_nodes P (merge_successor self f lm ids m c)"
  by (auto simp: merge_successor_def split: prod.split dest: law_ensureRemoteFileInSync
      intro!: law_syncRemoteAppendOrder)

lemma law_executeMerge [law_intros]: "all_nodes P c \<Longrightarrow> all_nodes P (executeMerge self f c)"
  by (auto simp: executeMerge_def split: option.split sum.split
      intro!: law_intros fold_keeps [of _ "all_nodes P"] law_merge_successor)

lemma law_executeMergeForAllFiles [law_intros]: "all_nodes P c \<Longrightarrow> all_nodes P (executeMergeForAllFiles self c)"
  by (auto simp: executeMergeForAllFiles_def split: option.split sum.split
      intro!: law_intros fold_keeps [of _ "all_nodes P"])

lemma law_handleMergeCommand [law_intros]: "all_nodes P c \<Longrightarrow> all_nodes P (snd (handleMergeCommand self f c))"
  by (auto simp: handleMergeCommand_def split: option.split sum.split prod.split list.split
      intro!: law_intros dest: law_next_link)

lemma law_CallMultiAppend:
  "all_nodes P c \<Longrightarrow> all_nodes P (snd (CallMultiAppend sched now a hf lf c))"
  by (auto simp: CallMultiAppend_def split: prod.split intro!: law_intros dest: law_next_link)

lemma law_multi_append: "all_nodes P c \<Longrightarrow> all_nodes P (snd (multi_append sched now hf ps c))"
proof (induction sched now hf ps c rule: multi_append.induct)
  case (2 sched now hf v lf rest c)
  show ?case
  proof (cases "map_of NodeMap v")
    case None
    with 2 show ?thesis by simp
  next
    case (Some a)
    obtain ok c1 where r: "CallMultiAppend sched now a hf lf c = (ok, c1)" by fastforce
    then have "all_nodes P c1" using law_CallMultiAppend [OF "2.prems", of sched now a hf lf] by simp
    with "2.IH"(2) [OF Some r [symmetric]] have "all_nodes P (snd (multi_append sched now hf rest c1))" .
    then show ?thesis by (cases "multi_append sched now hf rest c1") (simp add: Some r)
  qed
qed simp

lemma law_handleMultiAppend [law_intros]:
  "all_nodes P c \<Longrightarrow> all_nodes P (snd (handleMultiAppend self sched now hf vs ls c))"
  by (auto simp: handleMultiAppend_def intro!: law_intros law_multi_append)


end

section \<open>Commands\<close>

locale command_law = store_law +
  assumes P_Config [law_intros]: "P a s \<Longrightarrow> same_settings c (Config s) \<Longrightarrow> P a (s\<lparr>Config := c\<rparr>)"
    and P_leave [law_intros]: "P a s \<Longrightarrow> P a (leaveGroup now s)"
begin

lemma law_ProtocolSwitch [law_intros]: "P a s \<Longrightarrow> P a (snd (ProtocolSwitch p x s))"
  by (auto simp: ProtocolSwitch_def intro!: law_intros)

lemma law_handleSwitch [law_intros]: "all_nodes P c \<Longrightarrow> all_nodes P (snd (handleSwitch self p q c))"
  by (auto simp: handleSwitch_def Let_def split: option.split
      intro!: fold_keeps [of _ "all_nodes P"] law_makeRPCCall_snd law_intros dest: law_node)

lemma law_handleCommand [law_intros]: "all_nodes P c \<Longrightarrow> all_nodes P (handleCommand self sched pf now cmd c)"
  by (auto simp: handleCommand_def split: Command.split prod.split intro!: law_intros)


end

section \<open>Events\<close>

locale event_law = command_law +
  assumes P_merge [law_intros]: "P a s \<Longrightarrow> P a (mergeMembership clk ms sid s)"
    and P_Join [law_intros]: "P a s \<Longrightarrow> P a (snd (Join now m s))"
    and P_heartbeat [law_intros]: "P a s \<Longrightarrow> P a (increaseHeartbeat now s)"
    and P_detector [law_intros]: "P a s \<Longrightarrow> P a (snd (MarkSuspectIfNeeded clk st dt ct s))"
    and P_Goroutines [law_intros]: "P a s \<Longrightarrow> P a (s\<lparr>Goroutines := g\<rparr>)"
    and P_New [law_intros]: "map_of NodeMap n = Some a \<Longrightarrow> b = (a = IntroducerAddr initial_Config) \<Longrightarrow>
      P a (NewServer initial_Config created now fd ld a (IntroducerAddr initial_Config) b)"
begin

lemma law_Gossip [law_intros]: "P a s \<Longrightarrow> P a (snd (Gossip clk sid ms s))"
  by (simp add: Gossip_def law_intros)

lemma law_Ping [law_intros]: "P a s \<Longrightarrow> P a (snd (Ping clk sid ms s))"
  by (simp add: Ping_def Let_def law_intros)

lemma law_at_node:
  assumes "all_nodes P c" and "\<And>s. P self s \<Longrightarrow> P self (snd (h s))"
  shows "all_nodes P (snd (at_node self w h c))"
proof (cases "node self c")
  case (Some s)
  have "P self (snd (h s))" using assms(2) law_node [OF assms(1) Some] by blast
  with assms(1) Some show ?thesis by (cases "h s") (auto simp: at_node_def intro: law_put)
qed (use assms in \<open>simp add: at_node_def\<close>)

lemma law_handleRPCRequest [law_intros]: "all_nodes P c \<Longrightarrow> all_nodes P (snd (handleRPCRequest env self req c))"
  by (cases req) (auto simp: handleRPCRequest_def ExecuteCommand_def intro!: law_at_node law_intros)

lemma law_notifyIntroducer: "P a s \<Longrightarrow> notifyIntroducer clk r s = Some s' \<Longrightarrow> P a s'"
  by (auto simp: notifyIntroducer_def Let_def split: option.splits intro!: law_intros)

lemma law_start_node [law_intros]: "all_nodes P c \<Longrightarrow> all_nodes P (start_node env n fd ld c)"
  by (auto simp: start_node_def Let_def split: option.split prod.split
      intro!: law_intros dest: law_node law_makeRPCCall [where P = P, OF _ _ P_Join] law_notifyIntroducer [OF P_New])

lemma law_ping_answered: "P a s \<Longrightarrow> P a (ping_answered clk r resp i s)"
  by (auto simp: ping_answered_def split: option.split intro!: law_intros)

lemma law_run_call: "all_nodes P c \<Longrightarrow> all_nodes P (run_call env self call c)"
  by (cases call) (auto simp: run_call_def split: prod.split
      intro!: law_makeRPCCall_snd law_intros law_ping_answered dest: law_makeRPCCall [where P = P, OF _ _ law_Ping])

lemma law_message_tick: "all_nodes P (Sys y) \<Longrightarrow> all_nodes P (Sys (message_tick env self y))"
  by (auto simp: message_tick_def split: option.split sum.split
      intro!: law_intros fold_keeps [of _ "all_nodes P"] law_run_call)

lemma law_run_task [law_intros]: "all_nodes P c \<Longrightarrow> all_nodes P (run_task env self i c)"
  by (auto simp: run_task_def Let_def split: option.split Task.split intro!: law_intros dest: law_node)

lemma law_event_step: "all_nodes P (Sys y) \<Longrightarrow> all_nodes P (Sys (event_step x y))"
  by (cases x; cases "snd x") (auto simp: event_step_def intro!: law_intros law_message_tick law_moves [OF _ moves_step])

end

end
