(* ===== verification/System_Invariant.thy ===== *)
theory System_Invariant
  imports Node_Laws Failure_Detector
begin

text \<open>
  The laws of \<open>Node_Laws\<close> for the model's own properties of a node: that it is well-formed and keeps
  the identity it was started with (all events), that commands leave no goroutines behind, and that
  the operations on files touch nothing but files, metadata and traffic counters.
\<close>

section \<open>The identity of a node\<close>

definition fixed_part :: "Server \<Rightarrow> string \<times> instant \<times> bool \<times> int" where
  "fixed_part s = (Addr s, CreationTimestamp s, IsIntroducer s, ServerHash s)"

lemma fixed_part_update [simp]:
  "fixed_part (s\<lparr>Members := ms\<rparr>) = fixed_part s" "fixed_part (s\<lparr>IncarnationNumber := i\<rparr>) = fixed_part s"
  "fixed_part (handleDeadNode m s) = fixed_part s" "fixed_part (handleNewlyJoinedNode m s) = fixed_part s"
  "fixed_part (set_member m s) = fixed_part s"
  by (simp_all add: fixed_part_def handleDeadNode_def handleNewlyJoinedNode_def set_member_def)

lemma fixed_part_fold [simp]: "fixed_part (fold handleDeadNode ms s) = fixed_part s"
  by (induction ms arbitrary: s) simp_all

lemma fixed_part_merge_one: "fixed_part (merge_one now snap sid r s) = fixed_part s"
  by (cases rule: merge_one_cases [of now snap sid r s]) auto

lemma fixed_part_merge [simp]: "fixed_part (mergeMembership clk ms sid s) = fixed_part s"
proof -
  have "fixed_part (merge_loop clk snap sid ms s) = fixed_part s" for snap
    by (induction ms arbitrary: clk s) (simp_all add: fixed_part_merge_one)
  then show ?thesis by (simp add: mergeMembership_def)
qed

lemma fixed_part_detector [simp]:
  "wf_server s \<Longrightarrow> fixed_part (snd (MarkSuspectIfNeeded clk st dt ct s)) = fixed_part s"
  by (simp add: MarkSuspectIfNeeded_eq [OF wf_server_members refl])

text \<open>A node keeps its address, its ring position and its role, and the settings it was built with.\<close>

definition own_identity :: "string \<Rightarrow> Server \<Rightarrow> bool" where
  "own_identity a s \<longleftrightarrow> Addr s = a \<and> a \<in> ran (map_of NodeMap) \<and>
     IsIntroducer s = (a = IntroducerAddr initial_Config) \<and>
     ServerHash s = HashToMbits (HashBits (Config s)) a \<and> same_settings (Config s) initial_Config"

definition sound_node :: "string \<Rightarrow> Server \<Rightarrow> bool" where
  "sound_node a s \<longleftrightarrow> wf_server s \<and> own_identity a s"

lemma own_identity_fixed:
  "fixed_part s' = fixed_part s \<Longrightarrow> same_settings (Config s') (Config s) \<Longrightarrow> own_identity a s \<Longrightarrow> own_identity a s'"
  by (simp add: own_identity_def fixed_part_def same_settings_def)

lemma wf_meta_step: "wf_metadata m \<Longrightarrow> meta_step m m' \<Longrightarrow> wf_metadata m'"
  by (auto simp: meta_step_def intro: inv_intros wf_DeleteFile)

lemma same_settings_refl [simp]: "same_settings c c"
  by (simp add: same_settings_def)

interpretation sound: event_law sound_node
proof unfold_locales
  fix a s b d d' ds m c now clk ms sid st dt ct g
  show "sound_node a s \<Longrightarrow> sound_node a (s\<lparr>Bandwidth := b\<rparr>)"
    "sound_node a s \<Longrightarrow> sound_node a (s\<lparr>FileDirectory := d\<rparr>)"
    "sound_node a s \<Longrightarrow> sound_node a (s\<lparr>LocalDirectory := d'\<rparr>)"
    "sound_node a s \<Longrightarrow> sound_node a (s\<lparr>Downloads := ds\<rparr>)"
    "sound_node a s \<Longrightarrow> sound_node a (s\<lparr>Goroutines := g\<rparr>)"
    by (simp_all add: sound_node_def own_identity_def wf_server_def)
  show "sound_node a s \<Longrightarrow> meta_step (Meta s) m \<Longrightarrow> sound_node a (s\<lparr>Meta := m\<rparr>)"
    by (auto simp: sound_node_def own_identity_def wf_server_def intro: wf_meta_step)
  show "sound_node a s \<Longrightarrow> same_settings c (Config s) \<Longrightarrow> sound_node a (s\<lparr>Config := c\<rparr>)"
    by (simp add: sound_node_def own_identity_def wf_server_def same_settings_def)
  show "sound_node a s \<Longrightarrow> sound_node a (leaveGroup now s)"
    by (auto simp: sound_node_def leaveGroup_def split: option.split
        intro!: inv_intros elim: own_identity_fixed [rotated 2])
  show "sound_node a s \<Longrightarrow> sound_node a (mergeMembership clk ms sid s)"
    by (auto simp: sound_node_def intro: inv_intros own_identity_fixed)
  show "sound_node a s \<Longrightarrow> sound_node a (snd (Join now m' s))" for m'
    by (auto simp: sound_node_def Join_def Let_def intro!: inv_intros elim: own_identity_fixed [rotated 2])
  show "sound_node a s \<Longrightarrow> sound_node a (increaseHeartbeat now s)"
    by (simp add: sound_node_def wf_increaseHeartbeat) (simp add: own_identity_def increaseHeartbeat_def Let_def)
  show "sound_node a s \<Longrightarrow> sound_node a (snd (MarkSuspectIfNeeded clk st dt ct s))"
    by (auto simp: sound_node_def intro: inv_intros own_identity_fixed)
  show "map_of NodeMap n = Some a \<Longrightarrow> i = (a = IntroducerAddr initial_Config) \<Longrightarrow>
      sound_node a (NewServer initial_Config created now fd ld a (IntroducerAddr initial_Config) i)"
    for n i created fd ld
    by (auto simp: sound_node_def own_identity_def wf_NewServer ranI) (simp_all add: NewServer_def Let_def)
qed

interpretation system: event_machine event_step "\<lambda>y. all_nodes sound_node (Sys y)" "\<lambda>_. True"
  by unfold_locales (rule sound.law_event_step)

end
