(* ===== verification/File_Properties.thy ===== *)
theory File_Properties
  imports File_Streams Examples
begin

text \<open>
  The properties of file operations at one node: what an upload, an append and a download do, alone
  and one after the other, and where they fail.
\<close>

section \<open>A sequence of appends\<close>

definition received :: "AppendInfo \<times> bytes \<Rightarrow> AppendInfo" where
  "received x = (fst x)\<lparr>Size := int (length (snd x))\<rparr>"

definition receive_appends :: "os_faults \<Rightarrow> (AppendInfo \<times> bytes) list \<Rightarrow> Server \<Rightarrow> Server" where
  "receive_appends os apps s =
     fold (\<lambda>(a, d) s. snd (AppendTransfer os (append_chunks d a) False s)) apps s"

text \<open>Appends that can be stored: for this file, with data, under identifiers of their own.\<close>

definition good_appends :: "string \<Rightarrow> AppendInfo list \<Rightarrow> (AppendInfo \<times> bytes) list \<Rightarrow> bool" where
  "good_appends f old apps \<longleftrightarrow> distinct (map (AppendID \<circ> fst) apps) \<and>
     (\<forall>(a, d) \<in> set apps. AppFileName a = f \<and> AppendID a \<noteq> '''' \<and> AppendID a \<noteq> f \<and> d \<noteq> [] \<and>
       AppendID a \<notin> AppendID ` set old)"

lemma received_simps [simp]:
  "AppendID (received x) = AppendID (fst x)" "ClientID (received x) = ClientID (fst x)"
  "ClientTimestamp (received x) = ClientTimestamp (fst x)"
  by (simp_all add: received_def)

lemma receive_one:
  assumes "wf_metadata (Meta s)" and "GetFile (Meta s) f = Some meta"
    and "AppFileName a = f" "AppendID a \<noteq> ''''" "d \<noteq> []" "AppendID a \<notin> AppendID ` set (Appends meta)"
  defines "s1 \<equiv> snd (AppendTransfer no_faults (append_chunks d a) False s)"
  shows "wf_metadata (Meta s1)"
    and "GetFile (Meta s1) f = Some (insertAppend (received (a, d)) meta)"
    and "map_of (FileDirectory s1) = (map_of (FileDirectory s))(AppendID a \<mapsto> d)"
proof -
  have t: "AppendTransfer no_faults (append_chunks d a) False s =
      (UploadOk, s\<lparr>Bandwidth := fold (\<lambda>b. AddReceived (chunk_bytes b)) (chunks_of d) (Bandwidth s),
        FileDirectory := AList.update (AppendID a) d (FileDirectory s),
        Meta := snd (AppendToFile f (received (a, d)) (Meta s))\<rparr>)"
    using AppendTransfer_ok [of d a s meta no_faults] assms by (simp add: received_def)
  then show "wf_metadata (Meta s1)"
    "map_of (FileDirectory s1) = (map_of (FileDirectory s))(AppendID a \<mapsto> d)"
    using assms(1) by (simp_all add: s1_def wf_AppendToFile)
  have "getFileLock (Meta s) f" using assms(1,2) by (simp add: wf_metadata_def)
  then show "GetFile (Meta s1) f = Some (insertAppend (received (a, d)) meta)"
    using t AppendToFile_fresh(2) [of "Meta s" f meta "received (a, d)" f] assms(2,6) by (simp add: s1_def)
qed

lemma receive_appends_state:
  assumes "wf_metadata (Meta s)" and "GetFile (Meta s) f = Some meta" and "good_appends f (Appends meta) apps"
  shows "GetFile (Meta (receive_appends no_faults apps s)) f =
      Some (meta\<lparr>Appends := fold (\<lambda>a as. insert_append as a) (map received apps) (Appends meta)\<rparr>) \<and>
    map_of (FileDirectory (receive_appends no_faults apps s)) k =
      (case map_of (map (\<lambda>(a, d). (AppendID a, d)) apps) k of Some d \<Rightarrow> Some d | None \<Rightarrow> map_of (FileDirectory s) k)"
  using assms
proof (induction apps arbitrary: s meta)
  case Nil
  then show ?case by (simp add: receive_appends_def)
next
  case (Cons x apps)
  obtain a d where x: "x = (a, d)" by (cases x)
  define s1 where "s1 = snd (AppendTransfer no_faults (append_chunks d a) False s)"
  have ad: "AppFileName a = f" "AppendID a \<noteq> ''''" "d \<noteq> []" "AppendID a \<notin> AppendID ` set (Appends meta)"
    "AppendID a \<notin> (AppendID \<circ> fst) ` set apps"
    using Cons.prems(3) by (auto simp: good_appends_def x)
  note one = receive_one [OF Cons.prems(1,2) ad(1-4), folded s1_def]
  have "good_appends f (Appends (insertAppend (received (a, d)) meta)) apps"
    using Cons.prems(3) ad(5) by (auto simp: good_appends_def x rev_image_eqI)
  from Cons.IH [OF one(1,2) this] have IH:
    "GetFile (Meta (receive_appends no_faults apps s1)) f =
      Some (insertAppend (received (a, d)) meta\<lparr>Appends := fold (\<lambda>a as. insert_append as a) (map received apps)
        (insert_append (Appends meta) (received (a, d)))\<rparr>)"
    "map_of (FileDirectory (receive_appends no_faults apps s1)) k =
      (case map_of (map (\<lambda>(a, d). (AppendID a, d)) apps) k of Some d \<Rightarrow> Some d | None \<Rightarrow> map_of (FileDirectory s1) k)"
    by simp_all
  have "map_of (map (\<lambda>(a, d). (AppendID a, d)) apps) (AppendID a) = None"
    using ad(5) by (force simp: map_of_eq_None_iff)
  then show ?case
    using IH one(3) by (auto simp: receive_appends_def x insertAppend_def simp flip: s1_def split: option.split)
qed

section \<open>Uploads\<close>

text \<open>
  C27. An upload stores the file: chunked, sent and received without faults, a non-empty file with a
  name the node does not know yet is stored byte for byte under that name, its metadata is entered
  as sent (for name hashes that fit into 32 bits) with no appends, other files are untouched, and the
  receive counter grows by the size.
\<close>

theorem upload_stores:
  assumes data: "data \<noteq> []" and name: "FileName meta \<noteq> ''''" "FileContentHash meta \<noteq> ''''"
    and fresh: "GetFile (Meta s) (FileName meta) = None"
    and ok: "\<not> MkdirFails os" "WriteFails os (FileName meta) = None"
    and hash: "- (2 ^ 31) \<le> FileNameHash meta" "FileNameHash meta < 2 ^ 31"
  shows "\<exists>s'. FileTransfer os (file_chunks data meta) False s = Inr (UploadOk, s') \<and>
    map_of (FileDirectory s') = (map_of (FileDirectory s))(FileName meta \<mapsto> data) \<and>
    (\<forall>k. GetFile (Meta s') k = (if k = FileName meta then Some (meta\<lparr>Appends := []\<rparr>) else GetFile (Meta s) k)) \<and>
    BytesReceived (Bandwidth s') = BytesReceived (Bandwidth s) + of_nat (length data)"
  using FileTransfer_ok [OF data name fresh ok]
  by (simp add: GetFile_AddFile to_int32_small [OF hash] received_bytes chunked.split_concat)

theorem upload_stores_witness:
  "\<exists>s'. FileTransfer no_faults (file_chunks [1, 2, 3] (example_file ''a'' 200)) False example_server = Inr (UploadOk, s') \<and>
    map_of (FileDirectory s') ''a'' = Some [1, 2, 3] \<and> GetFile (Meta s') ''a'' = Some (example_file ''a'' 200)"
  using upload_stores [of "[1, 2, 3]" "example_file ''a'' 200" example_server no_faults]
  by (auto simp: example_file_def)

text \<open>
  An empty file cannot be uploaded: its stream has no chunk at all, so the receiver has no
  metadata and, as long as no file of the empty name exists, panics on the nil pointer; and an empty
  append is answered with an error for a file of the empty name, whatever file it was meant for.
\<close>

theorem empty_upload_panics:
  assumes "GetFile (Meta s) '''' = None" and "\<not> MkdirFails os"
  shows "FileTransfer os (file_chunks [] meta) False s = Inl NilDereference \<and>
    fst (AppendTransfer os (append_chunks [] a) False s) = UploadFailed NoSuchFile"
proof -
  have "chunks_of ([] :: bytes) = []" using chunked.split_Nil by blast
  with assms show ?thesis
    by (simp add: FileTransfer_def AppendTransfer_def file_chunks_def append_chunks_def saveFile_def no_chunk_def Let_def)
qed

theorem empty_upload_panics_witness:
  "FileTransfer no_faults (file_chunks [] (example_file ''a'' 200)) False example_server = Inl NilDereference"
  using empty_upload_panics [of example_server no_faults] by simp

section \<open>Reading back\<close>

text \<open>What a node serves after a file has been followed by appends.\<close>

lemma appended_contents:
  assumes "wf_metadata (Meta s)" and f: "GetFile (Meta s) f = Some meta" "FileName meta = f" "Appends meta = []"
    and data: "map_of (FileDirectory s) f = Some data"
    and apps: "good_appends f [] apps" "client_ordered (map fst apps)"
  shows "\<exists>chunks. fst (HyDFS_GetFile no_faults f (receive_appends no_faults apps s)) = (chunks, None) \<and>
    stream_data chunks = join_lines (data # map snd apps)"
proof -
  define s' where "s' = receive_appends no_faults apps s"
  have "client_ordered ([] @ map received apps)" using apps(2) by (simp add: client_ordered_def sorted_wrt_map)
  then have ord: "fold (\<lambda>a as. insert_append as a) (map received apps) [] = map received apps"
    using fold_insert_append_in_order by fastforce
  note state = receive_appends_state [OF assms(1) f(1) apps(1) [folded f(3)], folded s'_def]
  have G: "GetFile (Meta s') f = Some (meta\<lparr>Appends := map received apps\<rparr>)" using state by (simp add: f(3) ord)
  let ?stored = "map_of (map (\<lambda>(a, d). (AppendID a, d)) apps)"
  have base: "map_of (FileDirectory s') f = Some data"
  proof -
    have "?stored f = None" using apps(1) by (auto simp: good_appends_def map_of_eq_None_iff)
    then show ?thesis using state data by simp
  qed
  have app: "map_of (FileDirectory s') (AppendID a) = Some d" if "(a, d) \<in> set apps" for a d
  proof -
    have "distinct (map fst (map (\<lambda>(a, d). (AppendID a, d)) apps))"
      using apps(1) by (simp add: good_appends_def o_def split_beta')
    then have "?stored (AppendID a) = Some d" using that by (intro map_of_is_SomeI) force+
    then show ?thesis using state by simp
  qed
  let ?paths = "f # map AppendID (map received apps)"
  let ?content = "\<lambda>p. the (map_of (FileDirectory s') p)"
  have "\<forall>p \<in> set ?paths. map_of (FileDirectory s') p = Some (?content p) \<and> \<not> OpenFails no_faults p \<and>
      ReadFails no_faults p = None"
    using base app by fastforce
  from get_loop_data [OF this, of f]
  moreover have "map ?content ?paths = data # map snd apps" using base app by (auto simp: o_def)
  ultimately have "snd (get_loop no_faults (FileDirectory s') f ?paths) = None"
    "stream_data (fst (get_loop no_faults (FileDirectory s') f ?paths)) = join_lines (data # map snd apps)"
    by (simp_all only:)
  then show ?thesis
    using G f(2) by (simp add: HyDFS_GetFile_def Let_def prod_eq_iff del: get_loop.simps join_lines.simps flip: s'_def)
qed

text \<open>
  C18. What was written is read: after an upload and any number of appends of any clients, those of a
  client sent in the order of their timestamps, a download yields the file and its appends in order, separated by
  newlines, and writes exactly that to the local file.
\<close>

theorem create_append_get:
  assumes wf: "wf_metadata (Meta s)" and data: "data \<noteq> []"
    and name: "FileName meta \<noteq> ''''" "FileContentHash meta \<noteq> ''''"
    and fresh: "GetFile (Meta s) (FileName meta) = None"
    and apps: "good_appends (FileName meta) [] apps" "client_ordered (map fst apps)"
    and create: "FileTransfer no_faults (file_chunks data meta) False s = Inr (st, s1)"
    and get: "HyDFS_GetFile no_faults (FileName meta) (receive_appends no_faults apps s1) = ((chunks, e), s2)"
    and down: "receive_file no_faults (Some (chunks, e \<noteq> None)) localname dir bw = (success, dir', bw')"
  shows "st = UploadOk \<and> success \<and> map_of dir' (Base localname) = Some (join_lines (data # map snd apps))"
proof -
  let ?stored = "meta\<lparr>FileNameHash := to_int32 (FileNameHash meta), Appends := []\<rparr>"
  have st: "st = UploadOk" and m1: "Meta s1 = AddFile ?stored (Meta s)"
    and d1: "FileDirectory s1 = AList.update (FileName meta) data (FileDirectory s)"
    using create FileTransfer_ok [OF data name fresh, of no_faults] by auto
  have "wf_metadata (Meta s1)" "GetFile (Meta s1) (FileName meta) = Some ?stored"
    using wf by (simp_all add: m1 GetFile_AddFile wf_AddFile)
  from appended_contents [OF this _ _ _ apps, of data] get
  have "e = None" "stream_data chunks = join_lines (data # map snd apps)" by (simp_all add: d1)
  then show ?thesis
    using down st receive_loop_ok [of no_faults "Base localname" "AList.update (Base localname) [] dir" "[]" chunks bw]
    by (auto simp: receive_file_def Let_def simp del: join_lines.simps)
qed

definition example_append :: "string \<Rightarrow> string \<Rightarrow> AppendInfo" where
  "example_append i ts = \<lparr>AppFileName = ''a'', AppendID = i, ClientID = ''127.0.0.1:5000-0'',
     ClientTimestamp = ts, AppendHash = ''h'', Size = 0\<rparr>"

theorem create_append_get_witness:
  "\<exists>st s1 chunks e s2 success dir' bw'.
    FileTransfer no_faults (file_chunks [1, 2] (example_file ''a'' 200)) False example_server = Inr (st, s1) \<and>
    HyDFS_GetFile no_faults ''a'' (receive_appends no_faults
      [(example_append ''x'' ''1'', [3]), (example_append ''y'' ''2'', [4])] s1) = ((chunks, e), s2) \<and>
    receive_file no_faults (Some (chunks, e \<noteq> None)) ''local'' [] (Bandwidth s2) = (success, dir', bw') \<and>
    map_of dir' (Base ''local'') = Some (join_lines [[1, 2], [3], [4]])"
proof -
  let ?apps = "[(example_append ''x'' ''1'', [3]), (example_append ''y'' ''2'', [4 :: byte])]"
  obtain st s1 where c: "FileTransfer no_faults (file_chunks [1, 2] (example_file ''a'' 200)) False example_server = Inr (st, s1)"
    using FileTransfer_ok [of "[1, 2]" "example_file ''a'' 200" example_server no_faults]
    by (simp add: example_file_def)
  obtain chunks e s2 where g: "HyDFS_GetFile no_faults ''a'' (receive_appends no_faults ?apps s1) = ((chunks, e), s2)"
    by (metis surj_pair)
  obtain success dir' bw' where r: "receive_file no_faults (Some (chunks, e \<noteq> None)) ''local'' [] (Bandwidth s2) =
      (success, dir', bw')"
    by (metis surj_pair)
  have n: "FileName (example_file ''a'' 200) = ''a''" "FileContentHash (example_file ''a'' 200) = ''c''"
    by (simp_all add: example_file_def)
  have "map_of dir' (Base ''local'') = Some (join_lines ([1, 2] # map snd ?apps))"
    using create_append_get [of example_server "[1, 2]" "example_file ''a'' 200" ?apps st s1 chunks e s2
        "''local''" "[]" "Bandwidth s2" success dir' bw'] c g r
    by (simp add: n wf_new_Metadata good_appends_def client_ordered_def example_append_def)
  with c g r show ?thesis by (simp del: join_lines.simps)
qed

text \<open>
  An append under a known identifier replaces data: the receiver writes the file of the identifier
  before the metadata notices the duplicate, so the metadata stays, the answer is success, and the data
  of the earlier append is gone. Identifiers are built from the file, the client's name and the second
  of its clock, so two appends of a client within a second collide.
\<close>

theorem known_append_replaces_data:
  assumes wf: "wf_metadata (Meta s)" and stored: "GetFile (Meta s) (AppFileName a) = Some meta"
    and known: "AppendID a \<in> AppendID ` set (Appends meta)" and a: "AppendID a \<noteq> ''''" "data \<noteq> []"
    and ok: "\<not> MkdirFails os" "WriteFails os (AppendID a) = None"
  shows "\<exists>s'. AppendTransfer os (append_chunks data a) False s = (UploadOk, s') \<and> Meta s' = Meta s \<and>
    map_of (FileDirectory s') (AppendID a) = Some data"
proof -
  have "getFileLock (Meta s) (AppFileName a)" using wf stored by (simp add: wf_metadata_def)
  then have "AppendToFile (AppFileName a) (a\<lparr>Size := int (length data)\<rparr>) (Meta s) = (None, Meta s)"
    using stored known by (intro AppendToFile_known) simp_all
  then show ?thesis using AppendTransfer_ok [OF a(2,1) wf stored ok] by simp
qed

theorem known_append_replaces_data_witness:
  "\<exists>s s'. GetFile (Meta s) ''a'' = Some (example_file ''a'' 200\<lparr>Appends := [example_append ''x'' ''1'']\<rparr>) \<and>
    map_of (FileDirectory s) ''x'' = Some [3] \<and>
    AppendTransfer no_faults (append_chunks [4] (example_append ''x'' ''1'')) False s = (UploadOk, s') \<and>
    Meta s' = Meta s \<and> map_of (FileDirectory s') ''x'' = Some [4]"
proof -
  let ?f = "example_file ''a'' 200\<lparr>Appends := [example_append ''x'' ''1'']\<rparr>"
  let ?s = "example_server\<lparr>Meta := AddFile ?f new_Metadata, FileDirectory := [(''x'', [3])]\<rparr>"
  have n: "AppFileName (example_append ''x'' ''1'') = ''a''" "AppendID (example_append ''x'' ''1'') = ''x''"
    "FileName ?f = ''a''"
    by (simp_all add: example_append_def example_file_def)
  have g: "GetFile (Meta ?s) ''a'' = Some ?f" by (simp add: GetFile_AddFile n)
  obtain s' where s': "AppendTransfer no_faults (append_chunks [4] (example_append ''x'' ''1'')) False ?s = (UploadOk, s')"
      "Meta s' = Meta ?s" "map_of (FileDirectory s') ''x'' = Some [4]"
    using known_append_replaces_data [of ?s "example_append ''x'' ''1''" ?f "[4]" no_faults]
    by (auto simp: n g wf_AddFile wf_new_Metadata GetFile_AddFile)
  with g show ?thesis by (intro exI [of _ ?s] exI [of _ s']) simp
qed

text \<open>
  A failed download loses the local file: it is truncated before the first message and removed on
  an error, so whatever was stored under that name before, after a stream that ends in an error, for
  instance because the server does not know the file, there is none.
\<close>

theorem failed_download_removes_local:
  assumes os: "\<not> MkdirFails os" "\<not> OpenFails os (Base localname)" "\<not> RemoveFails os (Base localname)"
  shows "\<exists>dir' bw'. receive_file os (Some (chunks, True)) localname dir bw = (False, dir', bw') \<and>
    map_of dir' = (map_of dir)(Base localname := None)"
proof -
  obtain ok dir' bw' where r: "receive_loop os (Base localname) chunks True []
      (AList.update (Base localname) [] dir) bw = (ok, dir', bw')"
    by (metis surj_pair)
  with receive_loop_failed [OF os(3), of chunks "[]" "AList.update (Base localname) [] dir" bw] os
  show ?thesis by (simp add: receive_file_def Let_def)
qed

theorem failed_download_removes_local_witness:
  "\<exists>dir' bw'. receive_file no_faults (Some ([], True)) ''notes'' [(''notes'', [1])] \<lparr>BytesSent = 0, BytesReceived = 0\<rparr> =
      (False, dir', bw') \<and>
    map_of dir' = (map_of [(''notes'', [1])])(Base ''notes'' := None)"
  by (rule failed_download_removes_local) simp_all

section \<open>The order of appends\<close>

text \<open>
  C26. Replicas agree on each client's appends: two nodes that start from the same file without appends
  and receive the same appends in any two orders hold, for every client, the same appends in the
  same order, that of its timestamps, provided that no client uses a timestamp or an identifier
  twice.
\<close>

theorem appends_converge:
  assumes m: "wf_metadata m" "GetFile m f = Some meta" and m': "wf_metadata m'" "GetFile m' f = Some meta"
    and empty: "Appends meta = []" and perm: "mset xs = mset ys"
    and ids: "distinct (map AppendID xs)" and times: "distinct (map (\<lambda>a. (ClientID a, ClientTimestamp a)) xs)"
  shows "\<exists>g g'. GetFile (fold (\<lambda>a m. snd (AppendToFile f a m)) xs m) f = Some g \<and>
    GetFile (fold (\<lambda>a m. snd (AppendToFile f a m)) ys m') f = Some g' \<and>
    by_client c (Appends g) = by_client c (Appends g') \<and>
    sorted (map ClientTimestamp (by_client c (Appends g)))"
proof -
  have ids': "distinct (map AppendID ys)"
    using ids perm by (metis mset_eq_imp_distinct_iff mset_map)
  have g: "GetFile (fold (\<lambda>a m. snd (AppendToFile f a m)) xs m) f =
      Some (meta\<lparr>Appends := fold (\<lambda>a as. insert_append as a) xs []\<rparr>)"
    using fold_AppendToFile [OF m ids] empty by simp
  have g': "GetFile (fold (\<lambda>a m. snd (AppendToFile f a m)) ys m') f =
      Some (meta\<lparr>Appends := fold (\<lambda>a as. insert_append as a) ys []\<rparr>)"
    using fold_AppendToFile [OF m' ids'] empty by simp
  have inj: "inj_on ClientTimestamp (set (by_client c xs))"
    using times by (auto simp: by_client_def distinct_map inj_on_def)
  have "mset (by_client c xs) = mset (by_client c ys)"
    using perm by (simp add: by_client_def)
  then have "sort_key ClientTimestamp (by_client c xs) = sort_key ClientTimestamp (by_client c ys)"
    using inj by (intro sort_key_perm_inj) simp_all
  with g g' show ?thesis by (simp add: fold_insert_append_sorted)
qed

theorem appends_converge_witness:
  "\<exists>m g g'. GetFile (fold (\<lambda>a m. snd (AppendToFile ''a'' a m)) [example_append ''x'' ''1'', example_append ''y'' ''2''] m) ''a'' = Some g \<and>
    GetFile (fold (\<lambda>a m. snd (AppendToFile ''a'' a m)) [example_append ''y'' ''2'', example_append ''x'' ''1''] m) ''a'' = Some g' \<and>
    by_client ''127.0.0.1:5000-0'' (Appends g) = by_client ''127.0.0.1:5000-0'' (Appends g')"
proof -
  let ?m = "AddFile (example_file ''a'' 200) new_Metadata"
  have n: "FileName (example_file ''a'' 200) = ''a''" "Appends (example_file ''a'' 200) = []"
    by (simp_all add: example_file_def)
  have w: "wf_metadata ?m" and g: "GetFile ?m ''a'' = Some (example_file ''a'' 200)"
    by (simp_all add: wf_AddFile wf_new_Metadata GetFile_AddFile n)
  show ?thesis
    using appends_converge [OF w g w g n(2), of "[example_append ''x'' ''1'', example_append ''y'' ''2'']"
        "[example_append ''y'' ''2'', example_append ''x'' ''1'']" "''127.0.0.1:5000-0''"]
    by (intro exI [of _ ?m]) (auto simp: example_append_def add_mset_commute)
qed

end
