(* ===== verification/Calm_Cluster.thy ===== *)
theory Calm_Cluster
  imports Node_Laws File_Properties
begin

text \<open>
  A cluster without faults and lost calls: what one upload, one append, one download and a round of
  uploads to several targets change, and what a client sees of a file.
\<close>

section \<open>What a client sees\<close>

text \<open>What a download of the file from a node contains, without file system faults.\<close>

definition contents_at :: "string \<Rightarrow> string \<Rightarrow> Cluster \<Rightarrow> bytes option" where
  "contents_at a f c = map_option (\<lambda>s. stream_data (fst (fst (HyDFS_GetFile no_faults f s)))) (node a c)"

lemma contents_at_eq:
  assumes "map_option (\<lambda>s. (map_option (\<lambda>m. FileName m # map AppendID (Appends m)) (GetFile (Meta s) f),
      map (map_of (FileDirectory s)) paths)) (node a c) = Some (Some paths, map Some datas)"
  shows "contents_at a f c = Some (join_lines datas)"
proof -
  obtain s m where s: "node a c = Some s" "GetFile (Meta s) f = Some m" "FileName m # map AppendID (Appends m) = paths"
    and d: "map (map_of (FileDirectory s)) paths = map Some datas"
    using assms(1) by auto
  have "map_of (FileDirectory s) ` set paths = Some ` set datas" using d by (metis list.set_map)
  then have "map_of (FileDirectory s) p \<noteq> None" if "p \<in> set paths" for p
    using that by (metis imageE imageI option.distinct(1))
  then have "\<forall>p \<in> set paths. map_of (FileDirectory s) p = Some (the (map_of (FileDirectory s) p))" by simp
  moreover have "map (\<lambda>p. the (map_of (FileDirectory s) p)) paths = map the (map Some datas)"
    unfolding d [symmetric] by (simp add: o_def)
  ultimately show ?thesis
    using s get_loop_data [of paths "FileDirectory s" "\<lambda>p. the (map_of (FileDirectory s) p)" no_faults f]
    by (simp add: contents_at_def HyDFS_GetFile_def Let_def)
qed

lemma contents_stored:
  assumes "node a c = Some s" "GetFile (Meta s) f = Some m" "FileName m = f"
    and "\<forall>p \<in> set (f # map AppendID (Appends m)). map_of (FileDirectory s) p \<noteq> None"
  shows "contents_at a f c = Some (join_lines (map (\<lambda>p. the (map_of (FileDirectory s) p)) (f # map AppendID (Appends m))))"
  using assms by (intro contents_at_eq [where paths = "f # map AppendID (Appends m)"]) auto

lemma join_lines_snoc: "xs \<noteq> [] \<Longrightarrow> join_lines (xs @ [y]) = join_lines xs @ 10 # y"
  by (induction xs) auto

section \<open>Nodes up to their traffic counters\<close>

text \<open>A node without its traffic counters.\<close>

definition view :: "string \<Rightarrow> Cluster \<Rightarrow> Server option" where
  "view a c = map_option (\<lambda>s. s\<lparr>Bandwidth := \<lparr>BytesSent = 0, BytesReceived = 0\<rparr>\<rparr>) (node a c)"

definition store_file :: "FileMetadata \<Rightarrow> bytes \<Rightarrow> Server \<Rightarrow> Server" where
  "store_file meta data s =
     s\<lparr>FileDirectory := AList.update (FileName meta) data (FileDirectory s), Meta := AddFile meta (Meta s)\<rparr>"

text \<open>A cluster without faults and lost calls.\<close>

definition calm :: "Cluster \<Rightarrow> bool" where
  "calm c \<longleftrightarrow> Network c = [] \<and> Os c = (\<lambda>_. no_faults)"

lemma calm_next_link: "calm c \<Longrightarrow> next_link c = (Up, c)"
  by (simp add: calm_def next_link_def)

lemma calm_put [simp]: "calm (put_node a s c) = calm c"
  by (simp add: calm_def put_node_def)

lemma calm_add_sent [simp]: "calm (add_sent a ds c) = calm c"
  by (simp add: add_sent_def split: option.split)

lemma view_add_sent [simp]: "view a (add_sent b ds c) = view a c"
  by (simp add: add_sent_def view_def split: option.split)

lemma view_put: "view a (put_node b s c) =
    (if a = b then Some (s\<lparr>Bandwidth := \<lparr>BytesSent = 0, BytesReceived = 0\<rparr>\<rparr>) else view a c)"
  by (simp add: view_def)

lemma view_None: "view a c = None \<longleftrightarrow> node a c = None"
  by (simp add: view_def)

text \<open>From \<open>c\<close> to \<open>c1\<close> only the node at \<open>t\<close> has changed, to \<open>x\<close>, up to traffic counters.\<close>

definition becomes :: "string \<Rightarrow> Server \<Rightarrow> Cluster \<Rightarrow> Cluster \<Rightarrow> bool" where
  "becomes t x c c1 \<longleftrightarrow> calm c1 \<and> Ord c1 = Ord c \<and> (\<forall>b. view b c1 = (if b = t then Some x else view b c))"

lemma Ord_simps [simp]:
  "Ord (put_node a s c) = Ord c" "Ord (crash a c) = Ord c" "Ord (snd (next_link c)) = Ord c"
  by (simp_all add: put_node_def crash_def next_link_def split: list.split)

lemma Ord_add_sent [simp]: "Ord (add_sent a ds c) = Ord c"
  by (simp add: add_sent_def split: option.split)

lemma Ord_send [simp]:
  "calm c \<Longrightarrow> Ord (snd (SendFileToNode self t d m c)) = Ord c" "calm c \<Longrightarrow> Ord (snd (SendAppendToNode self t d a c)) = Ord c"
  by (simp_all add: SendFileToNode_def SendAppendToNode_def calm_next_link Let_def split: option.split sum.split prod.split)

lemma becomes_trans: "becomes t y c c1 \<Longrightarrow> becomes t z c1 c2 \<Longrightarrow> becomes t z c c2"
  by (simp add: becomes_def)

lemma becomes_refl: "calm c \<Longrightarrow> view t c = Some x \<Longrightarrow> becomes t x c c"
  by (simp add: becomes_def)

lemma becomes_view:
  assumes "becomes t x c c1"
  shows "calm c1" "Ord c1 = Ord c" "view t c1 = Some x" "self \<noteq> t \<Longrightarrow> view self c1 = view self c"
  using assms by (simp_all add: becomes_def)

lemma view_SomeE:
  assumes "view a c = Some s"
  obtains s0 where "node a c = Some s0" "Meta s = Meta s0" "FileDirectory s = FileDirectory s0" "Members s = Members s0"
    "Config s = Config s0" "ServerID s = ServerID s0"
  using assms by (auto simp: view_def ServerID_def)

section \<open>Uploads\<close>

lemma send_up:
  assumes c: "calm c" and "node self c \<noteq> None" and t: "view t c = Some x"
    and "GetFile (Meta x) (FileName meta) = None" and "data \<noteq> []" "FileName meta \<noteq> ''''" "FileContentHash meta \<noteq> ''''"
    and h: "- (2 ^ 31) \<le> FileNameHash meta" "FileNameHash meta < 2 ^ 31"
  shows "fst (SendFileToNode self t data meta c)"
    and "becomes t (store_file (meta\<lparr>Appends := []\<rparr>) data x) c (snd (SendFileToNode self t data meta c))"
proof -
  define c2 where "c2 = add_sent self (map Data (file_chunks data meta)) c"
  have os: "Os c t = no_faults" using c by (simp add: calm_def)
  have tc: "node t c \<noteq> None" using t view_None [of t c] by simp
  have "view t c2 = Some x" using t by (simp add: c2_def)
  then obtain y where y: "node t c2 = Some y" and yx: "x = y\<lparr>Bandwidth := \<lparr>BytesSent = 0, BytesReceived = 0\<rparr>\<rparr>"
    by (auto simp: view_def)
  have fresh: "GetFile (Meta y) (FileName meta) = None" using assms(4) yx by simp
  have "meta\<lparr>FileNameHash := to_int32 (FileNameHash meta), Appends := []\<rparr> = meta\<lparr>Appends := []\<rparr>"
    using to_int32_small [OF h] by simp
  then have "FileTransfer no_faults (file_chunks data meta) False y =
      Inr (UploadOk, y\<lparr>Bandwidth := fold (\<lambda>b. AddReceived (chunk_bytes b)) (chunks_of data) (Bandwidth y),
        FileDirectory := AList.update (FileName meta) data (FileDirectory y), Meta := AddFile (meta\<lparr>Appends := []\<rparr>) (Meta y)\<rparr>)"
    using FileTransfer_ok [OF assms(5-7) fresh, of no_faults] by simp
  then have "SendFileToNode self t data meta c = (True, put_node t
      (y\<lparr>Bandwidth := fold (\<lambda>b. AddReceived (chunk_bytes b)) (chunks_of data) (Bandwidth y),
        FileDirectory := AList.update (FileName meta) data (FileDirectory y), Meta := AddFile (meta\<lparr>Appends := []\<rparr>) (Meta y)\<rparr>) c2)"
    using assms(2) tc y by (simp add: SendFileToNode_def calm_next_link [OF c] Let_def os flip: c2_def)
  then show "fst (SendFileToNode self t data meta c)"
    "becomes t (store_file (meta\<lparr>Appends := []\<rparr>) data x) c (snd (SendFileToNode self t data meta c))"
    using c by (simp_all add: becomes_def view_put c2_def store_file_def yx)
qed

definition store_append :: "AppendInfo \<Rightarrow> bytes \<Rightarrow> Server \<Rightarrow> Server" where
  "store_append a d s = s\<lparr>FileDirectory := AList.update (AppendID a) d (FileDirectory s),
     Meta := snd (AppendToFile (AppFileName a) a (Meta s))\<rparr>"

lemma append_up:
  assumes c: "calm c" and "node self c \<noteq> None" and t: "view t c = Some x" "wf_metadata (Meta x)"
    and f: "GetFile (Meta x) (AppFileName a) \<noteq> None" and a: "AppendID a \<noteq> ''''" "d \<noteq> []" "Size a = int (length d)"
  shows "fst (SendAppendToNode self t d a c)" and "becomes t (store_append a d x) c (snd (SendAppendToNode self t d a c))"
proof -
  define c2 where "c2 = add_sent self (map AppendData (append_chunks d a)) c"
  have os: "Os c t = no_faults" using c by (simp add: calm_def)
  have tc: "node t c \<noteq> None" using t view_None [of t c] by simp
  have "view t c2 = Some x" using t by (simp add: c2_def)
  then obtain y where y: "node t c2 = Some y" and yx: "x = y\<lparr>Bandwidth := \<lparr>BytesSent = 0, BytesReceived = 0\<rparr>\<rparr>"
    by (auto simp: view_def)
  obtain m where "GetFile (Meta y) (AppFileName a) = Some m" using f yx by auto
  moreover have "a\<lparr>Size := int (length d)\<rparr> = a" using a(3) by simp
  ultimately have "AppendTransfer no_faults (append_chunks d a) False y =
      (UploadOk, y\<lparr>Bandwidth := fold (\<lambda>b. AddReceived (chunk_bytes b)) (chunks_of d) (Bandwidth y),
        FileDirectory := AList.update (AppendID a) d (FileDirectory y),
        Meta := snd (AppendToFile (AppFileName a) a (Meta y))\<rparr>)"
    using AppendTransfer_ok [OF a(2,1), of y m no_faults] t(2) yx by simp
  then have "SendAppendToNode self t d a c = (True, put_node t
      (y\<lparr>Bandwidth := fold (\<lambda>b. AddReceived (chunk_bytes b)) (chunks_of d) (Bandwidth y),
        FileDirectory := AList.update (AppendID a) d (FileDirectory y),
        Meta := snd (AppendToFile (AppFileName a) a (Meta y))\<rparr>) c2)"
    using assms(2) tc y
    by (auto simp: SendAppendToNode_def calm_next_link [OF c] Let_def os c2_def [symmetric])
  then show "fst (SendAppendToNode self t d a c)" "becomes t (store_append a d x) c (snd (SendAppendToNode self t d a c))"
    using c by (simp_all add: becomes_def view_put c2_def store_append_def yx)
qed

lemma store_append_new:
  assumes "wf_metadata (Meta x)" and "GetFile (Meta x) (AppFileName a) = Some m" and "AppendID a \<notin> AppendID ` set (Appends m)"
  shows "wf_metadata (Meta (store_append a d x))"
    and "GetFile (Meta (store_append a d x)) k =
      (if k = AppFileName a then Some (insertAppend a m) else GetFile (Meta x) k)"
    and "map_of (FileDirectory (store_append a d x)) = (map_of (FileDirectory x))(AppendID a \<mapsto> d)"
proof -
  have "getFileLock (Meta x) (AppFileName a)" using assms(1,2) by (simp add: wf_metadata_def)
  then show "GetFile (Meta (store_append a d x)) k =
      (if k = AppFileName a then Some (insertAppend a m) else GetFile (Meta x) k)"
    using AppendToFile_fresh(2) [of "Meta x" "AppFileName a" m a k] assms(2,3) by (simp add: store_append_def)
qed (use assms(1) in \<open>simp_all add: store_append_def wf_AppendToFile update_conv'\<close>)

lemma same_mset:
  assumes "mset xs = mset ys"
  shows "set xs = set ys" "length xs = length ys" "distinct xs = distinct ys"
  using assms by (metis set_mset_mset, metis size_mset, metis mset_eq_imp_distinct_iff)

text \<open>A round of uploads that succeed one by one succeeds, and changes each target.\<close>

lemma send_all_up:
  assumes send: "\<And>a c x. a \<in> set as \<Longrightarrow> calm c \<Longrightarrow> node self c \<noteq> None \<Longrightarrow> view a c = Some x \<Longrightarrow> P x \<Longrightarrow>
      fst (send a c) \<and> becomes a (g x) c (snd (send a c))"
    and "calm c" "node self c \<noteq> None" "distinct as" "\<forall>a \<in> set as. \<exists>x. view a c = Some x \<and> P x"
    and "send_all send as c = (n, c1)"
  shows "n = length as \<and> calm c1 \<and> (\<forall>a. view a c1 = (if a \<in> set as then map_option g (view a c) else view a c))"
  using assms
proof (induction as arbitrary: c n)
  case (Cons a as)
  obtain c2 where c2: "send a c = (True, c2)" and b: "becomes a (g (the (view a c))) c c2"
    using Cons.prems(1) [of a c] Cons.prems(2,3,5) by (cases "send a c") fastforce
  obtain n' where r: "send_all send as c2 = (n', c1)" "n = Suc n'"
    using Cons.prems(6) by (auto simp: c2 split: prod.splits)
  note up = becomes_view [OF b]
  have same: "view u c2 = view u c" if "u \<noteq> a" for u using up(4) that by simp
  have "node self c2 \<noteq> None"
    using Cons.prems(3) up(3) same [of self] view_None [of self c2] view_None [of self c] by (cases "self = a") auto
  moreover have "\<forall>u \<in> set as. \<exists>x. view u c2 = Some x \<and> P x"
    using Cons.prems(4,5) same by (metis distinct.simps(2) list.set_intros(2))
  ultimately have "n' = length as \<and> calm c1 \<and>
      (\<forall>u. view u c1 = (if u \<in> set as then map_option g (view u c2) else view u c2))"
    using Cons.prems(1,4) up(1) r(1) by (intro Cons.IH) simp_all
  moreover have "view u c1 = map_option g (view u c)" if "u \<in> set as" for u
  proof -
    have "u \<noteq> a" using that Cons.prems(4) by auto
    then show ?thesis using calculation that same by simp
  qed
  ultimately show ?case using up(3) same r(2) Cons.prems(4,5) by auto
qed simp

section \<open>Downloads\<close>

lemma put_node_same: "node a c = Some s \<Longrightarrow> put_node a s c = c"
proof -
  have "map_of xs a = Some s \<Longrightarrow> AList.update a s xs = xs" for xs by (induction xs) auto
  then show "node a c = Some s \<Longrightarrow> put_node a s c = c" by (simp add: node_def put_node_def)
qed

lemma get_loop_calm: "snd (get_loop no_faults dir f paths) = None"
  by (induction paths) (auto simp: Let_def split: option.split prod.split)

lemma receive_up:
  assumes c: "calm c" and t: "node t c = Some x" "GetFile (Meta x) f \<noteq> None" and r: "node self c = Some y"
    and recv: "ReceiveFileFromNode self t f False lf c = (ok, c1)"
  shows "ok \<and> (\<exists>y'. node self c1 = Some y' \<and> map_of (LocalDirectory y') (Base lf) = contents_at t f c)"
proof -
  have os: "Os c a = no_faults" for a using c by (simp add: calm_def)
  obtain all e t' where g: "HyDFS_GetFile no_faults f x = ((all, e), t')" by (metis surj_pair)
  have "snd (fst (HyDFS_GetFile no_faults f x)) = None"
    using t(2) by (auto simp: HyDFS_GetFile_def Let_def get_loop_calm simp del: get_loop.simps)
  then have "e = None" by (simp add: g)
  have cont: "contents_at t f c = Some (stream_data all)" using t(1) g by (simp add: contents_at_def)
  define c2 where "c2 = put_node t t' c"
  define s where "s = (if self = t then t' else y)"
  obtain ok' dir bw where rf: "receive_file no_faults (Some (all, False)) lf (LocalDirectory s) (Bandwidth s) = (ok', dir, bw)"
    by (metis surj_pair)
  have "ok' \<and> map_of dir (Base lf) = Some (stream_data all)"
    using rf receive_loop_ok [of no_faults "Base lf" "AList.update (Base lf) [] (LocalDirectory s)" "[]" all "Bandwidth s"]
    by (simp add: receive_file_def Let_def)
  moreover have "ReceiveFileFromNode self t f False lf c =
      (ok', put_node self (s\<lparr>LocalDirectory := dir, Downloads := unlink dir (Downloads s), Bandwidth := bw\<rparr>) c2)"
    using t(1) r g \<open>e = None\<close> rf
    by (simp add: ReceiveFileFromNode_def arriving_def calm_next_link [OF c] os Let_def s_def c2_def split: if_splits)
  ultimately show ?thesis using recv cont by auto
qed

lemma get_reads:
  assumes c: "calm c" and r: "node r c = Some s"
    and ts: "findTargetNodes (Members s) (file_hash s f) (ReplicationFactor (Config s)) = Inr (t # ts)"
    and x: "node (Address t) c = Some x" "GetFile (Meta x) f \<noteq> None"
    and get: "handleGet r f lf c = (src, c')"
  shows "src = Some (Address t) \<and>
    (\<exists>y. node r c' = Some y \<and> map_of (LocalDirectory y) (Base lf) = contents_at (Address t) f c)"
proof -
  obtain ok c1 where recv: "ReceiveFileFromNode r (Address t) f False lf c = (ok, c1)" by fastforce
  note down = receive_up [OF c x r recv]
  have "handleGet r f lf c = try_targets r f lf (map Address (t # ts)) c"
    using r ts by (simp add: handleGet_def GetAll_def file_hash_def)
  moreover have "download_attempt r (Address t) f lf c = (ok, c1)"
    using recv by (simp add: download_attempt_def calm_next_link [OF c])
  ultimately have "src = Some (Address t)" "c' = c1" using get down by auto
  with down show ?thesis by blast
qed

end
