(* ===== verification/Cluster_Properties.thy ===== *)
theory Cluster_Properties
  imports System_Invariant Calm_Cluster Placement
begin

text \<open>
  The properties that span nodes: the invariant over every run, that a created file is on its targets
  and can be read by anyone, what the garbage collector keeps, and what merging, stabilizing and
  joining do to the data.
\<close>

section \<open>Example states\<close>

definition example_env :: Env where
  "example_env = \<lparr>Clk = (\<lambda>_. 0), Sched = id, Shuffle = id, Rand = Finite 0, ParseFloat = (\<lambda>_. None)\<rparr>"

definition empty_system :: System where
  "empty_system = \<lparr>Sys = \<lparr>Nodes = [], Network = [], Os = (\<lambda>_. no_faults), Ord = id\<rparr>,
     Robin = (\<lambda>_. initial_round_robin)\<rparr>"

text \<open>Three nodes that know each other; the first has a local file.\<close>

definition trio :: "Member list" where
  "trio = [example_member ''127.0.0.1:5000'' 29 StatusAlive, example_member ''127.0.0.1:5002'' 60 StatusAlive,
     example_member ''127.0.0.1:5001'' 88 StatusAlive]"

definition trio_server :: "string \<Rightarrow> Server" where
  "trio_server addr = example_server\<lparr>Addr := addr, Members := trio, LocalDirectory := [(''a.txt'', [1, 2, 3])]\<rparr>"

definition trio_cluster :: Cluster where
  "trio_cluster = \<lparr>Nodes = map (\<lambda>a. (a, trio_server a)) [''127.0.0.1:5000'', ''127.0.0.1:5001'', ''127.0.0.1:5002''],
     Network = [], Os = (\<lambda>_. no_faults), Ord = id\<rparr>"

lemma trio_simps [simp]:
  "Members (trio_server a) = trio" "Config (trio_server a) = example_config" "Meta (trio_server a) = new_Metadata"
  "Addr (trio_server a) = a" "LocalDirectory (trio_server a) = [(''a.txt'', [1, 2, 3])]"
  "Network trio_cluster = []" "Os trio_cluster = (\<lambda>_. no_faults)" "Ord trio_cluster = id"
  by (simp_all add: trio_server_def trio_cluster_def example_server_def)

lemma ServerID_trio [simp]: "ServerID (trio_server a) = a @ ''-0''"
  by (simp add: ServerID_def trio_server_def example_server_def node_id_def Unix_def itoa_def digits.simps)

lemma node_trio [simp]:
  "node a trio_cluster = (if a \<in> {''127.0.0.1:5000'', ''127.0.0.1:5001'', ''127.0.0.1:5002''}
    then Some (trio_server a) else None)"
  by (auto simp: node_def trio_cluster_def)

lemma trio_nodes: "m \<in> set trio \<Longrightarrow> node (Address m) trio_cluster = Some (trio_server (Address m))"
  by (auto simp: trio_def)

lemma trio_targets:
  "\<exists>ts. findTargetNodes trio h 3 = Inr ts \<and> ts \<noteq> [] \<and> distinct (map Address ts) \<and> set ts \<subseteq> set trio \<and>
    length ts = 3"
proof -
  have "0 < length trio" "IsAlive (trio ! 0)" by (simp_all add: trio_def)
  then obtain p where p: "p < length trio" "primaryIndex trio h = int p" by (rule primaryIndex_cases)
  have alive: "\<forall>m \<in> set trio. IsAlive m" by (simp add: trio_def)
  have "nat 3 = Suc (Suc (Suc 0))" by simp
  then have t: "findTargetNodes trio h 3 = Inr (map (\<lambda>j. trio ! ((p + j) mod 3)) [0, 1, 2])"
    using findTargetNodes_all_alive [OF alive p, of 3] by (simp add: trio_def upt_conv_Cons)
  have "p = 0 \<or> p = 1 \<or> p = 2" using p(1) by (auto simp: trio_def)
  then show ?thesis unfolding t by (elim disjE) (simp_all add: trio_def)
qed

section \<open>The invariant\<close>

text \<open>What is reachable from an empty system, where every process has been started in the model.\<close>

lemma reachable_sound:
  assumes "Nodes (Sys y) = []" and "node a (Sys (fold event_step es y)) = Some s"
  shows "sound_node a s"
proof -
  have "all_nodes sound_node (Sys y)" using assms(1) by (simp add: all_nodes_def node_def)
  then have "all_nodes sound_node (Sys (fold event_step es y))" by (intro system.run_good) simp_all
  then show ?thesis using assms(2) by (rule law_node)
qed

text \<open>
  C14. Nothing breaks a node's state: after any sequence of events (starts and crashes of nodes, any
  requests, well-formed or not, ticks, commands, stabilizations), with any network outcomes, file system
  faults, clocks and orders, every node's membership list is sorted by ring position and holds no
  identity twice, and its metadata is stored under its own names.
\<close>

theorem cluster_invariant:
  assumes start: "Nodes (Sys y) = []" and run: "y' = fold event_step es y"
    and s: "node a (Sys y') = Some s"
  shows "sorted (map Hash (Members s)) \<and> distinct (map ID (Members s)) \<and>
    (\<forall>k f. GetFile (Meta s) k = Some f \<longrightarrow> FileName f = k)"
proof -
  have "sound_node a s" using s unfolding run by (rule reachable_sound [OF start])
  then show ?thesis by (simp add: sound_node_def wf_server_def wf_members_def wf_metadata_def)
qed

lemma started:
  "\<exists>s. node ''127.0.0.1:5000'' (Sys (fold event_step [(example_env, Start ''vm1'' [] [])] empty_system)) = Some s"
  by (simp add: event_step_def start_node_def node_def put_node_def empty_system_def NodeMap_def
      initial_Config_def Let_def)

theorem cluster_invariant_witness:
  "\<exists>s. node ''127.0.0.1:5000'' (Sys (fold event_step [(example_env, Start ''vm1'' [] [])] empty_system)) = Some s \<and>
    sorted (map Hash (Members s)) \<and> distinct (map ID (Members s)) \<and>
    (\<forall>k f. GetFile (Meta s) k = Some f \<longrightarrow> FileName f = k)"
proof -
  obtain s where
    s: "node ''127.0.0.1:5000'' (Sys (fold event_step [(example_env, Start ''vm1'' [] [])] empty_system)) = Some s"
    using started by blast
  with cluster_invariant [OF _ refl s] show ?thesis by (simp add: empty_system_def)
qed

text \<open>
  C25. A process is what it was started as: after any events, the node that answers at an address of
  the node table believes that this is its address, is the introducer exactly if it is the configured
  one, keeps the ring position of its address, which is a number below 256, and uses three replicas.
\<close>

theorem node_identity:
  assumes start: "Nodes (Sys y) = []" and s: "node a (Sys (fold event_step es y)) = Some s"
  shows "Addr s = a \<and> a \<in> snd ` set NodeMap \<and> (IsIntroducer s \<longleftrightarrow> a = ''127.0.0.1:5000'') \<and>
    ServerHash s = HashToMbits 8 a \<and> 0 \<le> ServerHash s \<and> ServerHash s < 256 \<and> ReplicationFactor (Config s) = 3"
proof -
  have i: "own_identity a s" using reachable_sound [OF start s] by (simp add: sound_node_def)
  then have "a \<in> snd ` set NodeMap" by (force simp: own_identity_def ran_def dest: map_of_SomeD)
  with i HashToMbits_range [of 8 a] show ?thesis
    by (simp add: own_identity_def same_settings_def initial_Config_def)
qed

theorem node_identity_witness:
  "\<exists>s. node ''127.0.0.1:5000'' (Sys (fold event_step [(example_env, Start ''vm1'' [] [])] empty_system)) = Some s \<and>
    Addr s = ''127.0.0.1:5000'' \<and> IsIntroducer s \<and> ServerHash s < 256"
proof -
  obtain s where
    s: "node ''127.0.0.1:5000'' (Sys (fold event_step [(example_env, Start ''vm1'' [] [])] empty_system)) = Some s"
    using started by blast
  with node_identity [OF _ s] show ?thesis by (simp add: empty_system_def)
qed

section \<open>Creating and reading a file\<close>

lemma reader_kept:
  assumes "\<forall>a. view a c1 = (if a \<in> A then map_option g (view a c) else view a c)" and r: "node r c = Some s"
    and "\<And>x. Members (g x) = Members x \<and> Config (g x) = Config x"
  shows "\<exists>y. node r c1 = Some y \<and> Members y = Members s \<and> Config y = Config s"
proof -
  have "view r c = Some (s\<lparr>Bandwidth := \<lparr>BytesSent = 0, BytesReceived = 0\<rparr>\<rparr>)" using r by (simp add: view_def)
  then obtain y where "view r c1 = Some y" "Members y = Members s" "Config y = Config s"
    using assms(1,3) by (cases "r \<in> A") auto
  then show ?thesis by (auto elim: view_SomeE)
qed

lemma create_stores:
  assumes c: "calm c" and s: "node self c = Some s" and name: "f \<noteq> ''''" and bits: "HashBits (Config s) \<le> 31"
    and ts: "findTargetNodes (Members s) (file_hash s f) (ReplicationFactor (Config s)) = Inr ts"
    and ts': "ts \<noteq> []" "distinct (map Address ts)"
    and known: "\<forall>t \<in> set ts. \<exists>x. node (Address t) c = Some x \<and> GetFile (Meta x) f = None"
    and data: "map_of (LocalDirectory s) (Base lf) = Some data" "data \<noteq> []"
    and sched: "\<And>xs. mset (sched xs) = mset xs"
    and create: "handleCreate self sched now lf f c = (out, c1)"
  shows "out = Completed (length ts) (length ts) \<and> calm c1 \<and> (\<forall>a. view a c1 =
    (if a \<in> Address ` set ts then map_option (store_file (new_file now s f data) data) (view a c) else view a c))"
proof -
  let ?m = "new_file now s f data"
  let ?as = "sched (map Address ts)"
  have m: "FileName ?m = f" "FileContentHash ?m \<noteq> ''''" "?m\<lparr>Appends := []\<rparr> = ?m" "FileNameHash ?m = file_hash s f"
    by (simp_all add: new_file_def contentHash_nonempty)
  have "0 \<le> file_hash s f \<and> file_hash s f < 2 ^ HashBits (Config s)"
    unfolding file_hash_def using HashToMbits_range by blast
  moreover have "(2 :: int) ^ HashBits (Config s) \<le> 2 ^ 31" using bits by (intro power_increasing) simp_all
  ultimately have h: "- (2 ^ 31) \<le> FileNameHash ?m" "FileNameHash ?m < 2 ^ 31" unfolding m(4) by linarith+
  have as: "set ?as = Address ` set ts" "distinct ?as" "length ?as = length ts"
    using same_mset [OF sched [of "map Address ts"]] ts'(2) by simp_all
  have os: "Os c self = no_faults" using c by (simp add: calm_def)
  obtain n where n: "send_all (\<lambda>a. SendFileToNode self a data ?m) ?as c = (n, c1)" "out = Completed n (length ts)"
    using create s ts ts'(1) data(1) by (auto simp: handleCreate_def GetAll_def ReadFile_def os split: prod.splits)
  have "\<forall>a \<in> set ?as. \<exists>x. view a c = Some x \<and> GetFile (Meta x) f = None"
    using known by (fastforce simp: as(1) view_def)
  moreover have "fst (SendFileToNode self a data ?m c) \<and> becomes a (store_file ?m data x) c (snd (SendFileToNode self a data ?m c))"
    if "calm c" "node self c \<noteq> None" "view a c = Some x" "GetFile (Meta x) f = None" for a c x
    using send_up [OF that(1-3), of ?m data] that(4) data(2) name m h by simp
  ultimately have "n = length ?as \<and> calm c1 \<and>
      (\<forall>a. view a c1 = (if a \<in> set ?as then map_option (store_file ?m data) (view a c) else view a c))"
    using s by (intro send_all_up [where self = self, OF _ c _ as(2) _ n(1)]) simp_all
  then show ?thesis using n(2) by (simp only: as) simp
qed

text \<open>
  C1. A created file can be read by every node: without faults, \<open>handleCreate\<close> of a new non-empty file
  stores it with its metadata at each of its targets and reports all of them; and then a \<open>handleGet\<close>
  at any node with the same view of the ring is answered by the primary and leaves exactly the
  created contents in the local file.
\<close>

theorem create_then_get:
  assumes c: "calm c" and s: "node self c = Some s" and name: "f \<noteq> ''''" and bits: "HashBits (Config s) \<le> 31"
    and ts: "findTargetNodes (Members s) (file_hash s f) (ReplicationFactor (Config s)) = Inr ts"
    and ts': "ts \<noteq> []" "distinct (map Address ts)"
    and known: "\<forall>t \<in> set ts. \<exists>x. node (Address t) c = Some x \<and> GetFile (Meta x) f = None"
    and data: "map_of (LocalDirectory s) (Base lf) = Some data" "data \<noteq> []"
    and sched: "\<And>xs. mset (sched xs) = mset xs"
    and create: "handleCreate self sched now lf f c = (out, c1)"
    and r: "node r c = Some sr" "Members sr = Members s" "Config sr = Config s"
    and get: "handleGet r f lf' c1 = (src, c2)"
  shows "out = Completed (length ts) (length ts) \<and>
    (\<forall>t \<in> set ts. \<exists>x. node (Address t) c1 = Some x \<and> GetFile (Meta x) f = Some (new_file now s f data) \<and>
      map_of (FileDirectory x) f = Some data) \<and>
    src = Some (Address (hd ts)) \<and>
    (\<exists>x. node r c2 = Some x \<and> map_of (LocalDirectory x) (Base lf') = Some data)"
proof -
  let ?m = "new_file now s f data"
  have m: "FileName ?m = f" "Appends ?m = []" by (simp_all add: new_file_def)
  note up = create_stores [OF c s name bits ts ts' known data sched create]
  have stored: "\<exists>x. view (Address t) c1 = Some x \<and> GetFile (Meta x) f = Some ?m \<and> map_of (FileDirectory x) f = Some data"
    if "t \<in> set ts" for t
    using that known up by (fastforce simp: view_def store_file_def GetFile_AddFile m)
  obtain t0 ts0 where t0: "ts = t0 # ts0" using ts'(1) by (cases ts) auto
  obtain x0 where x0: "node (Address t0) c1 = Some x0" "GetFile (Meta x0) f = Some ?m" "map_of (FileDirectory x0) f = Some data"
    using stored [of t0] t0 by (auto simp: view_def)
  obtain y where y: "node r c1 = Some y" "Members y = Members sr" "Config y = Config sr"
    using reader_kept [OF up [THEN conjunct2, THEN conjunct2] r(1)] by (auto simp: store_file_def)
  then have "findTargetNodes (Members y) (file_hash y f) (ReplicationFactor (Config y)) = Inr (t0 # ts0)"
    using ts r(2,3) by (simp add: file_hash_def t0)
  moreover have "contents_at (Address t0) f c1 = Some (join_lines [data])"
    using x0 m by (intro contents_at_eq [where paths = "[f]"]) simp
  ultimately have "src = Some (Address t0)" "\<exists>y. node r c2 = Some y \<and> map_of (LocalDirectory y) (Base lf') = Some data"
    using get_reads [OF _ y(1) _ x0(1) _ get] up x0(2) by simp_all
  moreover have "\<exists>x. node (Address t) c1 = Some x \<and> GetFile (Meta x) f = Some ?m \<and> map_of (FileDirectory x) f = Some data"
    if "t \<in> set ts" for t
    using stored [OF that] by (auto simp: view_def)
  ultimately show ?thesis using up t0 by simp
qed

theorem create_then_get_witness:
  "\<exists>ts out c1 src c2. findTargetNodes trio (file_hash (trio_server ''127.0.0.1:5000'') ''f'') 3 = Inr ts \<and>
    handleCreate ''127.0.0.1:5000'' id 0 ''a.txt'' ''f'' trio_cluster = (out, c1) \<and>
    handleGet ''127.0.0.1:5001'' ''f'' ''b.txt'' c1 = (src, c2) \<and>
    out = Completed (length ts) (length ts) \<and> src = Some (Address (hd ts)) \<and>
    (\<exists>x. node ''127.0.0.1:5001'' c2 = Some x \<and> map_of (LocalDirectory x) ''b.txt'' = Some [1, 2, 3])"
proof -
  obtain ts where ts: "findTargetNodes trio (file_hash (trio_server ''127.0.0.1:5000'') ''f'') 3 = Inr ts"
    "ts \<noteq> []" "distinct (map Address ts)" "set ts \<subseteq> set trio"
    using trio_targets by blast
  obtain out c1 where c: "handleCreate ''127.0.0.1:5000'' id 0 ''a.txt'' ''f'' trio_cluster = (out, c1)" by fastforce
  obtain src c2 where g: "handleGet ''127.0.0.1:5001'' ''f'' ''b.txt'' c1 = (src, c2)" by fastforce
  have "out = Completed (length ts) (length ts) \<and>
    (\<forall>t \<in> set ts. \<exists>x. node (Address t) c1 = Some x \<and>
      GetFile (Meta x) ''f'' = Some (new_file 0 (trio_server ''127.0.0.1:5000'') ''f'' [1, 2, 3]) \<and>
      map_of (FileDirectory x) ''f'' = Some [1, 2, 3]) \<and>
    src = Some (Address (hd ts)) \<and>
    (\<exists>x. node ''127.0.0.1:5001'' c2 = Some x \<and> map_of (LocalDirectory x) (Base ''b.txt'') = Some [1, 2, 3])"
  proof (rule create_then_get [where sr = "trio_server ''127.0.0.1:5001''", OF _ _ _ _ _ ts(2,3) _ _ _ _ c _ _ _ g])
    show "\<forall>t \<in> set ts. \<exists>x. node (Address t) trio_cluster = Some x \<and> GetFile (Meta x) ''f'' = None"
      using ts(4) trio_nodes by (fastforce simp: GetFile_def new_Metadata_def)
    show "map_of (LocalDirectory (trio_server ''127.0.0.1:5000'')) (Base ''a.txt'') = Some [1, 2, 3]"
      by (simp add: Base_def)
  qed (use ts(1) in \<open>simp_all add: calm_def\<close>)
  with ts(1) c g show ?thesis by (auto simp: Base_def)
qed

section \<open>Appending\<close>

text \<open>
  A node that can take the append at the end: it has the file, with everything listed on its disk, and
  knows neither the append nor a later one of the same client.
\<close>

definition appendable :: "AppendInfo \<Rightarrow> Server \<Rightarrow> bool" where
  "appendable a x \<longleftrightarrow> wf_metadata (Meta x) \<and> (\<exists>m. GetFile (Meta x) (AppFileName a) = Some m \<and>
     AppendID a \<notin> AppendID ` set (Appends m) \<and>
     (\<forall>b \<in> set (Appends m). ClientID b = ClientID a \<longrightarrow> ClientTimestamp b \<le> ClientTimestamp a) \<and>
     (\<forall>p \<in> insert (AppFileName a) (AppendID ` set (Appends m)). map_of (FileDirectory x) p \<noteq> None))"

lemma append_stores:
  assumes c: "calm c" and s: "node self c = Some s"
    and ts: "findTargetNodes (Members s) (file_hash s f) (ReplicationFactor (Config s)) = Inr ts"
    and ts': "ts \<noteq> []" "distinct (map Address ts)"
    and known: "\<forall>t \<in> set ts. \<exists>x. node (Address t) c = Some x \<and> appendable (new_append now s f data) x"
    and data: "map_of (LocalDirectory s) (Base lf) = Some data" "data \<noteq> []"
    and sched: "\<And>xs. mset (sched xs) = mset xs"
    and append: "handleAppend self sched now lf f c = (out, c1)"
  shows "out = Completed (length ts) (length ts) \<and> calm c1 \<and> (\<forall>a. view a c1 =
    (if a \<in> Address ` set ts then map_option (store_append (new_append now s f data) data) (view a c) else view a c))"
proof -
  let ?a = "new_append now s f data" and ?as = "sched (map Address ts)"
  have a: "AppendID ?a \<noteq> ''''" "Size ?a = int (length data)" by (simp_all add: new_append_def Let_def)
  have as: "set ?as = Address ` set ts" "distinct ?as" "length ?as = length ts"
    using same_mset [OF sched [of "map Address ts"]] ts'(2) by simp_all
  have os: "Os c self = no_faults" using c by (simp add: calm_def)
  obtain n where n: "send_all (\<lambda>a. SendAppendToNode self a data ?a) ?as c = (n, c1)" "out = Completed n (length ts)"
    using append s ts ts'(1) data(1) by (auto simp: handleAppend_def GetAll_def ReadFile_def os split: prod.splits)
  have "\<forall>a \<in> set ?as. \<exists>x. view a c = Some x \<and> appendable ?a x"
    using known by (fastforce simp: as(1) view_def appendable_def)
  moreover have "fst (SendAppendToNode self b data ?a c) \<and> becomes b (store_append ?a data x) c (snd (SendAppendToNode self b data ?a c))"
    if "calm c" "node self c \<noteq> None" "view b c = Some x" "appendable ?a x" for b c x
    using append_up [OF that(1-3), of ?a data] that(4) data(2) a by (auto simp: appendable_def)
  ultimately have "n = length ?as \<and> calm c1 \<and>
      (\<forall>a. view a c1 = (if a \<in> set ?as then map_option (store_append ?a data) (view a c) else view a c))"
    using s by (intro send_all_up [where self = self, OF _ c _ as(2) _ n(1)]) simp_all
  then show ?thesis using n(2) by (simp only: as) simp
qed

lemma appended_contents_at:
  assumes x: "node b c = Some x" "appendable a x" "AppendID a \<noteq> AppFileName a"
    and y: "node b c' = Some y" "Meta y = Meta (store_append a d x)" "FileDirectory y = FileDirectory (store_append a d x)"
  shows "GetFile (Meta y) (AppFileName a) \<noteq> None \<and>
    contents_at b (AppFileName a) c' = map_option (\<lambda>old. old @ 10 # d) (contents_at b (AppFileName a) c)"
proof -
  let ?f = "AppFileName a"
  obtain m where m: "wf_metadata (Meta x)" "GetFile (Meta x) ?f = Some m" "AppendID a \<notin> AppendID ` set (Appends m)"
    "\<forall>b \<in> set (Appends m). ClientID b = ClientID a \<longrightarrow> ClientTimestamp b \<le> ClientTimestamp a"
    "\<forall>p \<in> set (?f # map AppendID (Appends m)). map_of (FileDirectory x) p \<noteq> None"
    using x(2) by (auto simp: appendable_def)
  then have n: "FileName m = ?f" by (simp add: wf_metadata_def)
  note new = store_append_new [OF m(1-3), where d = d]
  have G: "GetFile (Meta y) ?f = Some (m\<lparr>Appends := Appends m @ [a]\<rparr>)"
    using new(2) insert_append_last [OF m(4)] by (simp add: y(2) insertAppend_def)
  have D: "map_of (FileDirectory y) = (map_of (FileDirectory x))(AppendID a \<mapsto> d)" using new(3) by (simp add: y(3))
  let ?paths = "?f # map AppendID (Appends m)"
  have "AppendID a \<notin> set ?paths" using m(3) x(3) by auto
  then have same: "map (\<lambda>p. the (map_of (FileDirectory y) p)) ?paths = map (\<lambda>p. the (map_of (FileDirectory x) p)) ?paths"
    by (intro map_cong) (auto simp: D)
  have "contents_at b ?f c' = Some (join_lines (map (\<lambda>p. the (map_of (FileDirectory y) p)) (?paths @ [AppendID a])))"
    using contents_stored [OF y(1) G] n m(5) by (simp add: D)
  also have "map (\<lambda>p. the (map_of (FileDirectory y) p)) (?paths @ [AppendID a]) =
      map (\<lambda>p. the (map_of (FileDirectory x) p)) ?paths @ [d]"
    unfolding map_append same by (simp add: D)
  also have "join_lines (map (\<lambda>p. the (map_of (FileDirectory x) p)) ?paths @ [d]) =
      join_lines (map (\<lambda>p. the (map_of (FileDirectory x) p)) ?paths) @ 10 # d"
    by (rule join_lines_snoc) simp
  finally have "contents_at b ?f c' = map_option (\<lambda>old. old @ 10 # d) (contents_at b ?f c)"
    by (simp only: contents_stored [OF x(1) m(2) n m(5)] option.map)
  with G show ?thesis by simp
qed

text \<open>
  C3. An append is read by every node: without faults, if every target of the file has it completely
  and knows neither the append's identifier nor a later append of the client, \<open>handleAppend\<close> of
  non-empty data is stored by all targets, each then serves what it served before, a newline, and the
  new data, and a \<open>handleGet\<close> at any node with the same view of the ring leaves this in its local file.
\<close>

theorem append_then_get:
  assumes c: "calm c" and s: "node self c = Some s"
    and ts: "findTargetNodes (Members s) (file_hash s f) (ReplicationFactor (Config s)) = Inr ts"
    and ts': "ts \<noteq> []" "distinct (map Address ts)"
    and known: "\<forall>t \<in> set ts. \<exists>x. node (Address t) c = Some x \<and> appendable (new_append now s f data) x"
    and data: "map_of (LocalDirectory s) (Base lf) = Some data" "data \<noteq> []"
    and sched: "\<And>xs. mset (sched xs) = mset xs"
    and append: "handleAppend self sched now lf f c = (out, c1)"
    and r: "node r c = Some sr" "Members sr = Members s" "Config sr = Config s"
    and get: "handleGet r f lf' c1 = (src, c2)"
  shows "out = Completed (length ts) (length ts) \<and>
    (\<forall>t \<in> set ts. contents_at (Address t) f c1 = map_option (\<lambda>old. old @ 10 # data) (contents_at (Address t) f c)) \<and>
    src = Some (Address (hd ts)) \<and>
    (\<exists>y. node r c2 = Some y \<and> map_of (LocalDirectory y) (Base lf') = contents_at (Address (hd ts)) f c1)"
proof -
  let ?a = "new_append now s f data"
  have a: "AppFileName ?a = f" "AppendID ?a \<noteq> AppFileName ?a" by (simp_all add: new_append_def Let_def)
  note up = append_stores [OF c s ts ts' known data sched append]
  have served: "\<exists>y. node (Address t) c1 = Some y \<and> GetFile (Meta y) f \<noteq> None \<and>
      contents_at (Address t) f c1 = map_option (\<lambda>old. old @ 10 # data) (contents_at (Address t) f c)" if t: "t \<in> set ts" for t
  proof -
    obtain x where x: "node (Address t) c = Some x" "appendable ?a x" using known t by blast
    have "view (Address t) c1 = Some (store_append ?a data (x\<lparr>Bandwidth := \<lparr>BytesSent = 0, BytesReceived = 0\<rparr>\<rparr>))"
      using up t x(1) by (simp add: view_def)
    then obtain y where y: "node (Address t) c1 = Some y" "Meta y = Meta (store_append ?a data x)"
      "FileDirectory y = FileDirectory (store_append ?a data x)"
      by (rule view_SomeE) (simp add: store_append_def)
    show ?thesis using appended_contents_at [OF x a(2) y] y(1) by (simp add: a(1))
  qed
  obtain t0 ts0 where t0: "ts = t0 # ts0" using ts'(1) by (cases ts) auto
  then obtain x0 where x0: "node (Address t0) c1 = Some x0" "GetFile (Meta x0) f \<noteq> None" using served [of t0] by auto
  obtain y where y: "node r c1 = Some y" "Members y = Members sr" "Config y = Config sr"
    using reader_kept [OF up [THEN conjunct2, THEN conjunct2] r(1)] by (auto simp: store_append_def)
  then have "findTargetNodes (Members y) (file_hash y f) (ReplicationFactor (Config y)) = Inr (t0 # ts0)"
    using ts r(2,3) by (simp add: file_hash_def t0)
  moreover have "\<forall>t \<in> set ts. contents_at (Address t) f c1 = map_option (\<lambda>old. old @ 10 # data) (contents_at (Address t) f c)"
    using served by blast
  ultimately show ?thesis using get_reads [OF _ y(1) _ x0 get] up by (simp add: t0)
qed

definition stocked_server :: "string \<Rightarrow> Server" where
  "stocked_server a = (trio_server a)\<lparr>Meta := AddFile (example_file ''f'' 20) new_Metadata, FileDirectory := [(''f'', [9])]\<rparr>"

definition stocked_cluster :: Cluster where
  "stocked_cluster = trio_cluster\<lparr>Nodes :=
     map (\<lambda>a. (a, stocked_server a)) [''127.0.0.1:5000'', ''127.0.0.1:5001'', ''127.0.0.1:5002'']\<rparr>"

lemma stocked_simps [simp]:
  "Members (stocked_server a) = trio" "Config (stocked_server a) = example_config"
  "LocalDirectory (stocked_server a) = [(''a.txt'', [1, 2, 3])]" "FileDirectory (stocked_server a) = [(''f'', [9])]"
  "GetFile (Meta (stocked_server a)) g = (if g = ''f'' then Some (example_file ''f'' 20) else None)"
  "wf_metadata (Meta (stocked_server a))" "calm stocked_cluster"
  "node a stocked_cluster = (if a \<in> {''127.0.0.1:5000'', ''127.0.0.1:5001'', ''127.0.0.1:5002''}
    then Some (stocked_server a) else None)"
  by (simp_all add: stocked_server_def GetFile_AddFile example_file_def wf_AddFile wf_new_Metadata calm_def
      stocked_cluster_def node_def)

theorem append_then_get_witness:
  "\<exists>out c1 src c2. handleAppend ''127.0.0.1:5000'' id 0 ''a.txt'' ''f'' stocked_cluster = (out, c1) \<and>
    handleGet ''127.0.0.1:5001'' ''f'' ''b.txt'' c1 = (src, c2) \<and>
    (\<exists>y. node ''127.0.0.1:5001'' c2 = Some y \<and> map_of (LocalDirectory y) ''b.txt'' = Some [9, 10, 1, 2, 3])"
proof -
  obtain ts where ts: "findTargetNodes trio (file_hash (stocked_server ''127.0.0.1:5000'') ''f'') 3 = Inr ts"
    "ts \<noteq> []" "distinct (map Address ts)" "set ts \<subseteq> set trio"
    using trio_targets by blast
  have at: "node (Address t) stocked_cluster = Some (stocked_server (Address t))" if "t \<in> set ts" for t
    using that ts(4) by (auto simp: trio_def)
  have old: "contents_at (Address t) ''f'' stocked_cluster = Some (join_lines [[9]])" if "t \<in> set ts" for t
    using at [OF that] by (intro contents_at_eq [where paths = "[''f'']"]) (simp add: example_file_def)
  obtain out c1 where c: "handleAppend ''127.0.0.1:5000'' id 0 ''a.txt'' ''f'' stocked_cluster = (out, c1)" by fastforce
  obtain src c2 where g: "handleGet ''127.0.0.1:5001'' ''f'' ''b.txt'' c1 = (src, c2)" by fastforce
  have "\<exists>y. node ''127.0.0.1:5001'' c2 = Some y \<and> map_of (LocalDirectory y) (Base ''b.txt'') = contents_at (Address (hd ts)) ''f'' c1"
    and "\<forall>t \<in> set ts. contents_at (Address t) ''f'' c1 =
      map_option (\<lambda>old. old @ 10 # [1, 2, 3]) (contents_at (Address t) ''f'' stocked_cluster)"
    using append_then_get [OF _ _ _ ts(2,3) _ _ _ _ c _ _ _ g, of "stocked_server ''127.0.0.1:5000''" "[1, 2, 3]"
        "stocked_server ''127.0.0.1:5001''"] ts(1) at
    by (auto simp: appendable_def new_append_def Let_def example_file_def Base_def)
  moreover have "hd ts \<in> set ts" using ts(2) by simp
  ultimately show ?thesis using c g old by (auto simp: Base_def)
qed

end
