(* ===== verification/Replication_Properties.thy ===== *)
theory Replication_Properties
  imports Cluster_Properties Ring_Properties
begin

text \<open>
  What garbage collection, stabilization, the merge and a restart do to the replicas of a file: which
  files a collection keeps and which replicas it wrongly drops, what a merge makes of a replica's
  appends, and where the repair of a replica does not get through.
\<close>

section \<open>Garbage collection\<close>

text \<open>The files of the node outside the range, and what belongs to a file in the directory.\<close>

definition outside :: "int \<Rightarrow> int \<Rightarrow> Server \<Rightarrow> string \<Rightarrow> bool" where
  "outside lo hi s f = (case GetFile (Meta s) f of None \<Rightarrow> False | Some m \<Rightarrow> \<not> IsHashInRange (FileNameHash m) lo hi)"

definition stored_names :: "Server \<Rightarrow> string \<Rightarrow> string set" where
  "stored_names s f = (case GetFile (Meta s) f of None \<Rightarrow> {} | Some m \<Rightarrow> insert f (AppendID ` set (Appends m)))"

lemma collect_file_Meta:
  "GetFile (Meta (collect_file os lo hi f s)) k = (if k = f \<and> outside lo hi s f then None else GetFile (Meta s) k)"
  by (auto simp: collect_file_def outside_def GetFile_DeleteFile split: option.split)

lemma fold_Remove:
  "\<forall>n. \<not> RemoveFails os n \<Longrightarrow>
    map_of (fold (\<lambda>a. Remove os (AppendID a)) as dir) x = (if x \<in> AppendID ` set as then None else map_of dir x)"
  by (induction as arbitrary: dir) (auto simp: Remove_def)

lemma collect_file_Directory:
  "\<forall>n. \<not> RemoveFails os n \<Longrightarrow> map_of (FileDirectory (collect_file os lo hi f s)) x =
    (if outside lo hi s f \<and> x \<in> stored_names s f then None else map_of (FileDirectory s) x)"
  by (auto simp: collect_file_def outside_def stored_names_def fold_Remove Remove_def split: option.split)

lemma collect_file_frame:
  "outside lo hi (collect_file os lo hi f s) k \<longleftrightarrow> k \<noteq> f \<and> outside lo hi s k"
  "stored_names (collect_file os lo hi f s) k = (if k = f \<and> outside lo hi s f then {} else stored_names s k)"
  by (auto simp: outside_def stored_names_def collect_file_Meta)

lemma collect_all:
  assumes "\<forall>n. \<not> RemoveFails os n"
  shows "GetFile (Meta (fold (collect_file os lo hi) fs s)) k =
      (if k \<in> set fs \<and> outside lo hi s k then None else GetFile (Meta s) k)"
    and "map_of (FileDirectory (fold (collect_file os lo hi) fs s)) x =
      (if \<exists>f \<in> set fs. outside lo hi s f \<and> x \<in> stored_names s f then None else map_of (FileDirectory s) x)"
proof (induction fs arbitrary: s)
  case (Cons f fs)
  { case 1 show ?case by (auto simp: Cons.IH(1) collect_file_frame collect_file_Meta) }
  { case 2 show ?case
      by (auto simp: Cons.IH(2) collect_file_frame collect_file_Directory [OF assms]) }
qed simp_all

text \<open>A node of the ring of four with two files.\<close>

definition collecting_server :: Server where
  "collecting_server = example_server\<lparr>Addr := ''127.0.0.1:5009'', Members := alive_ring,
     Meta := AddFile (example_file ''far'' 12) (AddFile (example_file ''near'' 20) new_Metadata)\<rparr>"

lemma collecting_server_simps [simp]:
  "Members collecting_server = alive_ring" "Config collecting_server = example_config"
  "GetFile (Meta collecting_server) f =
    (if f = ''far'' then Some (example_file f 12) else if f = ''near'' then Some (example_file f 20) else None)"
  by (auto simp: collecting_server_def GetFile_AddFile example_file_def)

text \<open>
  C12. The garbage collector keeps the right files: on a ring with every member alive and at least as
  many as replicas, a collection without file system faults removes exactly the files the node is not
  a target of, with their metadata, their contents and their appends, and leaves all other files of
  the directory as they are.
\<close>

theorem collector_keeps_replicas:
  assumes ok: "ring_ok (Members s)" and alive: "\<forall>m \<in> set (Members s). IsAlive m"
    and k: "k < length (Members s)" "ID (Members s ! k) = ServerID s"
    and rf: "ReplicationFactor (Config s) = int r" "1 \<le> r" "r \<le> length (Members s)"
    and os: "\<forall>n. \<not> RemoveFails os n" and ord: "\<And>xs. mset (ord xs) = mset xs"
    and mine: "\<And>h. mine h \<longleftrightarrow> (\<exists>ts. findTargetNodes (Members s) h (int r) = Inr ts \<and> Members s ! k \<in> set ts)"
  shows "\<exists>s'. deleteFilesOutsideMyRange os ord s = Inr s' \<and>
    (\<forall>f. GetFile (Meta s') f = (case GetFile (Meta s) f of None \<Rightarrow> None
       | Some m \<Rightarrow> if mine (FileNameHash m) then Some m else None)) \<and>
    (\<forall>x. map_of (FileDirectory s') x =
      (if \<exists>f m. GetFile (Meta s) f = Some m \<and> \<not> mine (FileNameHash m) \<and> (x = f \<or> x \<in> AppendID ` set (Appends m))
       then None else map_of (FileDirectory s) x))"
proof -
  define q where "q = (if r \<le> k then k - r else k + length (Members s) - r)"
  note range = GetAllKeyRange_eq [OF ok k(1) rf(2,3) q_def]
  define lo hi where "lo = Hash (Members s ! q)" and "hi = Hash (Members s ! k)"
  have inr: "IsHashInRange h lo hi \<longleftrightarrow> mine h" for h
  proof -
    obtain p where p: "p < length (Members s)" "primaryIndex (Members s) h = int p"
      and h: "IsHashInRange h lo hi \<longleftrightarrow> (if q < k then q < p \<and> p \<le> k else q < p \<or> p \<le> k)"
      using full_range_window [OF ok alive k(1) range(2)] unfolding lo_def hi_def .
    then show ?thesis
      using member_target_iff [OF ok alive p k(1) rf(2,3)] by (auto simp: mine range(3)) (simp_all add: q_def)
  qed
  have "set (ord xs) = set xs" for xs using ord [of xs] by (metis set_mset_mset)
  then have names: "set (ListFiles ord (Meta s)) = {f. GetFile (Meta s) f \<noteq> None}"
    by (simp add: ListFiles_def set_map_keys GetFile_def dom_def)
  define s' where "s' = fold (collect_file os lo hi) (ListFiles ord (Meta s)) s"
  have del: "deleteFilesOutsideMyRange os ord s = Inr s'"
    using range(1) k rf(1) by (auto simp: deleteFilesOutsideMyRange_def Let_def GetAll_def lo_def hi_def s'_def)
  have meta: "GetFile (Meta s') f =
      (case GetFile (Meta s) f of None \<Rightarrow> None | Some m \<Rightarrow> if mine (FileNameHash m) then Some m else None)" for f
    unfolding s'_def collect_all(1) [OF os] names outside_def inr by (auto split: option.split)
  have "(\<exists>f \<in> set (ListFiles ord (Meta s)). outside lo hi s f \<and> x \<in> stored_names s f) \<longleftrightarrow>
      (\<exists>f m. GetFile (Meta s) f = Some m \<and> \<not> mine (FileNameHash m) \<and> (x = f \<or> x \<in> AppendID ` set (Appends m)))" for x
    unfolding names outside_def stored_names_def inr by (force split: option.splits)
  then have dir: "map_of (FileDirectory s') x =
      (if \<exists>f m. GetFile (Meta s) f = Some m \<and> \<not> mine (FileNameHash m) \<and> (x = f \<or> x \<in> AppendID ` set (Appends m))
       then None else map_of (FileDirectory s) x)" for x
    unfolding s'_def collect_all(2) [OF os] by simp
  show ?thesis by (intro exI [of _ s'] conjI allI del meta dir)
qed

theorem collector_keeps_replicas_witness:
  "\<exists>s'. deleteFilesOutsideMyRange no_faults id collecting_server = Inr s' \<and>
    GetFile (Meta s') ''far'' = None \<and> GetFile (Meta s') ''near'' = Some (example_file ''near'' 20)"
proof -
  have names: "ID (alive_ring ! 1) = ServerID collecting_server"
    by (simp add: alive_ring_def ID_example collecting_server_def ServerID_def node_id_def Unix_def itoa_def digits.simps example_server_def)
  let ?mine = "\<lambda>h. \<exists>ts. findTargetNodes (Members collecting_server) h (int 3) = Inr ts \<and> Members collecting_server ! 1 \<in> set ts"
  have p: "primaryIndex alive_ring 12 = 2" "primaryIndex alive_ring 20 = 3"
    by (simp_all add: primaryIndex_def alive_ring_def first_index_def Let_def)
  have "?mine 20" "\<not> ?mine 12"
    by (simp_all add: findTargetNodes_def p target_loop.simps) (simp_all add: alive_ring_def go_nth_def go_mod_def target_loop.simps Let_def example_member_def)
  then have m: "?mine 20" "?mine 12 = False" by blast+
  have len: "1 < length (Members collecting_server)" "3 \<le> length (Members collecting_server)"
    by (simp_all add: alive_ring_def)
  have ok: "ring_ok (Members collecting_server)" "\<forall>m \<in> set (Members collecting_server). IsAlive m"
    using ring_ok_examples(2) alive_ring_alive by simp_all
  have rf: "ReplicationFactor (Config collecting_server) = int 3" "(1::nat) \<le> 3" by simp_all
  have names': "ID (Members collecting_server ! 1) = ServerID collecting_server" using names by simp
  have os: "\<forall>n. \<not> RemoveFails no_faults n" by simp
  obtain s' where s': "deleteFilesOutsideMyRange no_faults id collecting_server = Inr s'"
    and f: "\<And>f. GetFile (Meta s') f = (case GetFile (Meta collecting_server) f of None \<Rightarrow> None
       | Some m \<Rightarrow> if ?mine (FileNameHash m) then Some m else None)"
    using collector_keeps_replicas [OF ok len(1) names' rf len(2) os _ refl, of id] by auto
  have h: "FileNameHash (example_file f h) = h" for f h by (simp add: example_file_def)
  have "GetFile (Meta s') ''far'' = None" "GetFile (Meta s') ''near'' = Some (example_file ''near'' 20)"
    unfolding f using m by (simp_all add: h)
  with s' show ?thesis by blast
qed

text \<open>The keys at the position of a dead member belong to the next member, if that is alive.\<close>

lemma primaryIndex_dead:
  assumes ok: "ring_ok ms" and q: "q < length ms" "\<not> IsAlive (ms ! q)" "IsAlive (ms ! ((q + 1) mod length ms))"
  shows "primaryIndex ms (Hash (ms ! q)) = int ((q + 1) mod length ms)"
proof (rule primaryIndex_eqI)
  have "0 < length ms" using q(1) by linarith
  then show p: "(q + 1) mod length ms < length ms" by simp
  have before: "Hash (ms ! j) < Hash (ms ! q)" if "j \<le> q" "IsAlive (ms ! j)" for j
    using that q ring_ok_less [OF ok, of j q] by (cases "j = q") auto
  show "Hash (ms ! q) \<le> Hash (ms ! ((q + 1) mod length ms)) \<and>
      (\<forall>j < (q + 1) mod length ms. IsAlive (ms ! j) \<longrightarrow> Hash (ms ! j) < Hash (ms ! q)) \<or>
    (\<forall>j < length ms. IsAlive (ms ! j) \<longrightarrow> Hash (ms ! j) < Hash (ms ! q)) \<and>
      (\<forall>j < (q + 1) mod length ms. \<not> IsAlive (ms ! j))"
  proof (cases "q + 1 < length ms")
    case True
    then show ?thesis using before ring_ok_less [OF ok, of q "q + 1"] by auto
  next
    case False
    with q(1) have last: "q + 1 = length ms" by simp
    then have "(q + 1) mod length ms = 0" by (simp only: mod_self)
    moreover have "j \<le> q" if "j < length ms" for j using that last by linarith
    ultimately show ?thesis using before by simp
  qed
qed (rule q)

lemma target_of_dead:
  assumes ok: "ring_ok ms" and k: "k < length ms" "IsAlive (ms ! k)" and r: "1 \<le> r" "r < length ms"
    and q: "q = (k + length ms - r) mod length ms" "\<not> IsAlive (ms ! q)" "IsAlive (ms ! ((q + 1) mod length ms))"
  obtains ts where "findTargetNodes ms (Hash (ms ! q)) (int r) = Inr ts" "ms ! k \<in> set ts"
proof -
  define p where "p = (q + 1) mod length ms"
  have "0 < length ms" using k(1) by linarith
  then have "q < length ms" "p < length ms" by (simp_all add: q(1) p_def)
  note eq = findTargetNodes_eq [OF this(2) primaryIndex_dead [OF ok this(1) q(2,3), folded p_def], of "int r"]
  have "(p + (r - 1)) mod length ms = (q + 1 + (r - 1)) mod length ms" unfolding p_def by (rule mod_add_left_eq)
  also have "q + 1 + (r - 1) = q + r" using r(1) by simp
  also have "(q + r) mod length ms = (k + length ms - r + r) mod length ms" unfolding q(1) by (rule mod_add_left_eq)
  also have "\<dots> = k" using r(2) k(1) by simp
  finally have "ms ! k = ms ! ((p + (r - 1)) mod length ms)" by simp
  then have "ms ! k \<in> set (map (\<lambda>j. ms ! ((p + j) mod length ms)) [0..<nat (int r)])"
    using r(1) by (auto simp: image_iff intro!: bexI [of _ "r - 1"])
  with k(2) show ?thesis by (intro that [OF eq]) simp
qed

text \<open>
  C37. While a dead member is still on the list, the collector drops replicas: the full range counts
  positions, dead or alive, but the keys of a dead node have moved to the next alive one. If the member
  \<open>r\<close> positions before a node is dead, then a file at that member's position is removed by the node
  although the node is one of its targets.
\<close>

theorem collector_drops_replica:
  assumes ok: "ring_ok (Members s)" and k: "k < length (Members s)" "ID (Members s ! k) = ServerID s"
    and rf: "ReplicationFactor (Config s) = int r" "1 \<le> r" "r < length (Members s)"
    and q: "q = (k + length (Members s) - r) mod length (Members s)"
    and dead: "\<not> IsAlive (Members s ! q)"
    and alive: "IsAlive (Members s ! k)" "IsAlive (Members s ! ((q + 1) mod length (Members s)))"
    and f: "GetFile (Meta s) f = Some m" "FileNameHash m = Hash (Members s ! q)"
    and os: "\<forall>n. \<not> RemoveFails os n" and ord: "\<And>xs. mset (ord xs) = mset xs"
  shows "\<exists>s' ts. deleteFilesOutsideMyRange os ord s = Inr s' \<and> GetFile (Meta s') f = None \<and>
    findTargetNodes (Members s) (FileNameHash m) (int r) = Inr ts \<and> Members s ! k \<in> set ts"
proof -
  have rN: "1 \<le> r" "r \<le> length (Members s)" using rf by simp_all
  have qk: "q = (if r \<le> k then k - r else k + length (Members s) - r)"
    using window_start [OF k(1) rN] q by simp
  note range = GetAllKeyRange_eq [OF ok k(1) rN qk]
  have "q < k \<or> k < q" using qk rf(2,3) k(1) by (auto split: if_splits)
  then have nk: "\<not> IsHashInRange (FileNameHash m) (Hash (Members s ! q)) (Hash (Members s ! k))"
    using ring_ok_less [OF ok] range(2) k(1) f(2) by (fastforce simp: IsHashInRange_def)
  have out: "outside (Hash (Members s ! q)) (Hash (Members s ! k)) s f" using f(1) nk by (simp add: outside_def)
  have "set (ord xs) = set xs" for xs using ord [of xs] by (metis set_mset_mset)
  then have "f \<in> set (ListFiles ord (Meta s))"
    using f(1) by (auto simp: ListFiles_def set_map_keys GetFile_def domI)
  then have gone: "GetFile (Meta (fold (collect_file os (Hash (Members s ! q)) (Hash (Members s ! k)))
      (ListFiles ord (Meta s)) s)) f = None"
    using out by (simp add: collect_all(1) [OF os])
  have "deleteFilesOutsideMyRange os ord s = Inr (fold (collect_file os (Hash (Members s ! q)) (Hash (Members s ! k)))
      (ListFiles ord (Meta s)) s)"
    using range(1) k rf(1) by (auto simp: deleteFilesOutsideMyRange_def Let_def GetAll_def)
  moreover obtain ts where "findTargetNodes (Members s) (FileNameHash m) (int r) = Inr ts" "Members s ! k \<in> set ts"
    using target_of_dead [OF ok k(1) alive(1) rf(2,3) q dead alive(2)] unfolding f(2) .
  ultimately show ?thesis using gone by blast
qed

definition degraded_server :: Server where
  "degraded_server = example_server\<lparr>Addr := ''127.0.0.1:5005'', Members := example_ring,
     Meta := AddFile (example_file ''f'' 9) new_Metadata\<rparr>"

theorem collector_drops_replica_witness:
  "\<exists>s' ts. deleteFilesOutsideMyRange no_faults id degraded_server = Inr s' \<and> GetFile (Meta s') ''f'' = None \<and>
    findTargetNodes example_ring 9 (int 3) = Inr ts \<and> example_ring ! 0 \<in> set ts"
proof -
  have s: "Members degraded_server = example_ring" "ReplicationFactor (Config degraded_server) = int 3"
    "ID (example_ring ! 0) = ServerID degraded_server"
    "GetFile (Meta degraded_server) ''f'' = Some (example_file ''f'' 9)" "FileNameHash (example_file ''f'' 9) = 9"
    by (simp_all add: degraded_server_def example_server_def ServerID_def node_id_def Unix_def itoa_def digits.simps
        example_ring_def ID_example GetFile_AddFile example_file_def example_config_def initial_Config_def)
  have ring: "ring_ok (Members degraded_server)" unfolding s(1) by (rule ring_ok_examples)
  have "\<exists>s' ts. deleteFilesOutsideMyRange no_faults id degraded_server = Inr s' \<and> GetFile (Meta s') ''f'' = None \<and>
    findTargetNodes (Members degraded_server) (FileNameHash (example_file ''f'' 9)) (int 3) = Inr ts \<and>
    Members degraded_server ! 0 \<in> set ts"
    by (rule collector_drops_replica [where q = 1, OF ring _ _ s(2) _ _ _ _ _ _ s(4)])
      (simp_all add: s(1,3,5), simp_all add: example_ring_def)
  then show ?thesis by (simp only: s(1,5))
qed

section \<open>Merging\<close>

lemma ordersMatch_iff: "ordersMatch is as \<longleftrightarrow> is = map AppendID as"
  by (induction "is" as rule: ordersMatch.induct) auto

lemma makeRPCCall_up:
  "Network c = [] \<Longrightarrow> node a c = Some s \<Longrightarrow> makeRPCCall a h c = (Some (fst (h s)), put_node a (snd (h s)) c)"
  by (simp add: makeRPCCall_def next_link_def split: prod.split)

lemma Network_put [simp]: "Network (put_node a s c) = Network c"
  by (simp add: put_node_def)

text \<open>
  A merge makes a replica's appends those of the primary: whatever the stabilization before it did
  to the replica, once the replica has the file and no call is lost, its metadata lists exactly the
  appends of the primary's copy, in the primary's order. Appends that only the replica has are not
  kept.
\<close>

lemma merge_imposes_order:
  assumes alive: "node self c \<noteq> None"
    and ens: "ensureRemoteFileInSync self succ f lm c = (True, c1)"
    and c1: "Network c1 = []" "node self c1 \<noteq> None" "node (Address succ) c1 = Some r"
      "GetFile (Meta r) f = Some rm" "FileName rm = f"
  shows "\<exists>r' m. node (Address succ) (merge_successor self f lm (map AppendID (Appends lm)) succ c) = Some r' \<and>
    GetFile (Meta r') f = Some m \<and> map AppendID (Appends m) = map AppendID (Appends lm) \<and>
    FileContentHash m = FileContentHash rm"
proof -
  have read: "callGetFileMetadata (Address succ) f c1 = (Some (True, [(f, rm)]), put_node (Address succ) r c1)"
    using c1 by (simp add: callGetFileMetadata_def makeRPCCall_up GetFileMetadata_def)
  have order: "CallUpdateAppendOrder (Address succ) f as (put_node (Address succ) r c1) =
      (Some True, put_node (Address succ) (r\<lparr>Meta := AddFile (rm\<lparr>Appends := as\<rparr>) (Meta r)\<rparr>)
        (put_node (Address succ) r c1))" for as
    using c1 by (simp add: CallUpdateAppendOrder_def makeRPCCall_up UpdateAppendOrder_def)
  have "merge_successor self f lm (map AppendID (Appends lm)) succ c =
      syncRemoteAppendOrder succ f lm (map AppendID (Appends lm)) c1"
    using alive ens c1(2) by (auto simp: merge_successor_def)
  then show ?thesis
    using c1(4,5) by (auto simp: syncRemoteAppendOrder_def read order ordersMatch_iff GetFile_AddFile)
qed

text \<open>
  A file on two nodes; the primary has missed an append that the other node stored, and acknowledged,
  while the primary could not be reached.
\<close>

definition lost_append :: AppendInfo where
  "lost_append = \<lparr>AppFileName = ''f'', AppendID = ''f_7_vm2'', ClientID = ''127.0.0.1:5001-0'',
     ClientTimestamp = ''7'', AppendHash = ''h'', Size = 1\<rparr>"

definition behind_server :: Server where
  "behind_server = example_server\<lparr>Meta := AddFile (example_file ''f'' 20) new_Metadata, FileDirectory := [(''f'', [1])]\<rparr>"

definition ahead_server :: Server where
  "ahead_server = example_server\<lparr>Addr := ''127.0.0.1:5001'', IsIntroducer := False, ServerHash := 88,
     Meta := AddFile ((example_file ''f'' 20)\<lparr>Appends := [lost_append]\<rparr>) new_Metadata,
     FileDirectory := [(''f'', [1]), (''f_7_vm2'', [2])]\<rparr>"

definition behind_cluster :: Cluster where
  "behind_cluster = \<lparr>Nodes = [(''127.0.0.1:5000'', behind_server), (''127.0.0.1:5001'', ahead_server)],
     Network = [], Os = (\<lambda>_. no_faults), Ord = (\<lambda>xs. xs)\<rparr>"

section \<open>Where repairs stop\<close>

text \<open>
  A missing append cannot be pulled: a node asks its successor for the append's identifier as if
  it were a file. Unless the successor has a file of that name, and whatever happens to the call, the
  node's metadata stays as it was; and when the call gets through, what the node itself had stored
  under that name is removed.
\<close>

theorem pulled_append_fails:
  assumes t: "node t c = Some x" "GetFile (Meta x) (AppendID app) = None"
    and s: "node self c = Some s" and new: "AppendID app \<notin> set localAppends"
    and os: "\<not> RemoveFails (Os c self) (Base (AppendID app))" "\<not> MkdirFails (Os c self)"
      "\<not> OpenFails (Os c self) (Base (AppendID app))"
  shows "\<exists>s'. node self (pull_append self t f localAppends app c) = Some s' \<and> Meta s' = Meta s \<and>
    (Network c = [] \<longrightarrow> map_of (FileDirectory s') (Base (AppendID app)) = None)"
proof -
  obtain l c1 where l: "next_link c = (l, c1)" by fastforce
  have n1: "node a c1 = node a c" for a using node_next_link [of a c] by (simp add: l)
  have up: "l = Up" if "Network c = []" using that l by (simp add: next_link_def)
  have g: "HyDFS_GetFile (Os c t) (AppendID app) x = (([], Some NotInMetadata), x)"
    using t(2) by (simp add: HyDFS_GetFile_def)
  show ?thesis
  proof (cases "l = Unreachable")
    case True
    with up s n1 new t show ?thesis by (auto simp: pull_append_def ReceiveFileFromNode_def l)
  next
    case False
    have broken: "arriving l [] (Some NotInMetadata) = ([], True)"
      by (auto simp: arriving_def split: link.split option.split)
    obtain ok dir bw where r: "receive_file (Os c self) (Some ([], True)) (AppendID app) (FileDirectory s) (Bandwidth s) =
        (ok, dir, bw)" by (metis surj_pair)
    then have "\<not> ok" "map_of dir (Base (AppendID app)) = None"
      using os by (auto simp: receive_file_def Let_def Remove_def)
    moreover have "node self (put_node t x c1) = Some s" using s t(1) n1 by auto
    ultimately show ?thesis
      using False s t(1) n1 new broken r
      by (auto simp: pull_append_def ReceiveFileFromNode_def l g Let_def)
  qed
qed

theorem pulled_append_fails_witness:
  "\<exists>s'. node ''127.0.0.1:5000'' (pull_append ''127.0.0.1:5000'' ''127.0.0.1:5001'' ''f'' [] lost_append behind_cluster) = Some s' \<and>
    Meta s' = Meta behind_server"
proof -
  have "node ''127.0.0.1:5001'' behind_cluster = Some ahead_server" "node ''127.0.0.1:5000'' behind_cluster = Some behind_server"
    "Os behind_cluster = (\<lambda>_. no_faults)" by (simp_all add: behind_cluster_def node_def)
  then show ?thesis
    using pulled_append_fails [of "''127.0.0.1:5001''" behind_cluster ahead_server lost_append "''127.0.0.1:5000''" behind_server "[]" "''f''"]
    by (auto simp: ahead_server_def GetFile_AddFile example_file_def lost_append_def)
qed

text \<open>
  The periodic merge ends a process that has files but no alive member on its list, for instance
  the last node after a \<open>leave\<close>: there is no primary range then, and the range test dereferences the
  nil bounds.
\<close>

theorem merge_tick_crashes:
  assumes s: "node self c = Some s"
    and dead: "\<forall>m \<in> set (Members s). \<not> IsAlive m" and files: "Files (Meta s) \<noteq> []"
    and ord: "\<And>xs. mset (Ord c xs) = mset xs"
  shows "node self (executeMergeForAllFiles self c) = None"
proof -
  have "Ord c (map_keys (Files (Meta s))) \<noteq> []"
    using ord [of "map_keys (Files (Meta s))"] files by (auto simp: map_keys_def)
  then have "\<exists>e. GetFilesWithinRange (Ord c) (Files (Meta s)) None = Inl e"
    by (simp add: GetFilesWithinRange_def)
  moreover have "GetPrimaryKeyRange (Members s) (ServerID s) = Inr None"
  proof (cases rule: GetNodeIndex_cases [of "Members s" "ServerID s"])
    case absent
    then show ?thesis by (simp add: GetPrimaryKeyRange_def Let_def)
  next
    case (at k)
    have "List.find (\<lambda>j. IsAlive (Members s ! prev_pos (length (Members s)) k j)) [1..<Suc (length (Members s))] = None"
    proof -
      have "0 < length (Members s)" using at(1) by linarith
      then have "prev_pos (length (Members s)) k j < length (Members s)" for j by (simp add: prev_pos_def)
      then have "\<not> IsAlive (Members s ! prev_pos (length (Members s)) k j)" for j using dead nth_mem by blast
      then show ?thesis by (simp add: find_None_iff)
    qed
    with pred_scan_eq [OF at(1), of 0] at(1) have "pred_scan (length (Members s)) (Members s) (int k) = Inr None"
      by (simp add: prev_pos_def)
    with at show ?thesis by (simp add: GetPrimaryKeyRange_def Let_def)
  qed
  ultimately show ?thesis using s by (auto simp: executeMergeForAllFiles_def GetAll_def)
qed

theorem merge_tick_crashes_witness:
  "node ''127.0.0.1:5000'' (executeMergeForAllFiles ''127.0.0.1:5000''
     (put_node ''127.0.0.1:5000'' (behind_server\<lparr>Members := [example_member ''127.0.0.1:5000'' 29 StatusVoluntaryLeave]\<rparr>)
       behind_cluster)) = None"
  by (rule merge_tick_crashes [OF node_put [THEN trans, OF if_P, OF refl]])
    (simp_all add: behind_server_def AddFile_def new_Metadata_def Let_def behind_cluster_def put_node_def example_file_def
      AList.update_conv')

section \<open>Restarts\<close>

text \<open>
  Starting a node's name a second time empties the running node: the second process removes the
  directory before it finds the port taken. The running node keeps its metadata, so it still claims its
  files, and a download of any of them ends without an error and without a byte.
\<close>

theorem second_start_empties:
  assumes name: "map_of NodeMap name = Some a" and s: "node a c = Some s"
  shows "\<exists>s'. node a (start_node env name fd ld c) = Some s' \<and> Meta s' = Meta s \<and> FileDirectory s' = [] \<and>
    (\<forall>f m. GetFile (Meta s') f = Some m \<longrightarrow> fst (HyDFS_GetFile os f s') = ([], None))"
proof -
  have "get_loop os [] f paths = ([], None)" for f paths by (induction paths) simp_all
  then show ?thesis using assms by (auto simp: start_node_def HyDFS_GetFile_def Let_def)
qed

theorem second_start_empties_witness:
  "contents_at ''127.0.0.1:5001'' ''f'' (start_node example_env ''vm2'' [] [] behind_cluster) = Some []"
proof -
  have "node ''127.0.0.1:5001'' behind_cluster = Some ahead_server"
    by (simp add: behind_cluster_def node_def)
  from second_start_empties [OF _ this, of "''vm2''" example_env "[]" "[]" no_faults]
  obtain s' where s': "node ''127.0.0.1:5001'' (start_node example_env ''vm2'' [] [] behind_cluster) = Some s'"
    "Meta s' = Meta ahead_server" "\<And>f m. GetFile (Meta s') f = Some m \<Longrightarrow> fst (HyDFS_GetFile no_faults f s') = ([], None)"
    by (auto simp: NodeMap_def)
  have "GetFile (Meta ahead_server) ''f'' \<noteq> None" by (simp add: ahead_server_def GetFile_AddFile example_file_def)
  with s' show ?thesis by (auto simp: contents_at_def stream_data_def)
qed

section \<open>Several appends\<close>

text \<open>
  \<open>multiappend\<close> is parsed back into what it was made of: a file, then names that begin with vm,
  then as many local files, of which the first does not. And whatever the words are, the parser hands
  \<open>handleMultiAppend\<close> as many names as files, so that its indexing never panics.
\<close>

theorem multiappend_parses:
  assumes f: "\<not> has_prefix (to_lower f) ''vm''" and vms: "\<forall>v \<in> set vms. has_prefix (to_lower v) ''vm''"
    and ls: "ls \<noteq> []" "\<not> has_prefix (to_lower (hd ls)) ''vm''" "length vms = length ls"
  shows "parseMultiAppend (f # vms @ ls) = (f, vms, ls) \<and>
    (\<forall>args. case parseMultiAppend args of (g, vs, fs) \<Rightarrow> length vs = length fs \<and>
       node self (snd (handleMultiAppend self sched now g vs fs c)) =
       node self (snd (multi_append sched now g (zip vs fs) c)))"
proof -
  let ?vm = "\<lambda>a. has_prefix (to_lower a) ''vm''"
  obtain l ls' where l: "ls = l # ls'" using ls(1) by (cases ls) auto
  have "takeWhile ?vm (vms @ ls) = vms" "dropWhile ?vm (vms @ ls) = ls"
    using vms ls(2) by (simp_all add: l takeWhile_append2 dropWhile_append2)
  then have "parseMultiAppend (f # vms @ ls) = (f, vms, ls)"
    using f ls by (cases vms) (auto simp: parseMultiAppend_def Let_def l)
  moreover have "length vs = length fs" if "parseMultiAppend args = (g, vs, fs)" for args g vs fs
    using that by (auto simp: parseMultiAppend_def Let_def split: if_splits)
  ultimately show ?thesis by (auto simp: handleMultiAppend_def split: prod.split)
qed

theorem multiappend_parses_witness:
  "parseMultiAppend [''f'', ''vm1'', ''VM2'', ''a.txt'', ''b.txt''] = (''f'', [''vm1'', ''VM2''], [''a.txt'', ''b.txt''])"
proof -
  have "\<not> has_prefix (to_lower ''f'') ''vm''" "\<forall>v \<in> set [''vm1'', ''VM2'']. has_prefix (to_lower v) ''vm''"
    "\<not> has_prefix (to_lower (hd [''a.txt'', ''b.txt''])) ''vm''" by code_simp+
  from multiappend_parses [OF this(1,2) _ this(3), THEN conjunct1] show ?thesis by simp
qed

end
