(* ===== verification/Stabilization.thy ===== *)
theory Stabilization
  imports Replication_Properties
begin

text \<open>
  That a stabilization restores the replicas. Without faults, \<open>stabilizeRing\<close> of a node leaves every
  file it is the primary of on each of the file's targets: the pushes copy what a successor misses,
  metadata, contents and appends, change nothing of what it already mirrors, and leave nothing to pull.
\<close>

section \<open>Copying a file\<close>

text \<open>
  \<open>x\<close> has the file as \<open>s\<close> has it: the same metadata, and the same contents under the names of the file
  and its appends. And a file that is stored completely, so that it can be sent again.
\<close>

definition mirrors :: "Server \<Rightarrow> Server \<Rightarrow> string \<Rightarrow> bool" where
  "mirrors s x f \<longleftrightarrow> GetFile (Meta s) f \<noteq> None \<and> GetFile (Meta x) f = GetFile (Meta s) f \<and>
     (\<forall>p \<in> stored_names s f. map_of (FileDirectory x) p = map_of (FileDirectory s) p)"

definition complete_append :: "Server \<Rightarrow> string \<Rightarrow> AppendInfo \<Rightarrow> bool" where
  "complete_append s f a \<longleftrightarrow> AppFileName a = f \<and> AppendID a \<noteq> '''' \<and> AppendID a \<noteq> f \<and>
     (\<exists>d. map_of (FileDirectory s) (AppendID a) = Some d \<and> d \<noteq> [] \<and> Size a = int (length d))"

definition complete_file :: "Server \<Rightarrow> FileMetadata \<Rightarrow> bool" where
  "complete_file s m \<longleftrightarrow> FileName m \<noteq> '''' \<and> FileContentHash m \<noteq> '''' \<and>
     0 \<le> FileNameHash m \<and> FileNameHash m < 2 ^ 31 \<and>
     (\<exists>d. map_of (FileDirectory s) (FileName m) = Some d \<and> d \<noteq> []) \<and>
     distinct (map AppendID (Appends m)) \<and> client_ordered (Appends m) \<and>
     (\<forall>a \<in> set (Appends m). complete_append s (FileName m) a)"

definition content :: "Server \<Rightarrow> string \<Rightarrow> bytes" where
  "content s p = the (map_of (FileDirectory s) p)"

lemma store_appends:
  assumes "wf_metadata (Meta x)" and "GetFile (Meta x) f = Some m" and "distinct (map AppendID as)"
    and "\<forall>a \<in> set as. complete_append s f a \<and> AppendID a \<notin> AppendID ` set (Appends m)"
  defines "x' \<equiv> fold (\<lambda>a. store_append a (content s (AppendID a))) as x"
  shows "wf_metadata (Meta x') \<and>
    (\<forall>k. GetFile (Meta x') k = (if k = f then Some (m\<lparr>Appends := fold (\<lambda>a as. insert_append as a) as (Appends m)\<rparr>)
       else GetFile (Meta x) k)) \<and>
    (\<forall>p. map_of (FileDirectory x') p =
      (if p \<in> AppendID ` set as then map_of (FileDirectory s) p else map_of (FileDirectory x) p))"
  unfolding x'_def using assms(1-4)
proof (induction as arbitrary: x m)
  case (Cons a as)
  let ?x = "store_append a (content s (AppendID a)) x"
  have a: "AppFileName a = f" "AppendID a \<notin> AppendID ` set (Appends m)"
    and d: "map_of (FileDirectory s) (AppendID a) = Some (content s (AppendID a))"
    using Cons.prems(4) by (auto simp: complete_append_def content_def)
  have "GetFile (Meta x) (AppFileName a) = Some m" using a(1) Cons.prems(2) by simp
  note one = store_append_new [OF Cons.prems(1) this a(2), where d = "content s (AppendID a)"]
  have f: "GetFile (Meta ?x) f = Some (insertAppend a m)" using one(2) a(1) by simp
  have "AppendID b \<noteq> AppendID a" if "b \<in> set as" for b using Cons.prems(3) that by (auto simp: rev_image_eqI)
  then have rest: "\<forall>b \<in> set as. complete_append s f b \<and> AppendID b \<notin> AppendID ` set (Appends (insertAppend a m))"
    using Cons.prems(4) by simp
  have "distinct (map AppendID as)" using Cons.prems(3) by simp
  note Cons.IH [OF one(1) f this rest]
  then show ?case using one(2,3) a(1) d by (simp add: insertAppend_def)
qed (simp add: insertAppend_def)

text \<open>\<open>x'\<close> is \<open>x\<close> with the given files as \<open>s\<close> has them.\<close>

definition copied :: "Server \<Rightarrow> string set \<Rightarrow> Server \<Rightarrow> Server \<Rightarrow> bool" where
  "copied s fs x x' \<longleftrightarrow> wf_metadata (Meta x') \<and>
     (\<forall>k. GetFile (Meta x') k = (if k \<in> fs then GetFile (Meta s) k else GetFile (Meta x) k)) \<and>
     (\<forall>p. map_of (FileDirectory x') p =
       (if p \<in> \<Union> (stored_names s ` fs) then map_of (FileDirectory s) p else map_of (FileDirectory x) p))"

lemma copied_refl [intro]: "wf_metadata (Meta x) \<Longrightarrow> copied s {} x x"
  by (simp add: copied_def)

lemma copied_mirrored [intro]: "wf_metadata (Meta x) \<Longrightarrow> mirrors s x f \<Longrightarrow> copied s {f} x x"
  by (auto simp: copied_def mirrors_def)

lemma copied_trans: "copied s F x y \<Longrightarrow> copied s G y z \<Longrightarrow> copied s (F \<union> G) x z"
  by (simp add: copied_def Un_commute)

lemma copied_mirrors: "copied s fs x x' \<Longrightarrow> f \<in> fs \<Longrightarrow> GetFile (Meta s) f \<noteq> None \<Longrightarrow> mirrors s x' f"
  by (auto simp: copied_def mirrors_def)

lemma copied_keeps: "copied s fs x x' \<Longrightarrow> mirrors s x f \<Longrightarrow> mirrors s x' f"
  by (auto simp: copied_def mirrors_def)

lemma copy_one:
  assumes wf: "wf_metadata (Meta x)" "wf_metadata (Meta s)" and f: "GetFile (Meta s) f = Some m" "complete_file s m"
  shows "copied s {f} x (fold (\<lambda>a. store_append a (content s (AppendID a))) (Appends m)
    (store_file (m\<lparr>Appends := []\<rparr>) (content s f) x))"
proof -
  let ?y = "store_file (m\<lparr>Appends := []\<rparr>) (content s f) x"
  have n: "FileName m = f" using wf(2) f(1) by (auto simp: wf_metadata_def)
  then have d: "map_of (FileDirectory s) f = Some (content s f)" using f(2) by (auto simp: complete_file_def content_def)
  have y: "wf_metadata (Meta ?y)" "GetFile (Meta ?y) f = Some (m\<lparr>Appends := []\<rparr>)"
    using wf(1) n by (simp_all add: store_file_def GetFile_AddFile wf_AddFile)
  have "distinct (map AppendID (Appends m))" "client_ordered ([] @ Appends m)"
    and "\<forall>a \<in> set (Appends m). complete_append s f a \<and> AppendID a \<notin> AppendID ` set (Appends (m\<lparr>Appends := []\<rparr>))"
    using f(2) n by (simp_all add: complete_file_def)
  moreover from this(2) have "fold (\<lambda>a as. insert_append as a) (Appends m) [] = Appends m"
    using fold_insert_append_in_order by fastforce
  ultimately show ?thesis
    using store_appends [OF y, of "Appends m" s] d f(1) n
    by (simp add: copied_def stored_names_def store_file_def GetFile_AddFile update_conv')
qed

section \<open>Pushing\<close>

lemma push_appends:
  assumes "calm c" and "view self c = Some s" "self \<noteq> t" "view t c = Some x"
    and "wf_metadata (Meta x)" "GetFile (Meta x) f \<noteq> None" and "\<forall>a \<in> set as. complete_append s f a"
  shows "becomes t (fold (\<lambda>a. store_append a (content s (AppendID a))) as x) c (fold (push_append self t []) as c)"
  using assms
proof (induction as arbitrary: c x)
  case (Cons a as)
  let ?d = "content s (AppendID a)"
  let ?c = "snd (SendAppendToNode self t ?d a c)"
  obtain s0 where s0: "node self c = Some s0" "FileDirectory s = FileDirectory s0"
    using Cons.prems(2) by (rule view_SomeE)
  have a: "AppFileName a = f" "AppendID a \<noteq> ''''" "?d \<noteq> []" "Size a = int (length ?d)"
    and d: "map_of (FileDirectory s0) (AppendID a) = Some ?d"
    using Cons.prems(7) s0(2) by (auto simp: complete_append_def content_def)
  have push: "push_append self t [] a c = ?c"
    using s0(1) d Cons.prems(1) by (simp add: push_append_def ReadFile_def calm_def)
  have "becomes t (store_append a ?d x) c ?c"
    using Cons.prems s0(1) a by (intro append_up(2)) simp_all
  note up = this becomes_view [OF this]
  have "wf_metadata (Meta (store_append a ?d x))" "GetFile (Meta (store_append a ?d x)) f \<noteq> None"
    using Cons.prems(5,6) by (simp add: store_append_def wf_AppendToFile)
      (use Cons.prems(6) in \<open>auto simp: store_append_def AppendToFile_def GetFile_def Let_def update_conv'\<close>)
  then have "becomes t (fold (\<lambda>a. store_append a (content s (AppendID a))) as (store_append a ?d x)) ?c
      (fold (push_append self t []) as ?c)"
    using up(2,4) up(5) [OF Cons.prems(3)] Cons.prems by (intro Cons.IH) simp_all
  then show ?case using becomes_trans [OF up(1)] by (simp add: push)
qed (simp add: becomes_refl)

lemma push_known_appends: "\<forall>a \<in> set as. AppendID a \<in> set known \<Longrightarrow> fold (push_append self t known) as c = c"
  by (induction as) (simp_all add: push_append_def)

lemma push_file_copies:
  assumes c: "calm c" and s: "view self c = Some s" "self \<noteq> t" "wf_metadata (Meta s)"
    and x: "view t c = Some x" "wf_metadata (Meta x)"
    and f: "GetFile (Meta s) f = Some m" "complete_file s m"
    and state: "GetFile (Meta x) f = None \<or> mirrors s x f" and remote: "map_of fm f = GetFile (Meta x) f"
  shows "\<exists>x'. becomes t x' c (push_file self t fm f c) \<and> copied s {f} x x'"
proof -
  obtain s0 where s0: "node self c = Some s0" "Meta s = Meta s0" "FileDirectory s = FileDirectory s0"
    using s(1) by (rule view_SomeE)
  have n: "FileName m = f" using s(3) f(1) by (auto simp: wf_metadata_def)
  show ?thesis
  proof (cases "mirrors s x f")
    case True
    then have "map_of fm f = Some m" using remote f(1) by (simp add: mirrors_def)
    then have "push_file self t fm f c = c"
      using s0 f(1) by (simp add: push_file_def Let_def push_known_appends)
    then show ?thesis using True x c by (auto intro: becomes_refl)
  next
    case False
    let ?d = "content s f"
    let ?c = "snd (SendFileToNode self t ?d m c)"
    have d: "map_of (FileDirectory s0) f = Some ?d" "?d \<noteq> []"
      using f(2) n s0(3) by (auto simp: complete_file_def content_def)
    have m: "FileName m \<noteq> ''''" "FileContentHash m \<noteq> ''''" "- (2 ^ 31) \<le> FileNameHash m" "FileNameHash m < 2 ^ 31"
      using f(2) by (auto simp: complete_file_def)
    have none: "GetFile (Meta x) f = None" using False state by simp
    have "becomes t (store_file (m\<lparr>Appends := []\<rparr>) ?d x) c ?c"
      using send_up(2) [OF c _ x(1) _ d(2) m] s0(1) none n by simp
    note up = this becomes_view [OF this]
    have "push_file self t fm f c = fold (push_append self t []) (Appends m) ?c"
      using s0 f(1) none remote d c by (simp add: push_file_def ReadFile_def calm_def)
    moreover have "becomes t (fold (\<lambda>a. store_append a (content s (AppendID a))) (Appends m)
        (store_file (m\<lparr>Appends := []\<rparr>) ?d x)) ?c (fold (push_append self t []) (Appends m) ?c)"
      using up(2,4) up(5) [OF s(2)] s x(2) f(2) n
      by (intro push_appends [where f = f]) (simp_all add: store_file_def wf_AddFile GetFile_AddFile complete_file_def)
    ultimately show ?thesis
      using becomes_trans [OF up(1)] copy_one [OF x(2) s(3) f] by auto
  qed
qed

lemma push_files:
  assumes "calm c" and s: "view self c = Some s" "self \<noteq> t" "wf_metadata (Meta s)"
    and "view t c = Some x" "wf_metadata (Meta x)"
    and f: "\<forall>f \<in> set fs. \<exists>m. GetFile (Meta s) f = Some m \<and> complete_file s m"
    and "\<forall>f \<in> set fs. (GetFile (Meta x) f = None \<or> mirrors s x f) \<and> map_of fm f = GetFile (Meta x) f"
    and "distinct fs"
  shows "\<exists>x'. becomes t x' c (fold (push_file self t fm) fs c) \<and> copied s (set fs) x x'"
  using assms
proof (induction fs arbitrary: c x)
  case (Cons f fs)
  obtain m where m: "GetFile (Meta s) f = Some m" "complete_file s m" using Cons.prems(7) by auto
  obtain x1 where x1: "becomes t x1 c (push_file self t fm f c)" "copied s {f} x x1"
    using push_file_copies [OF Cons.prems(1-6) m] Cons.prems(8) by auto
  note up = becomes_view [OF x1(1)]
  have "\<forall>g \<in> set fs. (GetFile (Meta x1) g = None \<or> mirrors s x1 g) \<and> map_of fm g = GetFile (Meta x1) g"
    using Cons.prems(8,9) x1(2) copied_keeps [OF x1(2)] by (auto simp: copied_def)
  then obtain x2 where "becomes t x2 (push_file self t fm f c) (fold (push_file self t fm) fs (push_file self t fm f c))"
    "copied s (set fs) x1 x2"
    using Cons.IH [OF up(1) _ s(2,3) up(3)] Cons.prems up(4) [OF s(2)] x1(2) by (auto simp: copied_def)
  then have "becomes t x2 c (fold (push_file self t fm) (f # fs) c)" "copied s (set (f # fs)) x x2"
    using becomes_trans [OF x1(1)] copied_trans [OF x1(2)] by simp_all
  then show ?case by blast
qed (auto intro: becomes_refl)

text \<open>Without faults, fetched metadata are the files in range, and fetching changes nothing.\<close>

lemma fetch_calm:
  assumes c: "calm c" and ord: "\<And>xs. mset (Ord c xs) = mset xs" and x: "view (Address t) c = Some x" "wf_metadata (Meta x)"
  obtains fm where "fetchMetadataFromNode t lo hi c = (fm, c)"
    "\<And>f. map_of fm f = (case GetFile (Meta x) f of None \<Rightarrow> None
       | Some m \<Rightarrow> if IsHashInRange (FileNameHash m) lo hi then Some m else None)"
proof -
  obtain x0 where x0: "node (Address t) c = Some x0" "Meta x = Meta x0" using x(1) by (rule view_SomeE)
  have wf: "wf_map (Files (Meta x0))" using x(2) x0(2) by (simp add: wf_metadata_def)
  obtain names where names: "GetFilesWithinRange (Ord c) (Files (Meta x0)) (Some (lo, hi)) = Inr names" "distinct names"
    "set names = {n. \<exists>f. map_of (Files (Meta x0)) n = Some f \<and> IsHashInRange (FileNameHash f) lo hi}"
    using files_within_range [OF wf ord] by blast
  let ?put = "\<lambda>name. AList.update name (case map_of (Files (Meta x0)) name of None \<Rightarrow> zero_FileMetadata | Some meta \<Rightarrow> meta)"
  have put: "map_of (fold ?put ns r) f = (if f \<in> set ns
      then Some (case map_of (Files (Meta x0)) f of None \<Rightarrow> zero_FileMetadata | Some meta \<Rightarrow> meta) else map_of r f)" for ns r f
    by (induction ns arbitrary: r) (auto simp: update_conv')
  have "fetchMetadataFromNode t lo hi c = (fold ?put names [], c)"
    using x0(1) names(1) put_node_same [OF x0(1)]
    by (simp add: fetchMetadataFromNode_def GetKeysMetadata_def makeRPCCall_def calm_next_link [OF c] GetFilesMetadata_def)
  then show ?thesis by (rule that) (auto simp: put names(3) x0(2) GetFile_def split: option.split)
qed

text \<open>
  The successors in turn: what pushing does to one, here given as a step from \<open>P\<close> to \<open>Q\<close>, it does to
  each, and to no one else.
\<close>

lemma push_successors:
  assumes c: "calm c" "\<And>xs. mset (Ord c xs) = mset xs" and s: "view self c = Some s"
    and step: "\<And>t c x fm. t \<noteq> self \<Longrightarrow> calm c \<Longrightarrow> view self c = Some s \<Longrightarrow> view t c = Some x \<Longrightarrow> P x \<Longrightarrow>
      \<forall>f. map_of fm f = (case GetFile (Meta x) f of None \<Rightarrow> None
         | Some m \<Rightarrow> if IsHashInRange (FileNameHash m) lo hi then Some m else None) \<Longrightarrow>
      \<exists>x'. becomes t x' c (fold (push_file self t fm) fs c) \<and> Q x x'"
    and wf: "\<And>x. P x \<Longrightarrow> wf_metadata (Meta x)"
    and ss: "distinct (map Address ss)" "self \<notin> Address ` set ss"
    and x: "\<forall>t \<in> set ss. \<exists>x. view (Address t) c = Some x \<and> P x"
  shows "calm (pushFilesToSuccessors self fs ss lo hi c) \<and> Ord (pushFilesToSuccessors self fs ss lo hi c) = Ord c \<and>
    (\<forall>b. b \<notin> Address ` set ss \<longrightarrow> view b (pushFilesToSuccessors self fs ss lo hi c) = view b c) \<and>
    (\<forall>t \<in> set ss. \<exists>x x'. view (Address t) c = Some x \<and>
      view (Address t) (pushFilesToSuccessors self fs ss lo hi c) = Some x' \<and> P x \<and> Q x x')"
  using c s ss x
proof (induction ss arbitrary: c)
  case Nil
  then show ?case by (simp add: pushFilesToSuccessors_def)
next
  case (Cons t ss)
  obtain x where x: "view (Address t) c = Some x" "P x" using Cons.prems(6) by auto
  obtain fm where fm: "fetchMetadataFromNode t lo hi c = (fm, c)"
    "\<And>f. map_of fm f = (case GetFile (Meta x) f of None \<Rightarrow> None
       | Some m \<Rightarrow> if IsHashInRange (FileNameHash m) lo hi then Some m else None)"
    by (rule fetch_calm [OF Cons.prems(1,2) x(1) wf [OF x(2)], of lo hi]) blast
  let ?c = "fold (push_file self (Address t) fm) fs c"
  have self: "self \<noteq> Address t" using Cons.prems(5) by auto
  then obtain x' where x': "becomes (Address t) x' c ?c" "Q x x'"
    using step [OF _ Cons.prems(1,3) x allI, OF _ fm(2)] by auto
  note up = becomes_view [OF x'(1)]
  have push: "pushFilesToSuccessors self fs (t # ss) lo hi c = pushFilesToSuccessors self fs ss lo hi ?c"
    by (simp add: pushFilesToSuccessors_def fm(1))
  have t: "Address t \<notin> Address ` set ss" "distinct (map Address ss)" "self \<notin> Address ` set ss"
    using Cons.prems(4,5) by auto
  have same: "view (Address u) ?c = view (Address u) c" if "u \<in> set ss" for u
    using up(4) that t(1) by (metis imageI)
  have "\<forall>u \<in> set ss. \<exists>x. view (Address u) ?c = Some x \<and> P x" using Cons.prems(6) same by simp
  from Cons.IH [OF up(1) _ _ t(2,3) this]
  have IH: "calm (pushFilesToSuccessors self fs ss lo hi ?c)" "Ord (pushFilesToSuccessors self fs ss lo hi ?c) = Ord c"
    "\<And>b. b \<notin> Address ` set ss \<Longrightarrow> view b (pushFilesToSuccessors self fs ss lo hi ?c) = view b ?c"
    "\<And>u. u \<in> set ss \<Longrightarrow> \<exists>x x'. view (Address u) ?c = Some x \<and>
      view (Address u) (pushFilesToSuccessors self fs ss lo hi ?c) = Some x' \<and> P x \<and> Q x x'"
    using up(2,4) self Cons.prems(2,3) by auto
  have "view b (pushFilesToSuccessors self fs ss lo hi ?c) = view b c" if "b \<notin> Address ` set (t # ss)" for b
    using that IH(3) [of b] up(4) [of b] by simp
  moreover have "\<exists>y y'. view (Address u) c = Some y \<and>
      view (Address u) (pushFilesToSuccessors self fs ss lo hi ?c) = Some y' \<and> P y \<and> Q y y'" if "u \<in> set (t # ss)" for u
    using that IH(4) [of u] same [of u] x x'(2) up(3) IH(3) [OF t(1)] by auto
  ultimately show ?case using IH(1,2) unfolding push by blast
qed

section \<open>Nothing to pull\<close>

lemma pull_known_appends:
  "\<forall>a \<in> set as. AppendID a \<in> set known \<Longrightarrow> fold (pull_append self t f known) as c = c"
  by (induction as) (simp_all add: pull_append_def)

text \<open>The node has the file, with at least the appends that \<open>m\<close> lists.\<close>

definition knows_appends :: "Server \<Rightarrow> string \<Rightarrow> FileMetadata \<Rightarrow> bool" where
  "knows_appends s f m \<longleftrightarrow>
     (\<exists>m0. GetFile (Meta s) f = Some m0 \<and> AppendID ` set (Appends m) \<subseteq> AppendID ` set (Appends m0))"

lemma pull_nothing:
  assumes c: "calm c" "\<And>xs. mset (Ord c xs) = mset xs" and s: "view self c = Some s"
    and x: "\<forall>t \<in> set ss. \<exists>x. view (Address t) c = Some x \<and> wf_metadata (Meta x) \<and>
      (\<forall>f m. GetFile (Meta x) f = Some m \<and> IsHashInRange (FileNameHash m) lo hi \<longrightarrow> knows_appends s f m)"
  shows "getFilesFromSuccessors self ss lo hi c = c"
  using x
proof (induction ss)
  case (Cons t ss)
  obtain x where x: "view (Address t) c = Some x" "wf_metadata (Meta x)"
    "\<And>f m. GetFile (Meta x) f = Some m \<Longrightarrow> IsHashInRange (FileNameHash m) lo hi \<Longrightarrow> knows_appends s f m"
    using Cons.prems by auto
  obtain fm where fm: "fetchMetadataFromNode t lo hi c = (fm, c)"
    "\<And>f. map_of fm f = (case GetFile (Meta x) f of None \<Rightarrow> None
       | Some m \<Rightarrow> if IsHashInRange (FileNameHash m) lo hi then Some m else None)"
    by (rule fetch_calm [OF c x(1,2), of lo hi]) blast
  obtain s0 where s0: "node self c = Some s0" "Meta s = Meta s0" using s by (rule view_SomeE)
  have known: "knows_appends s f m" if "map_of fm f = Some m" for f m
    using that x(3) [of f m] by (auto simp: fm(2) split: option.splits if_splits)
  have "pull_file self (Address t) fm f c = c" for f
  proof (cases "map_of fm f")
    case (Some m)
    then obtain m0 where "GetFile (Meta s0) f = Some m0" "AppendID ` set (Appends m) \<subseteq> AppendID ` set (Appends m0)"
      using known [of f m] s0(2) by (auto simp: knows_appends_def)
    with Some s0(1) show ?thesis by (simp add: pull_file_def) (intro pull_known_appends, auto)
  qed (simp add: pull_file_def split: option.split)
  then have "fold (pull_file self (Address t) fm) fs c = c" for fs by (induction fs) auto
  with Cons show ?case by (simp add: getFilesFromSuccessors_def fm(1))
qed (simp add: getFilesFromSuccessors_def)

lemma push_pull:
  assumes c: "calm c" "\<And>xs. mset (Ord c xs) = mset xs" and s: "view self c = Some s" "wf_metadata (Meta s)"
    and fs: "distinct fs" "set fs = {f. \<exists>m. GetFile (Meta s) f = Some m \<and> IsHashInRange (FileNameHash m) lo hi}"
    and complete: "\<And>f m. f \<in> set fs \<Longrightarrow> GetFile (Meta s) f = Some m \<Longrightarrow> complete_file s m"
    and ss: "distinct (map Address ss)" "self \<notin> Address ` set ss"
    and x: "\<And>t. t \<in> set ss \<Longrightarrow> \<exists>x. view (Address t) c = Some x \<and> wf_metadata (Meta x) \<and>
      (\<forall>f. f \<in> set fs \<or> (\<exists>m. GetFile (Meta x) f = Some m \<and> IsHashInRange (FileNameHash m) lo hi) \<longrightarrow>
        GetFile (Meta x) f = None \<or> mirrors s x f)"
  defines "c' \<equiv> pushFilesToSuccessors self fs ss lo hi c"
  shows "getFilesFromSuccessors self ss lo hi c' = c' \<and> view self c' = Some s \<and>
    (\<forall>t \<in> set ss. \<exists>x. view (Address t) c' = Some x \<and> (\<forall>f \<in> set fs. mirrors s x f))"
proof -
  have files: "\<forall>f \<in> set fs. \<exists>m. GetFile (Meta s) f = Some m \<and> complete_file s m \<and> IsHashInRange (FileNameHash m) lo hi"
    using complete fs(2) by blast
  let ?P = "\<lambda>x. wf_metadata (Meta x) \<and> (\<forall>f \<in> set fs. GetFile (Meta x) f = None \<or> mirrors s x f)"
  have step: "\<exists>x'. becomes t x' c (fold (push_file self t fm) fs c) \<and> copied s (set fs) x x'"
    if "t \<noteq> self" "calm c" "view self c = Some s" "view t c = Some x" "?P x"
      and fm: "\<forall>f. map_of fm f = (case GetFile (Meta x) f of None \<Rightarrow> None
         | Some m \<Rightarrow> if IsHashInRange (FileNameHash m) lo hi then Some m else None)" for t c x fm
  proof -
    have "map_of fm f = GetFile (Meta x) f" if f: "f \<in> set fs" for f
    proof (cases "mirrors s x f")
      case True
      with files f show ?thesis by (auto simp: fm mirrors_def)
    qed (use \<open>?P x\<close> f in \<open>auto simp: fm\<close>)
    then have "\<forall>f \<in> set fs. (GetFile (Meta x) f = None \<or> mirrors s x f) \<and> map_of fm f = GetFile (Meta x) f"
      using that(5) by blast
    moreover have "\<forall>f \<in> set fs. \<exists>m. GetFile (Meta s) f = Some m \<and> complete_file s m" using files by blast
    ultimately show ?thesis using push_files [OF that(2,3) that(1) [symmetric] s(2) that(4)] that(5) fs(1) by blast
  qed
  have "\<exists>x. view (Address t) c = Some x \<and> ?P x" if "t \<in> set ss" for t using x [OF that] by blast
  then have states: "\<forall>t \<in> set ss. \<exists>x. view (Address t) c = Some x \<and> ?P x" by simp
  have "calm c' \<and> Ord c' = Ord c \<and> (\<forall>b. b \<notin> Address ` set ss \<longrightarrow> view b c' = view b c) \<and>
    (\<forall>t \<in> set ss. \<exists>x x'. view (Address t) c = Some x \<and> view (Address t) c' = Some x' \<and> ?P x \<and> copied s (set fs) x x')"
    unfolding c'_def by (rule push_successors [OF c s(1) _ _ ss states]) (rule step, assumption+, simp)
  then have push: "calm c'" "Ord c' = Ord c" "\<forall>b. b \<notin> Address ` set ss \<longrightarrow> view b c' = view b c"
    and copies: "\<forall>t \<in> set ss. \<exists>x x'. view (Address t) c = Some x \<and> view (Address t) c' = Some x' \<and> ?P x \<and> copied s (set fs) x x'"
    by blast+
  have self: "view self c' = Some s" using push(3) ss(2) s(1) by simp
  have "\<exists>x. view (Address t) c' = Some x \<and> wf_metadata (Meta x) \<and>
      (\<forall>f m. GetFile (Meta x) f = Some m \<and> IsHashInRange (FileNameHash m) lo hi \<longrightarrow> knows_appends s f m)"
    if t: "t \<in> set ss" for t
  proof -
    obtain y y' where y: "view (Address t) c = Some y" "view (Address t) c' = Some y'" "copied s (set fs) y y'"
      using copies t by blast
    have same: "GetFile (Meta y') f = (if f \<in> set fs then GetFile (Meta s) f else GetFile (Meta y) f)" for f
      using y(3) by (simp add: copied_def)
    have "GetFile (Meta s) f = Some m" if m: "GetFile (Meta y') f = Some m" "IsHashInRange (FileNameHash m) lo hi" for f m
    proof (cases "f \<in> set fs")
      case False
      with m same have g: "GetFile (Meta y) f = Some m" by simp
      with x [OF t] y(1) m(2) have "mirrors s y f" by fastforce
      with g show ?thesis by (simp add: mirrors_def)
    qed (use m same in simp)
    moreover have "wf_metadata (Meta y')" using y(3) by (simp add: copied_def)
    ultimately show ?thesis using y(2) by (auto simp: knows_appends_def)
  qed
  then have "getFilesFromSuccessors self ss lo hi c' = c'"
    using c(2) by (intro pull_nothing [OF push(1) _ self]) (simp_all add: push(2))
  moreover have "mirrors s x' f" if "copied s (set fs) x x'" "f \<in> set fs" for x x' f
    using copied_mirrors [OF that] files that(2) by auto
  ultimately show ?thesis using self copies by blast
qed

section \<open>The replicas are restored\<close>

text \<open>\<open>x\<close> stores the file, and in the eyes of \<open>s\<close> its primary is \<open>me\<close>.\<close>

definition primary_for :: "Server \<Rightarrow> Member \<Rightarrow> Server \<Rightarrow> string \<Rightarrow> bool" where
  "primary_for s me x f \<longleftrightarrow> (\<exists>m ts. GetFile (Meta x) f = Some m \<and>
     findTargetNodes (Members s) (FileNameHash m) (ReplicationFactor (Config s)) = Inr (me # ts))"

lemma get_loop_cong:
  "\<forall>p \<in> set paths. map_of d p = map_of d' p \<Longrightarrow> get_loop os d f paths = get_loop os d' f paths"
  by (induction paths) (auto simp: Let_def split: option.split)

lemma mirrors_contents:
  assumes "mirrors s x f" and "node a c = Some s" and "node b c' = Some x" and "wf_metadata (Meta s)"
  shows "contents_at b f c' = contents_at a f c"
proof -
  obtain m where m: "GetFile (Meta s) f = Some m" "GetFile (Meta x) f = Some m" "FileName m = f"
    using assms(1,4) by (auto simp: mirrors_def wf_metadata_def)
  have "\<forall>p \<in> set (f # map AppendID (Appends m)). map_of (FileDirectory x) p = map_of (FileDirectory s) p"
    using assms(1) m(1) by (auto simp: mirrors_def stored_names_def)
  then have "get_loop no_faults (FileDirectory x) f (f # map AppendID (Appends m)) =
      get_loop no_faults (FileDirectory s) f (f # map AppendID (Appends m))"
    by (rule get_loop_cong)
  then show ?thesis
    using assms(2,3) m by (simp add: contents_at_def HyDFS_GetFile_def Let_def del: get_loop.simps)
qed

lemma mirrors_view [simp]:
  "mirrors (s\<lparr>Bandwidth := b\<rparr>) x f = mirrors s x f" "mirrors s (x\<lparr>Bandwidth := b\<rparr>) f = mirrors s x f"
  "complete_file (s\<lparr>Bandwidth := b\<rparr>) m = complete_file s m" "primary_for s me (x\<lparr>Bandwidth := b\<rparr>) f = primary_for s me x f"
  by (simp_all add: mirrors_def stored_names_def complete_file_def complete_append_def primary_for_def)

text \<open>What a primary works with: its range, its files in it, and its successors.\<close>

lemma primary_setup:
  assumes ord: "\<And>xs. mset (ord xs) = mset xs" and wf: "wf_metadata (Meta s)"
    and ok: "ring_ok (Members s)" "distinct (map Address (Members s))" "1 \<le> ReplicationFactor (Config s)"
    and me: "me \<in> set (Members s)" "ID me = ServerID s" "IsAlive me"
  obtains lo hi succ fs where "GetPrimaryKeyRange (Members s) (ServerID s) = Inr (Some (lo, hi))"
    "\<And>x f. primary_for s me x f \<longleftrightarrow> (\<exists>m. GetFile (Meta x) f = Some m \<and> IsHashInRange (FileNameHash m) lo hi)"
    "GetSuccessors (Members s) (ServerID s) (ReplicationFactor (Config s)) = Inr succ"
    "set succ \<subseteq> {m \<in> set (Members s). IsAlive m} - {me}"
    "distinct (map Address succ)" "Address me \<notin> Address ` set succ"
    "\<And>h ts. findTargetNodes (Members s) h (ReplicationFactor (Config s)) = Inr (me # ts) \<Longrightarrow> set ts \<subseteq> insert me (set succ)"
    "GetFilesWithinRange ord (Files (Meta s)) (Some (lo, hi)) = Inr fs" "distinct fs"
    "\<And>f. f \<in> set fs \<longleftrightarrow> primary_for s me s f"
proof -
  let ?rf = "ReplicationFactor (Config s)"
  obtain k where k: "k < length (Members s)" "Members s ! k = me" using me(1) by (auto simp: in_set_conv_nth)
  obtain lo hi where r: "GetPrimaryKeyRange (Members s) (ServerID s) = Inr (Some (lo, hi))"
    "\<And>h. IsHashInRange h lo hi \<longleftrightarrow> (\<exists>ts. findTargetNodes (Members s) h ?rf = Inr (me # ts))"
    by (rule primary_range [OF ok(1) k(1) _ ok(3), unfolded k(2) me(2), OF me(3)]) blast
  have mine: "primary_for s me x f \<longleftrightarrow> (\<exists>m. GetFile (Meta x) f = Some m \<and> IsHashInRange (FileNameHash m) lo hi)" for x f
    by (auto simp: primary_for_def r(2))
  obtain succ where succ: "GetSuccessors (Members s) (ServerID s) ?rf = Inr succ"
    "set succ \<subseteq> {m \<in> set (Members s). IsAlive m} - {me}" "distinct succ"
    "\<And>h ts. findTargetNodes (Members s) h ?rf = Inr (me # ts) \<Longrightarrow> set ts \<subseteq> insert me (set succ)"
    by (rule targets_among_successors [OF ok(1) k(1) ok(3), unfolded k(2) me(2)]) blast
  have inj: "inj_on Address (set (Members s))" using ok(2) by (simp add: distinct_map)
  have "inj_on Address (set succ)" by (rule inj_on_subset [OF inj]) (use succ(2) in blast)
  then have "distinct (map Address succ)" using succ(3) by (simp add: distinct_map)
  moreover have "Address me \<notin> Address ` set succ"
  proof
    assume "Address me \<in> Address ` set succ"
    then obtain u where "u \<in> set succ" "Address me = Address u" by auto
    with inj_onD [OF inj this(2) me(1)] succ(2) show False by blast
  qed
  moreover obtain fs where "GetFilesWithinRange ord (Files (Meta s)) (Some (lo, hi)) = Inr fs" "distinct fs"
    "set fs = {n. \<exists>f. map_of (Files (Meta s)) n = Some f \<and> IsHashInRange (FileNameHash f) lo hi}"
    using files_within_range [OF _ ord] wf unfolding wf_metadata_def by blast
  moreover from this(3) have "f \<in> set fs \<longleftrightarrow> primary_for s me s f" for f by (simp add: mine GetFile_def)
  ultimately show ?thesis using that [OF r(1) mine succ(1,2)] succ(4) by blast
qed

text \<open>
  C4. A stabilization restores the replicas: let a node be alive on its own list, let it store completely
  the files it is the primary of, and let every other alive member be reachable and have each of
  these files either not at all or like the node, and no further file of the node's range. Then,
  without faults and whichever members are dead but still listed, \<open>stabilizeRing\<close> leaves each of the
  files, with metadata, contents and appends, on each of its targets, and a download from any of them
  yields what one from the node itself yields.
\<close>

theorem stabilization_restores_replicas:
  assumes c: "calm c" "\<And>xs. mset (Ord c xs) = mset xs" and s: "node self c = Some s" "wf_metadata (Meta s)"
    and ok: "ring_ok (Members s)" "distinct (map Address (Members s))" "1 \<le> ReplicationFactor (Config s)"
    and me: "me \<in> set (Members s)" "ID me = ServerID s" "Address me = self" "IsAlive me"
    and complete: "\<forall>f m. primary_for s me s f \<and> GetFile (Meta s) f = Some m \<longrightarrow> complete_file s m"
    and others: "\<forall>t \<in> set (Members s) - {me}. IsAlive t \<longrightarrow> (\<exists>x. node (Address t) c = Some x \<and>
      wf_metadata (Meta x) \<and> (\<forall>f. primary_for s me s f \<or> primary_for s me x f \<longrightarrow>
        GetFile (Meta x) f = None \<or> mirrors s x f))"
    and f: "GetFile (Meta s) f = Some m"
      "findTargetNodes (Members s) (FileNameHash m) (ReplicationFactor (Config s)) = Inr (me # ts)"
    and t: "t \<in> set (me # ts)"
  shows "(\<exists>x. node (Address t) (stabilizeRing self '''' c) = Some x \<and> mirrors s x f) \<and>
    contents_at (Address t) f (stabilizeRing self '''' c) = contents_at self f c"
proof -
  obtain lo hi succ fs where r: "GetPrimaryKeyRange (Members s) (ServerID s) = Inr (Some (lo, hi))"
    "\<And>x f. primary_for s me x f \<longleftrightarrow> (\<exists>m. GetFile (Meta x) f = Some m \<and> IsHashInRange (FileNameHash m) lo hi)"
    and succ: "GetSuccessors (Members s) (ServerID s) (ReplicationFactor (Config s)) = Inr succ"
      "set succ \<subseteq> {m \<in> set (Members s). IsAlive m} - {me}"
    and addr: "distinct (map Address succ)" "self \<notin> Address ` set succ" and ts: "set ts \<subseteq> insert me (set succ)"
    and fs: "GetFilesWithinRange (Ord c) (Files (Meta s)) (Some (lo, hi)) = Inr fs" "distinct fs"
      "\<And>f. f \<in> set fs \<longleftrightarrow> primary_for s me s f"
    by (rule primary_setup [OF c(2) s(2) ok me(1,2,4), unfolded me(3)]) (use f(2) in blast)
  let ?v = "s\<lparr>Bandwidth := \<lparr>BytesSent = 0, BytesReceived = 0\<rparr>\<rparr>"
  have v: "view self c = Some ?v" using s(1) by (simp add: view_def)
  have states: "\<exists>x. view (Address u) c = Some x \<and> wf_metadata (Meta x) \<and>
      (\<forall>f. f \<in> set fs \<or> (\<exists>m. GetFile (Meta x) f = Some m \<and> IsHashInRange (FileNameHash m) lo hi) \<longrightarrow>
        GetFile (Meta x) f = None \<or> mirrors ?v x f)" if "u \<in> set succ" for u
  proof -
    obtain x where "node (Address u) c = Some x" "wf_metadata (Meta x)"
      "\<forall>f. primary_for s me s f \<or> primary_for s me x f \<longrightarrow> GetFile (Meta x) f = None \<or> mirrors s x f"
      using others succ(2) \<open>u \<in> set succ\<close> by blast
    then show ?thesis by (simp add: view_def fs(3) r(2) [symmetric])
  qed
  define c1 where "c1 = pushFilesToSuccessors self fs succ lo hi c"
  have "complete_file ?v m" if "f \<in> set fs" "GetFile (Meta ?v) f = Some m" for f m
    using complete that by (simp add: fs(3))
  note push_pull [OF c v _ fs(2) _ this addr states, folded c1_def]
  then have pp: "getFilesFromSuccessors self succ lo hi c1 = c1" "view self c1 = Some ?v"
    "\<And>u. u \<in> set succ \<Longrightarrow> \<exists>x. view (Address u) c1 = Some x \<and> (\<forall>f \<in> set fs. mirrors s x f)"
    using s(2) fs(3) by (simp_all add: set_eq_iff r(2))
  have st: "stabilizeRing self '''' c = c1"
    using s(1) r(1) fs(1) succ(1) pp(1)
    by (simp add: stabilizeRing_def GetAll_def files_to_push_def c1_def pushFilesToSuccessors_def)
  have fs_f: "f \<in> set fs" using f by (auto simp: fs(3) primary_for_def)
  have "\<exists>x. view (Address t) c1 = Some x \<and> mirrors s x f"
  proof (cases "t = me")
    case False
    then have "t \<in> set succ" using t ts by auto
    with pp(3) fs_f show ?thesis by blast
  qed (use pp(2) me(3) f(1) in \<open>simp add: mirrors_def\<close>)
  then have "\<exists>x. node (Address t) c1 = Some x \<and> mirrors s x f" by (auto simp: view_def)
  then show ?thesis using mirrors_contents [OF _ s(1) _ s(2)] unfolding st by blast
qed

text \<open>The first of three nodes stores a file with an append, the other two do not have it.\<close>

definition lonely_server :: Server where
  "lonely_server = (trio_server ''127.0.0.1:5000'')\<lparr>
     Meta := AddFile ((example_file ''f'' 20)\<lparr>Appends := [lost_append]\<rparr>) new_Metadata,
     FileDirectory := [(''f'', [1]), (''f_7_vm2'', [2])]\<rparr>"

definition lonely_cluster :: Cluster where
  "lonely_cluster = put_node ''127.0.0.1:5000'' lonely_server trio_cluster"

lemma calm_trio: "calm trio_cluster"
  by (simp add: calm_def)

lemma lonely_simps [simp]:
  "Members lonely_server = trio" "ServerID lonely_server = ''127.0.0.1:5000-0''" "Config lonely_server = example_config"
  "FileDirectory lonely_server = [(''f'', [1]), (''f_7_vm2'', [2])]"
  "GetFile (Meta lonely_server) k = (if k = ''f'' then Some ((example_file ''f'' 20)\<lparr>Appends := [lost_append]\<rparr>) else None)"
  "node a lonely_cluster = (if a = ''127.0.0.1:5000'' then Some lonely_server else node a trio_cluster)"
  "Ord lonely_cluster = id" "calm lonely_cluster" "wf_metadata (Meta lonely_server)"
  using ServerID_trio [of "''127.0.0.1:5000''"]
  by (simp_all add: lonely_server_def GetFile_AddFile example_file_def lonely_cluster_def ServerID_def
      calm_trio wf_AddFile wf_new_Metadata del: node_trio)

theorem stabilization_restores_replicas_witness:
  "contents_at ''127.0.0.1:5001'' ''f'' lonely_cluster = Some [] \<and>
   contents_at ''127.0.0.1:5001'' ''f'' (stabilizeRing ''127.0.0.1:5000'' '''' lonely_cluster) = Some [1, 10, 2]"
proof -
  let ?me = "example_member ''127.0.0.1:5000'' 29 StatusAlive" and ?t = "example_member ''127.0.0.1:5001'' 88 StatusAlive"
  let ?m = "(example_file ''f'' 20)\<lparr>Appends := [lost_append]\<rparr>"
  have ts: "findTargetNodes trio 20 3 = Inr (?me # [example_member ''127.0.0.1:5002'' 60 StatusAlive, ?t])"
    by (simp add: findTargetNodes_def primaryIndex_def first_index_def trio_def target_loop.simps go_nth_def go_mod_def Let_def)
  have full: "complete_file lonely_server ?m"
    by (simp add: complete_file_def complete_append_def example_file_def lost_append_def client_ordered_def)
  have served: "contents_at (Address ?t) ''f'' (stabilizeRing ''127.0.0.1:5000'' '''' lonely_cluster) =
      contents_at ''127.0.0.1:5000'' ''f'' lonely_cluster"
  proof (rule stabilization_restores_replicas [where s = lonely_server and me = ?me and m = ?m, THEN conjunct2])
    show "\<forall>t \<in> set (Members lonely_server) - {?me}. IsAlive t \<longrightarrow> (\<exists>x. node (Address t) lonely_cluster = Some x \<and>
        wf_metadata (Meta x) \<and> (\<forall>f. primary_for lonely_server ?me lonely_server f \<or> primary_for lonely_server ?me x f \<longrightarrow>
          GetFile (Meta x) f = None \<or> mirrors lonely_server x f))"
      by (auto simp: trio_def wf_new_Metadata)
    show "\<forall>f m. primary_for lonely_server ?me lonely_server f \<and> GetFile (Meta lonely_server) f = Some m \<longrightarrow>
        complete_file lonely_server m"
      using full by auto
    show "findTargetNodes (Members lonely_server) (FileNameHash ?m) (ReplicationFactor (Config lonely_server)) =
        Inr (?me # [example_member ''127.0.0.1:5002'' 60 StatusAlive, ?t])"
      using ts by (simp add: example_file_def)
  qed (simp_all add: ring_ok_def trio_def ID_example)
  have "contents_at ''127.0.0.1:5001'' ''f'' lonely_cluster = Some []"
    by (simp add: contents_at_def HyDFS_GetFile_def stream_data_def)
  moreover have "contents_at ''127.0.0.1:5000'' ''f'' lonely_cluster = Some (join_lines [[1], [2]])"
    by (rule contents_at_eq [where paths = "[''f'', ''f_7_vm2'']"]) (simp add: example_file_def lost_append_def)
  ultimately show ?thesis using served by simp
qed

end
