(* ===== verification/Merge_Replicas.thy ===== *)
theory Merge_Replicas
  imports Stabilization
begin

text \<open>
  That a merge makes the replicas of a file equal: replicas that miss appends of the primary, or list
  them in another order, mirror it afterwards, as long as none lists an append the primary misses.
\<close>

section \<open>Replicas that lag behind\<close>

text \<open>\<open>x\<close> has the file of \<open>s\<close> with some of its appends, in any order; and with all of them.\<close>

definition lags :: "Server \<Rightarrow> Server \<Rightarrow> string \<Rightarrow> bool" where
  "lags s x f \<longleftrightarrow> (\<exists>m as. GetFile (Meta s) f = Some m \<and> GetFile (Meta x) f = Some (m\<lparr>Appends := as\<rparr>) \<and>
     set as \<subseteq> set (Appends m) \<and> distinct (map AppendID as) \<and>
     (\<forall>p \<in> insert f (AppendID ` set as). map_of (FileDirectory x) p = map_of (FileDirectory s) p))"

definition caught_up :: "Server \<Rightarrow> Server \<Rightarrow> string \<Rightarrow> bool" where
  "caught_up s x f \<longleftrightarrow> lags s x f \<and>
     (\<forall>m m'. GetFile (Meta s) f = Some m \<and> GetFile (Meta x) f = Some m' \<longrightarrow> set (Appends m) \<subseteq> set (Appends m'))"

lemma mirrors_caught_up:
  assumes "mirrors s x f" and "GetFile (Meta s) f = Some m" and "distinct (map AppendID (Appends m))"
  shows "caught_up s x f"
  using assms by (auto simp: mirrors_def caught_up_def lags_def stored_names_def intro!: exI [of _ "Appends m"])

text \<open>An append with the identifiers of the primary in the same order is the primary's list.\<close>

lemma same_ids:
  assumes "map AppendID as = map AppendID bs" and "set as \<subseteq> set bs" and "distinct (map AppendID bs)"
  shows "as = bs"
proof (rule nth_equalityI)
  show len: "length as = length bs" using map_eq_imp_length_eq [OF assms(1)] .
  fix i assume i: "i < length as"
  then obtain j where j: "j < length bs" "as ! i = bs ! j" using assms(2) nth_mem [of i as] by (metis in_set_conv_nth subsetD)
  have "AppendID (bs ! i) = AppendID (bs ! j)" using arg_cong [OF assms(1), of "\<lambda>xs. xs ! i"] i len j by simp
  then show "as ! i = bs ! i" using assms(3) i j len by (simp add: distinct_conv_nth) metis
qed

lemma caught_up_mirrors:
  assumes "caught_up s x f" and "GetFile (Meta s) f = Some m" "distinct (map AppendID (Appends m))"
    and y: "GetFile (Meta y) f = Some m" "FileDirectory y = FileDirectory x"
  shows "mirrors s y f"
proof -
  obtain as where "GetFile (Meta x) f = Some (m\<lparr>Appends := as\<rparr>)" "set as = set (Appends m)"
    "\<forall>p \<in> insert f (AppendID ` set as). map_of (FileDirectory x) p = map_of (FileDirectory s) p"
    using assms(1,2) by (auto simp: caught_up_def lags_def)
  then show ?thesis using assms(2) y by (simp add: mirrors_def stored_names_def)
qed

lemma push_append_filter:
  "fold (push_append self t known) as c = fold (push_append self t []) (filter (\<lambda>a. AppendID a \<notin> set known) as) c"
  by (induction as arbitrary: c) (simp_all add: push_append_def)

text \<open>Pushing the file completes a replica that lags behind, and leaves a complete one as it is.\<close>

lemma push_file_completes:
  assumes c: "calm c" and s: "view self c = Some s" "self \<noteq> t" "wf_metadata (Meta s)"
    and x: "view t c = Some x" "wf_metadata (Meta x)"
    and f: "GetFile (Meta s) f = Some m" "complete_file s m"
    and state: "lags s x f" and remote: "map_of fm f = GetFile (Meta x) f"
  shows "\<exists>x'. becomes t x' c (push_file self t fm f c) \<and> wf_metadata (Meta x') \<and> caught_up s x' f \<and>
    (\<forall>g. g \<noteq> f \<longrightarrow> GetFile (Meta x') g = GetFile (Meta x) g) \<and> (mirrors s x f \<longrightarrow> mirrors s x' f)"
proof -
  obtain s0 where s0: "node self c = Some s0" "Meta s = Meta s0" using s(1) by (rule view_SomeE)
  have n: "FileName m = f" using s(3) f(1) by (auto simp: wf_metadata_def)
  obtain as where as: "GetFile (Meta x) f = Some (m\<lparr>Appends := as\<rparr>)" "set as \<subseteq> set (Appends m)" "distinct (map AppendID as)"
    "\<forall>p \<in> insert f (AppendID ` set as). map_of (FileDirectory x) p = map_of (FileDirectory s) p"
    using state f(1) by (auto simp: lags_def)
  let ?new = "filter (\<lambda>a. AppendID a \<notin> set (map AppendID as)) (Appends m)"
  let ?x = "fold (\<lambda>a. store_append a (content s (AppendID a))) ?new x"
  have push: "push_file self t fm f c = fold (push_append self t []) ?new c"
    using s0 f(1) remote as(1) push_append_filter [of self t "map AppendID as" "Appends m" c] by (simp add: push_file_def)
  have d: "distinct (map AppendID (Appends m))" using f(2) by (simp add: complete_file_def)
  have all: "\<forall>a \<in> set (Appends m). complete_append s f a" using f(2) n by (simp add: complete_file_def)
  then have b: "becomes t ?x c (push_file self t fm f c)"
    unfolding push using as(1) by (intro push_appends [OF c s(1,2) x]) auto
  have "distinct (map AppendID ?new)" using d by (rule distinct_map_filter)
  moreover have "\<forall>a \<in> set ?new. complete_append s f a \<and> AppendID a \<notin> AppendID ` set (Appends (m\<lparr>Appends := as\<rparr>))"
    using all by simp
  ultimately have new: "wf_metadata (Meta ?x)"
    "GetFile (Meta ?x) k = (if k = f then Some (m\<lparr>Appends := fold (\<lambda>a as. insert_append as a) ?new as\<rparr>) else GetFile (Meta x) k)"
    "map_of (FileDirectory ?x) p = (if p \<in> AppendID ` set ?new then map_of (FileDirectory s) p else map_of (FileDirectory x) p)"
    for k p
    using store_appends [OF x(2) as(1), of ?new s] by simp_all
  let ?as = "fold (\<lambda>a as. insert_append as a) ?new as"
  have ms: "mset ?as = mset (as @ ?new)" by (simp add: mset_fold_insert_append)
  have "a \<in> set as" if "a \<in> set (Appends m)" "AppendID a \<in> AppendID ` set as" for a
    using that d as(2) by (auto simp: distinct_map dest: inj_onD)
  then have set: "set ?as = set (Appends m)" using same_mset(1) [OF ms] as(2) by auto
  have "distinct (map AppendID (as @ ?new))" using as(3) distinct_map_filter [OF d] by (auto simp: rev_image_eqI)
  moreover have "mset (map AppendID ?as) = mset (map AppendID (as @ ?new))" using ms by (simp only: mset_map)
  ultimately have ids: "distinct (map AppendID ?as)" using same_mset(3) by blast
  have "map_of (FileDirectory ?x) p = map_of (FileDirectory s) p" if "p \<in> insert f (AppendID ` set ?as)" for p
    using that as(4) unfolding new(3) set by (auto split: if_splits)
  then have "caught_up s ?x f"
    using f(1) new(2) [of f] set ids by (auto simp: caught_up_def lags_def)
  moreover have "mirrors s ?x f" if "mirrors s x f"
  proof -
    have "as = Appends m" using that as(1) f(1) by (cases m) (auto simp: mirrors_def)
    then have "?new = []" by (auto simp: filter_empty_conv)
    then show ?thesis using that by (simp only: fold.simps id_apply)
  qed
  ultimately show ?thesis using b new(1,2) by (intro exI [of _ ?x]) simp
qed

section \<open>A stabilization for one file\<close>

text \<open>
  A successor that a merge can serve: of the file it has nothing or some appends, and of all files in
  the range no append that the primary misses.
\<close>

definition mergeable :: "Server \<Rightarrow> string \<Rightarrow> int \<Rightarrow> int \<Rightarrow> Server \<Rightarrow> bool" where
  "mergeable s f lo hi x \<longleftrightarrow> wf_metadata (Meta x) \<and> (GetFile (Meta x) f = None \<or> lags s x f) \<and>
     (\<forall>g m. GetFile (Meta x) g = Some m \<and> IsHashInRange (FileNameHash m) lo hi \<longrightarrow> knows_appends s g m)"

definition served :: "Server \<Rightarrow> string \<Rightarrow> int \<Rightarrow> int \<Rightarrow> Server \<Rightarrow> Server \<Rightarrow> bool" where
  "served s f lo hi x x' \<longleftrightarrow> mergeable s f lo hi x' \<and> caught_up s x' f \<and>
     (GetFile (Meta x) f = None \<or> mirrors s x f \<longrightarrow> mirrors s x' f)"

lemma push_file_serves:
  assumes c: "calm c" and s: "view self c = Some s" "t \<noteq> self" "wf_metadata (Meta s)"
    and x: "view t c = Some x" "mergeable s f lo hi x"
    and f: "GetFile (Meta s) f = Some m" "complete_file s m" "IsHashInRange (FileNameHash m) lo hi"
    and fm: "\<forall>f. map_of fm f = (case GetFile (Meta x) f of None \<Rightarrow> None
      | Some m \<Rightarrow> if IsHashInRange (FileNameHash m) lo hi then Some m else None)"
  shows "\<exists>x'. becomes t x' c (fold (push_file self t fm) [f] c) \<and> served s f lo hi x x'"
proof -
  have d: "distinct (map AppendID (Appends m))" using f(2) by (simp add: complete_file_def)
  have wf: "wf_metadata (Meta x)" using x(2) by (simp add: mergeable_def)
  have others: "mergeable s f lo hi x'" if "wf_metadata (Meta x')" "caught_up s x' f"
    "\<forall>g. g \<noteq> f \<longrightarrow> GetFile (Meta x') g = GetFile (Meta x) g" for x'
  proof -
    have "knows_appends s g m'" if "GetFile (Meta x') g = Some m'" "IsHashInRange (FileNameHash m') lo hi" for g m'
    proof (cases "g = f")
      case True
      then show ?thesis using \<open>caught_up s x' f\<close> that f(1) by (auto simp: caught_up_def lags_def knows_appends_def)
    next
      case False
      then show ?thesis using that x(2) \<open>\<forall>g. g \<noteq> f \<longrightarrow> _ g\<close> by (auto simp: mergeable_def)
    qed
    then show ?thesis using that by (auto simp: mergeable_def caught_up_def)
  qed
  show ?thesis
  proof (cases "GetFile (Meta x) f = None")
    case True
    then have "map_of fm f = GetFile (Meta x) f" using fm by simp
    with True obtain x' where x': "becomes t x' c (push_file self t fm f c)" "copied s {f} x x'"
      using push_file_copies [OF c s(1) s(2) [symmetric] s(3) x(1) wf f(1,2)] by blast
    then have m: "mirrors s x' f" using copied_mirrors [OF x'(2), of f] f(1) by simp
    then have u: "caught_up s x' f" by (rule mirrors_caught_up [OF _ f(1) d])
    have "mergeable s f lo hi x'" using x'(2) by (intro others [OF _ u]) (auto simp: copied_def)
    with m u x'(1) show ?thesis by (auto simp: served_def)
  next
    case False
    then have "lags s x f" using x(2) by (auto simp: mergeable_def)
    moreover from this have "map_of fm f = GetFile (Meta x) f" using fm f(1,3) by (auto simp: lags_def)
    ultimately obtain x' where x': "becomes t x' c (push_file self t fm f c)" "wf_metadata (Meta x')" "caught_up s x' f"
      "\<forall>g. g \<noteq> f \<longrightarrow> GetFile (Meta x') g = GetFile (Meta x) g" "mirrors s x f \<longrightarrow> mirrors s x' f"
      using push_file_completes [OF c s(1) s(2) [symmetric] s(3) x(1) wf f(1,2)] by blast
    then have "served s f lo hi x x'" using others [OF x'(2-4)] False unfolding served_def by blast
    with x'(1) show ?thesis by auto
  qed
qed

lemma stabilize_file:
  assumes c: "calm c" "\<And>xs. mset (Ord c xs) = mset xs" and s: "view self c = Some s" "wf_metadata (Meta s)"
    and r: "GetPrimaryKeyRange (Members s) (ServerID s) = Inr (Some (lo, hi))"
    and ss: "GetSuccessors (Members s) (ServerID s) (ReplicationFactor (Config s)) = Inr ss"
      "distinct (map Address ss)" "self \<notin> Address ` set ss"
    and fs: "GetFilesWithinRange (Ord c) (Files (Meta s)) (Some (lo, hi)) = Inr fs" "f \<in> set fs"
    and f: "GetFile (Meta s) f = Some m" "complete_file s m" "IsHashInRange (FileNameHash m) lo hi"
    and x: "\<forall>t \<in> set ss. \<exists>x. view (Address t) c = Some x \<and> mergeable s f lo hi x"
  shows "calm (stabilizeRing self f c) \<and> Ord (stabilizeRing self f c) = Ord c \<and> view self (stabilizeRing self f c) = Some s \<and>
    (\<forall>t \<in> set ss. \<exists>x x'. view (Address t) c = Some x \<and> view (Address t) (stabilizeRing self f c) = Some x' \<and> served s f lo hi x x')"
proof -
  obtain s0 where s0: "node self c = Some s0" "Meta s = Meta s0" "Members s = Members s0" "Config s = Config s0"
    "ServerID s = ServerID s0"
    using s(1) by (rule view_SomeE)
  have "FileName m = f" using s(2) f(1) by (auto simp: wf_metadata_def)
  then have name: "f \<noteq> ''''" using f(2) by (auto simp: complete_file_def)
  define c1 where "c1 = pushFilesToSuccessors self [f] ss lo hi c"
  have "calm c1 \<and> Ord c1 = Ord c \<and> (\<forall>b. b \<notin> Address ` set ss \<longrightarrow> view b c1 = view b c) \<and>
    (\<forall>t \<in> set ss. \<exists>x x'. view (Address t) c = Some x \<and> view (Address t) c1 = Some x' \<and> mergeable s f lo hi x \<and> served s f lo hi x x')"
    unfolding c1_def
    by (rule push_successors [OF c s(1) _ _ ss(2,3) x]) (rule push_file_serves [OF _ _ _ s(2) _ _ f], assumption+, simp add: mergeable_def)
  then have push: "calm c1" "Ord c1 = Ord c" "view self c1 = Some s"
    "\<forall>t \<in> set ss. \<exists>x x'. view (Address t) c = Some x \<and> view (Address t) c1 = Some x' \<and> mergeable s f lo hi x \<and> served s f lo hi x x'"
    using ss(3) s(1) by simp_all
  have "\<exists>x. view (Address t) c1 = Some x \<and> wf_metadata (Meta x) \<and>
      (\<forall>f m. GetFile (Meta x) f = Some m \<and> IsHashInRange (FileNameHash m) lo hi \<longrightarrow> knows_appends s f m)" if "t \<in> set ss" for t
    using push(4) that by (auto simp: served_def mergeable_def)
  then have "getFilesFromSuccessors self ss lo hi c1 = c1"
    using c(2) by (intro pull_nothing [OF push(1) _ push(3)]) (simp_all add: push(2))
  then have "stabilizeRing self f c = c1"
    using s0 r ss(1) fs name
    by (simp add: stabilizeRing_def GetAll_def files_to_push_def c1_def pushFilesToSuccessors_def)
  then show ?thesis using push by auto
qed

section \<open>One successor\<close>

definition merge_state :: "string \<Rightarrow> Server \<Rightarrow> string \<Rightarrow> int \<Rightarrow> int \<Rightarrow> Member list \<Rightarrow> Cluster \<Rightarrow> bool" where
  "merge_state self s f lo hi ss c \<longleftrightarrow> calm c \<and> view self c = Some s \<and>
     (\<forall>t \<in> set ss. \<exists>x. view (Address t) c = Some x \<and> mergeable s f lo hi x)"

text \<open>From \<open>c\<close> to \<open>c'\<close> no replica of the file is spoilt.\<close>

definition keeps_mirrors :: "Server \<Rightarrow> string \<Rightarrow> Member list \<Rightarrow> Cluster \<Rightarrow> Cluster \<Rightarrow> bool" where
  "keeps_mirrors s f ss c c' \<longleftrightarrow> Ord c' = Ord c \<and> (\<forall>t \<in> set ss. \<forall>x. view (Address t) c = Some x \<and> mirrors s x f \<longrightarrow>
     (\<exists>x'. view (Address t) c' = Some x' \<and> mirrors s x' f))"

lemma keeps_mirrors_trans: "keeps_mirrors s f ss c c1 \<Longrightarrow> keeps_mirrors s f ss c1 c2 \<Longrightarrow> keeps_mirrors s f ss c c2"
  unfolding keeps_mirrors_def by (metis (no_types, lifting))

lemma read_metadata:
  assumes "calm c" and "view (Address t) c = Some x"
  shows "callGetFileMetadata (Address t) f c =
    (Some (case GetFile (Meta x) f of None \<Rightarrow> (False, []) | Some m \<Rightarrow> (True, [(f, m)])), c)"
proof -
  obtain x0 where x0: "node (Address t) c = Some x0" "Meta x = Meta x0" using assms(2) by (rule view_SomeE)
  then show ?thesis
    using assms(1) put_node_same [OF x0(1)]
    by (simp add: callGetFileMetadata_def makeRPCCall_up calm_def GetFileMetadata_def split: option.split)
qed

lemma sync_mirrors:
  assumes st: "merge_state self s f lo hi ss c" and t: "t \<in> set ss" "Address t \<noteq> self" "distinct (map Address ss)"
    and s: "wf_metadata (Meta s)" "GetFile (Meta s) f = Some m" "complete_file s m"
    and x: "view (Address t) c = Some x" "caught_up s x f"
  defines "c' \<equiv> syncRemoteAppendOrder t f m (map AppendID (Appends m)) c"
  shows "merge_state self s f lo hi ss c' \<and> keeps_mirrors s f ss c c' \<and>
    (\<exists>x'. view (Address t) c' = Some x' \<and> mirrors s x' f)"
proof -
  have c: "calm c" "Network c = []" using st by (simp_all add: merge_state_def calm_def)
  have d: "distinct (map AppendID (Appends m))" using s(3) by (simp add: complete_file_def)
  have n: "FileName m = f" using s(1,2) by (auto simp: wf_metadata_def)
  obtain as where as: "GetFile (Meta x) f = Some (m\<lparr>Appends := as\<rparr>)" "set as = set (Appends m)" "distinct (map AppendID as)"
    using x(2) s(2) by (auto simp: caught_up_def lags_def)
  have read: "callGetFileMetadata (Address t) f c = (Some (True, [(f, m\<lparr>Appends := as\<rparr>)]), c)"
    using read_metadata [OF c(1) x(1)] as(1) by simp
  show ?thesis
  proof (cases "map AppendID (Appends m) = map AppendID as")
    case True
    then have "Appends m = as" using same_ids [of "Appends m" as] as(2,3) by simp
    then have "GetFile (Meta x) f = Some m" using as(1) by (cases m) simp
    then have "mirrors s x f" using caught_up_mirrors [OF x(2) s(2) d] by simp
    moreover have "c' = c" using True by (simp add: c'_def syncRemoteAppendOrder_def read ordersMatch_iff)
    ultimately show ?thesis using st x(1) by (auto simp: keeps_mirrors_def)
  next
    case False
    obtain x0 where x0: "node (Address t) c = Some x0" "Meta x = Meta x0" using x(1) by (rule view_SomeE)
    let ?y = "x\<lparr>Meta := AddFile m (Meta x)\<rparr>"
    have "c' = put_node (Address t) (x0\<lparr>Meta := AddFile m (Meta x0)\<rparr>) c"
      using False x0 as(1) c(2)
      by (simp add: c'_def syncRemoteAppendOrder_def read ordersMatch_iff CallUpdateAppendOrder_def makeRPCCall_up UpdateAppendOrder_def)
    moreover have "x = x0\<lparr>Bandwidth := \<lparr>BytesSent = 0, BytesReceived = 0\<rparr>\<rparr>" using x(1) x0(1) by (simp add: view_def)
    ultimately have b: "becomes (Address t) ?y c c'" using c(1) by (simp add: becomes_def view_put)
    have get: "GetFile (Meta ?y) g = (if g = f then Some m else GetFile (Meta x) g)" for g by (simp add: GetFile_AddFile n)
    then have y: "mirrors s ?y f" using caught_up_mirrors [OF x(2) s(2) d, of ?y] by simp
    obtain x1 where "view (Address t) c = Some x1" "mergeable s f lo hi x1" using st t(1) by (auto simp: merge_state_def)
    then have mx: "mergeable s f lo hi x" using x(1) by simp
    have "knows_appends s f m" using s(2) by (simp add: knows_appends_def)
    then have my: "mergeable s f lo hi ?y"
      using mx mirrors_caught_up [OF y s(2) d] get by (auto simp: mergeable_def caught_up_def wf_AddFile)
    have other: "Address u \<noteq> Address t" if "u \<in> set ss" "u \<noteq> t" for u
      using t(1,3) that by (auto simp: distinct_map dest: inj_onD)
    have "merge_state self s f lo hi ss c'"
      unfolding merge_state_def
    proof (intro conjI ballI)
      fix u assume u: "u \<in> set ss"
      show "\<exists>x. view (Address u) c' = Some x \<and> mergeable s f lo hi x"
        using st u my other [OF u] b by (cases "u = t") (auto simp: merge_state_def becomes_def)
    qed (use st b t(2) in \<open>auto simp: merge_state_def becomes_def\<close>)
    then show ?thesis using b y by (auto simp: keeps_mirrors_def becomes_def)
  qed
qed

lemma matching_caught_up:
  assumes "lags s x f" and "GetFile (Meta s) f = Some m" "distinct (map AppendID (Appends m))"
    and "GetFile (Meta x) f = Some m'" "filesAndAppendsMatch m m'"
  shows "caught_up s x f"
proof -
  obtain as where as: "m' = m\<lparr>Appends := as\<rparr>" "set as \<subseteq> set (Appends m)" "distinct (map AppendID as)"
    using assms(1,2,4) by (auto simp: lags_def)
  have "length as = length (Appends m)" using assms(5) as(1) by (simp add: filesAndAppendsMatch_def)
  then have "card (set as) = card (set (Appends m))" using as(3) assms(3) by (simp add: distinct_map distinct_card)
  then have "set as = set (Appends m)" using as(2) by (intro card_subset_eq) simp_all
  then show ?thesis using assms(1,2,4) as(1) by (auto simp: caught_up_def)
qed

lemma merge_step:
  assumes ord: "\<And>xs. mset (Ord c xs) = mset xs" and s: "wf_metadata (Meta s)"
    and r: "GetPrimaryKeyRange (Members s) (ServerID s) = Inr (Some (lo, hi))"
    and ss: "GetSuccessors (Members s) (ServerID s) (ReplicationFactor (Config s)) = Inr ss"
      "distinct (map Address ss)" "self \<notin> Address ` set ss"
    and fs: "GetFilesWithinRange (Ord c) (Files (Meta s)) (Some (lo, hi)) = Inr fs" "f \<in> set fs"
    and f: "GetFile (Meta s) f = Some m" "complete_file s m" "IsHashInRange (FileNameHash m) lo hi"
    and st: "merge_state self s f lo hi ss c" and t: "t \<in> set ss"
  defines "c' \<equiv> merge_successor self f m (map AppendID (Appends m)) t c"
  shows "merge_state self s f lo hi ss c' \<and> keeps_mirrors s f ss c c' \<and>
    (\<exists>x'. view (Address t) c' = Some x' \<and> mirrors s x' f)"
proof -
  have c: "calm c" "view self c = Some s" "\<forall>t \<in> set ss. \<exists>x. view (Address t) c = Some x \<and> mergeable s f lo hi x"
    using st by (simp_all add: merge_state_def)
  have alive: "node self c' \<noteq> None" if "merge_state self s f lo hi ss c'" for c'
    using that view_None [of self c'] by (simp add: merge_state_def)
  have d: "distinct (map AppendID (Appends m))" using f(2) by (simp add: complete_file_def)
  have self: "Address t \<noteq> self" using ss(3) t by auto
  obtain x where x: "view (Address t) c = Some x" "mergeable s f lo hi x" using c(3) t by blast
  let ?st = "stabilizeRing self f c"
  have stab: "calm ?st" "Ord ?st = Ord c" "view self ?st = Some s"
    "\<And>u. u \<in> set ss \<Longrightarrow> \<exists>y y'. view (Address u) c = Some y \<and> view (Address u) ?st = Some y' \<and> served s f lo hi y y'"
    using stabilize_file [OF c(1) ord c(2) s r ss fs f c(3)] by blast+
  have st1: "merge_state self s f lo hi ss ?st" using stab by (fastforce simp: merge_state_def served_def)
  have keep1: "keeps_mirrors s f ss c ?st" using stab(2,4) by (fastforce simp: keeps_mirrors_def served_def)
  obtain x' where x': "view (Address t) ?st = Some x'" "served s f lo hi x x'" using stab(4) [OF t] x(1) by auto
  note read = read_metadata [OF c(1) x(1), of f]
  show ?thesis
  proof (cases "GetFile (Meta x) f")
    case None
    then have "ensureRemoteFileInSync self t f m c = (False, ?st)" by (simp add: ensureRemoteFileInSync_def read)
    then have "c' = ?st" using alive [OF st] by (auto simp: c'_def merge_successor_def)
    then show ?thesis using st1 keep1 x' None by (auto simp: served_def)
  next
    case (Some m')
    define c1 where "c1 = (if filesAndAppendsMatch m m' then c else ?st)"
    have ens: "ensureRemoteFileInSync self t f m c = (True, c1)" using Some by (simp add: ensureRemoteFileInSync_def read c1_def)
    have c1: "merge_state self s f lo hi ss c1" "keeps_mirrors s f ss c c1" using st st1 keep1 by (simp_all add: c1_def keeps_mirrors_def)
    have "lags s x f" using x(2) Some by (simp add: mergeable_def)
    then have "\<exists>y. view (Address t) c1 = Some y \<and> caught_up s y f"
      using matching_caught_up [OF _ f(1) d Some] x(1) x' by (cases "filesAndAppendsMatch m m'") (simp_all add: c1_def served_def)
    then obtain y where y: "view (Address t) c1 = Some y" "caught_up s y f" by blast
    have "c' = syncRemoteAppendOrder t f m (map AppendID (Appends m)) c1"
      using ens alive [OF st] alive [OF c1(1)] by (auto simp: c'_def merge_successor_def)
    then show ?thesis
      using sync_mirrors [OF c1(1) t self ss(2) s f(1,2) y] keeps_mirrors_trans [OF c1(2)] by blast
  qed
qed

lemma merge_all:
  assumes ord: "\<And>xs. mset (ord xs) = mset xs" and s: "wf_metadata (Meta s)"
    and r: "GetPrimaryKeyRange (Members s) (ServerID s) = Inr (Some (lo, hi))"
    and ss: "GetSuccessors (Members s) (ServerID s) (ReplicationFactor (Config s)) = Inr ss"
      "distinct (map Address ss)" "self \<notin> Address ` set ss"
    and fs: "GetFilesWithinRange ord (Files (Meta s)) (Some (lo, hi)) = Inr fs" "f \<in> set fs"
    and f: "GetFile (Meta s) f = Some m" "complete_file s m" "IsHashInRange (FileNameHash m) lo hi"
    and "merge_state self s f lo hi ss c" "Ord c = ord" "set ts \<subseteq> set ss"
  defines "c' \<equiv> fold (merge_successor self f m (map AppendID (Appends m))) ts c"
  shows "merge_state self s f lo hi ss c' \<and> keeps_mirrors s f ss c c' \<and>
    (\<forall>t \<in> set ts. \<exists>x'. view (Address t) c' = Some x' \<and> mirrors s x' f)"
  unfolding c'_def using assms(12-14)
proof (induction ts arbitrary: c)
  case Nil
  then show ?case by (auto simp: keeps_mirrors_def)
next
  case (Cons t ts)
  let ?c = "merge_successor self f m (map AppendID (Appends m)) t c"
  have t: "t \<in> set ss" "set ts \<subseteq> set ss" using Cons.prems(3) by simp_all
  have step: "merge_state self s f lo hi ss ?c" "keeps_mirrors s f ss c ?c"
    "\<exists>x. view (Address t) ?c = Some x \<and> mirrors s x f"
    using merge_step [OF _ s r ss _ fs(2) f Cons.prems(1) t(1)] ord fs(1) Cons.prems(2) by simp_all
  then have "Ord ?c = ord" using Cons.prems(2) by (simp add: keeps_mirrors_def)
  note IH = Cons.IH [OF step(1) this t(2)]
  have "keeps_mirrors s f ss c (fold (merge_successor self f m (map AppendID (Appends m))) ts ?c)"
    using keeps_mirrors_trans [OF step(2)] IH by blast
  moreover have "\<exists>x. view (Address t) (fold (merge_successor self f m (map AppendID (Appends m))) ts ?c) = Some x \<and> mirrors s x f"
    using IH step(3) t(1) by (auto simp: keeps_mirrors_def)
  ultimately show ?case using IH by simp
qed

section \<open>The merge\<close>

lemma lags_view [simp]:
  "lags (s\<lparr>Bandwidth := b\<rparr>) x f = lags s x f" "lags s (x\<lparr>Bandwidth := b\<rparr>) f = lags s x f"
  "knows_appends (s\<lparr>Bandwidth := b\<rparr>) f m = knows_appends s f m" "ServerID (s\<lparr>Bandwidth := b\<rparr>) = ServerID s"
  by (simp_all add: lags_def knows_appends_def ServerID_def)

text \<open>
  C9. A merge makes the replicas equal: let a node store a file completely that it is the primary of, and
  let every other alive member have of this file nothing or some of the appends, in whatever order, and
  of no file in the node's range an append that the node does not know. Then, without faults,
  \<open>executeMerge\<close> leaves the file, with contents and appends in the primary's order, on each of its
  targets, and a download from any of them yields what one from the primary yields.
\<close>

theorem merge_equalizes:
  assumes c: "calm c" "\<And>xs. mset (Ord c xs) = mset xs" and s: "node self c = Some s" "wf_metadata (Meta s)"
    and ok: "ring_ok (Members s)" "distinct (map Address (Members s))" "1 \<le> ReplicationFactor (Config s)"
    and me: "me \<in> set (Members s)" "ID me = ServerID s" "Address me = self" "IsAlive me"
    and f: "GetFile (Meta s) f = Some m" "complete_file s m"
      "findTargetNodes (Members s) (FileNameHash m) (ReplicationFactor (Config s)) = Inr (me # ts)"
    and others: "\<forall>t \<in> set (Members s) - {me}. IsAlive t \<longrightarrow> (\<exists>x. node (Address t) c = Some x \<and>
      wf_metadata (Meta x) \<and> (GetFile (Meta x) f = None \<or> lags s x f) \<and>
      (\<forall>g m'. primary_for s me x g \<and> GetFile (Meta x) g = Some m' \<longrightarrow> knows_appends s g m'))"
    and t: "t \<in> set (me # ts)"
  shows "(\<exists>x. node (Address t) (executeMerge self f c) = Some x \<and> mirrors s x f) \<and>
    contents_at (Address t) f (executeMerge self f c) = contents_at self f c"
proof -
  obtain lo hi succ fs where r: "GetPrimaryKeyRange (Members s) (ServerID s) = Inr (Some (lo, hi))"
    "\<And>x f. primary_for s me x f \<longleftrightarrow> (\<exists>m. GetFile (Meta x) f = Some m \<and> IsHashInRange (FileNameHash m) lo hi)"
    and succ: "GetSuccessors (Members s) (ServerID s) (ReplicationFactor (Config s)) = Inr succ"
      "set succ \<subseteq> {m \<in> set (Members s). IsAlive m} - {me}"
    and addr: "distinct (map Address succ)" "self \<notin> Address ` set succ" and ts: "set ts \<subseteq> insert me (set succ)"
    and fs: "GetFilesWithinRange (Ord c) (Files (Meta s)) (Some (lo, hi)) = Inr fs"
      "\<And>f. f \<in> set fs \<longleftrightarrow> primary_for s me s f"
    by (rule primary_setup [OF c(2) s(2) ok me(1,2,4), unfolded me(3)]) (use f(3) in blast)
  let ?v = "s\<lparr>Bandwidth := \<lparr>BytesSent = 0, BytesReceived = 0\<rparr>\<rparr>"
  have v: "view self c = Some ?v" using s(1) by (simp add: view_def)
  have p: "primary_for s me s f" using f(1,3) by (auto simp: primary_for_def)
  then have range: "f \<in> set fs" "IsHashInRange (FileNameHash m) lo hi" using fs(2) f(1) by (auto simp: r(2))
  have "\<exists>x. view (Address u) c = Some x \<and> mergeable ?v f lo hi x" if "u \<in> set succ" for u
  proof -
    obtain x where "node (Address u) c = Some x" "wf_metadata (Meta x)" "GetFile (Meta x) f = None \<or> lags s x f"
      "\<forall>g m'. primary_for s me x g \<and> GetFile (Meta x) g = Some m' \<longrightarrow> knows_appends s g m'"
      using others succ(2) \<open>u \<in> set succ\<close> by blast
    then show ?thesis by (auto simp: view_def mergeable_def r(2))
  qed
  then have st: "merge_state self ?v f lo hi succ c" using c(1) v by (simp add: merge_state_def)
  define c1 where "c1 = fold (merge_successor self f m (map AppendID (Appends m))) succ c"
  have "merge_state self ?v f lo hi succ c1 \<and> keeps_mirrors ?v f succ c c1 \<and>
    (\<forall>t \<in> set succ. \<exists>x'. view (Address t) c1 = Some x' \<and> mirrors ?v x' f)"
    unfolding c1_def
    by (rule merge_all [OF c(2) _ _ _ addr _ range(1) _ _ range(2) st refl order.refl])
      (use s(2) r(1) succ(1) fs(1) f(1,2) in simp_all)
  then have fin: "view self c1 = Some ?v" "\<And>u. u \<in> set succ \<Longrightarrow> \<exists>x. view (Address u) c1 = Some x \<and> mirrors s x f"
    by (simp_all add: merge_state_def)
  have "executeMerge self f c = c1"
    using s(1) succ(1) f(1) by (simp add: executeMerge_def GetAll_def c1_def)
  moreover have "\<exists>x. view (Address t) c1 = Some x \<and> mirrors s x f"
  proof (cases "t = me")
    case False
    then show ?thesis using t ts fin(2) by auto
  qed (use fin(1) me(3) f(1) in \<open>simp add: mirrors_def\<close>)
  then have "\<exists>x. node (Address t) c1 = Some x \<and> mirrors s x f" by (auto simp: view_def)
  ultimately show ?thesis using mirrors_contents [OF _ s(1) _ s(2)] by auto
qed

text \<open>The first of three nodes stores a file with an append, the second has it without, the third not at all.\<close>

definition lagging_server :: Server where
  "lagging_server = (trio_server ''127.0.0.1:5002'')\<lparr>
     Meta := AddFile (example_file ''f'' 20) new_Metadata, FileDirectory := [(''f'', [1])]\<rparr>"

definition lagging_cluster :: Cluster where
  "lagging_cluster = put_node ''127.0.0.1:5002'' lagging_server lonely_cluster"

lemma lagging_simps [simp]:
  "FileDirectory lagging_server = [(''f'', [1])]" "wf_metadata (Meta lagging_server)"
  "GetFile (Meta lagging_server) k = (if k = ''f'' then Some (example_file ''f'' 20) else None)"
  "node a lagging_cluster = (if a = ''127.0.0.1:5002'' then Some lagging_server else node a lonely_cluster)"
  "Ord lagging_cluster = id" "calm lagging_cluster"
  by (simp_all add: lagging_server_def GetFile_AddFile example_file_def lagging_cluster_def wf_AddFile wf_new_Metadata
      del: lonely_simps(6) node_trio)

theorem merge_equalizes_witness:
  "contents_at ''127.0.0.1:5002'' ''f'' lagging_cluster = Some [1] \<and>
   contents_at ''127.0.0.1:5002'' ''f'' (executeMerge ''127.0.0.1:5000'' ''f'' lagging_cluster) = Some [1, 10, 2]"
proof -
  let ?me = "example_member ''127.0.0.1:5000'' 29 StatusAlive" and ?t = "example_member ''127.0.0.1:5002'' 60 StatusAlive"
  let ?m = "(example_file ''f'' 20)\<lparr>Appends := [lost_append]\<rparr>"
  have lag: "lags lonely_server lagging_server ''f''"
    by (auto simp: lags_def example_file_def)
  have served: "contents_at (Address ?t) ''f'' (executeMerge ''127.0.0.1:5000'' ''f'' lagging_cluster) =
      contents_at ''127.0.0.1:5000'' ''f'' lagging_cluster"
  proof (rule merge_equalizes [where s = lonely_server and me = ?me and m = ?m, THEN conjunct2])
    show "\<forall>t \<in> set (Members lonely_server) - {?me}. IsAlive t \<longrightarrow> (\<exists>x. node (Address t) lagging_cluster = Some x \<and>
        wf_metadata (Meta x) \<and> (GetFile (Meta x) ''f'' = None \<or> lags lonely_server x ''f'') \<and>
        (\<forall>g m'. primary_for lonely_server ?me x g \<and> GetFile (Meta x) g = Some m' \<longrightarrow> knows_appends lonely_server g m'))"
      using lag by (auto simp: trio_def wf_new_Metadata knows_appends_def example_file_def)
    show "complete_file lonely_server ?m"
      by (simp add: complete_file_def complete_append_def example_file_def lost_append_def client_ordered_def)
    show "findTargetNodes (Members lonely_server) (FileNameHash ?m) (ReplicationFactor (Config lonely_server)) =
        Inr (?me # [?t, example_member ''127.0.0.1:5001'' 88 StatusAlive])"
      by (simp add: findTargetNodes_def primaryIndex_def first_index_def trio_def target_loop.simps go_nth_def go_mod_def
          Let_def example_file_def)
  qed (simp_all add: ring_ok_def trio_def ID_example)
  have "contents_at ''127.0.0.1:5002'' ''f'' lagging_cluster = Some (join_lines [[1]])"
    by (rule contents_at_eq [where paths = "[''f'']"]) (simp add: example_file_def)
  moreover have "contents_at ''127.0.0.1:5000'' ''f'' lagging_cluster = Some (join_lines [[1], [2]])"
    by (rule contents_at_eq [where paths = "[''f'', ''f_7_vm2'']"]) (simp add: example_file_def lost_append_def)
  ultimately show ?thesis using served by simp
qed

end
