(* ===== verification/Metadata_Locks.thy ===== *)
theory Metadata_Locks
  imports Metadata_Store
begin

text \<open>
  The locking of \<^verbatim>\<open>src/metadata.go\<close>, step by step: several goroutines work on one
  file name, and a step is one section under the table's own lock, or taking or releasing the file's
  lock. \<open>Metadata_Store\<close> takes each operation as one step; the theorems say that this is right for
  appends among themselves, and what it hides of appends next to an \<open>UpdateAppendOrder\<close> or a
  \<open>DeleteFile\<close>.
\<close>

section \<open>Goroutines and steps\<close>

text \<open>
  The table as far as it concerns one file name: its entry and its lock object. A lock that was deleted
  from the table is still held and taken by those who found it before.
\<close>

record table =
  Entry :: "FileMetadata option"
  LockOf :: "nat option"
  NextLock :: nat
  Held :: "nat set"

text \<open>
  Where a goroutine is: in \<open>AppendToFile\<close> (A), in \<open>UpdateAppendOrder\<close>, which is \<open>GetFile\<close> and then
  \<open>AddFile\<close> (U), in \<open>DeleteFile\<close> (D), or in an upload's \<open>AddFile\<close> (C).
\<close>

datatype pc =
    AStart AppendInfo
  | ALocking AppendInfo nat
  | AHolding AppendInfo nat
  | ARead AppendInfo nat FileMetadata
  | AWritten AppendInfo nat
  | ADone AppendInfo bool
  | UStart "AppendInfo list"
  | UEntry "AppendInfo list" FileMetadata
  | ULocking "AppendInfo list" FileMetadata "nat option"
  | UGot "AppendInfo list" FileMetadata
  | UDone bool
  | DStart
  | DDone bool
  | CStart FileMetadata
  | CDone

definition known :: "AppendInfo \<Rightarrow> FileMetadata \<Rightarrow> bool" where
  "known a m \<longleftrightarrow> AppendID a \<in> AppendID ` set (Appends m)"

definition add_entry :: "FileMetadata \<Rightarrow> table \<Rightarrow> table" where
  "add_entry m t = (case LockOf t of
     None \<Rightarrow> t\<lparr>Entry := Some m, LockOf := Some (NextLock t), NextLock := NextLock t + 1\<rparr>
   | Some _ \<Rightarrow> t\<lparr>Entry := Some m\<rparr>)"

definition release :: "nat \<Rightarrow> table \<Rightarrow> table" where
  "release l t = t\<lparr>Held := Held t - {l}\<rparr>"

inductive goroutine_step :: "string \<Rightarrow> table \<Rightarrow> pc \<Rightarrow> table \<Rightarrow> pc \<Rightarrow> bool" for f :: string where
  append_no_file: "LockOf t = None \<Longrightarrow> goroutine_step f t (AStart a) t (ADone a False)"
| append_lock: "LockOf t = Some l \<Longrightarrow> goroutine_step f t (AStart a) t (ALocking a l)"
| append_acquire: "l \<notin> Held t \<Longrightarrow> goroutine_step f t (ALocking a l) (t\<lparr>Held := insert l (Held t)\<rparr>) (AHolding a l)"
| append_read: "m = (case Entry t of None \<Rightarrow> zero_FileMetadata | Some m \<Rightarrow> m) \<Longrightarrow>
    goroutine_step f t (AHolding a l) t (ARead a l m)"
| append_known: "known a m \<Longrightarrow> goroutine_step f t (ARead a l m) (release l t) (ADone a True)"
| append_write: "\<not> known a m \<Longrightarrow>
    goroutine_step f t (ARead a l m) (t\<lparr>Entry := Some (insertAppend a m)\<rparr>) (AWritten a l)"
| append_release: "goroutine_step f t (AWritten a l) (release l t) (ADone a True)"
| update_missing: "Entry t = None \<Longrightarrow> goroutine_step f t (UStart as) t (UDone False)"
| update_entry: "Entry t = Some m \<Longrightarrow> goroutine_step f t (UStart as) t (UEntry as m)"
| update_lock: "goroutine_step f t (UEntry as m) t (ULocking as m (LockOf t))"
| update_wait: "(\<And>l. lo = Some l \<Longrightarrow> l \<notin> Held t) \<Longrightarrow> goroutine_step f t (ULocking as m lo) t (UGot as m)"
| update_write: "FileName m = f \<Longrightarrow>
    goroutine_step f t (UGot as m) (add_entry (m\<lparr>Appends := as\<rparr>) t) (UDone True)"
| update_other: "FileName m \<noteq> f \<Longrightarrow> goroutine_step f t (UGot as m) t (UDone True)"
| delete_missing: "Entry t = None \<Longrightarrow> goroutine_step f t DStart t (DDone False)"
| delete_entry: "Entry t \<noteq> None \<Longrightarrow>
    goroutine_step f t DStart (t\<lparr>Entry := None, LockOf := None\<rparr>) (DDone True)"
| create: "FileName m = f \<Longrightarrow> goroutine_step f t (CStart m) (add_entry m t) CDone"

inductive_cases goroutine_stepE:
  "goroutine_step f t (AStart a) t' p" "goroutine_step f t (ALocking a l) t' p"
  "goroutine_step f t (AHolding a l) t' p" "goroutine_step f t (ARead a l m) t' p"
  "goroutine_step f t (AWritten a l) t' p" "goroutine_step f t (ADone a ok) t' p"

inductive interleave :: "string \<Rightarrow> table \<times> (nat \<Rightarrow> pc) \<Rightarrow> table \<times> (nat \<Rightarrow> pc) \<Rightarrow> bool" for f :: string where
  one: "goroutine_step f t (ps i) t' p \<Longrightarrow> interleave f (t, ps) (t', ps(i := p))"

lemma interleaveI: "ps i = q \<Longrightarrow> goroutine_step f t q t' p \<Longrightarrow> interleave f (t, ps) (t', ps(i := p))"
  using one by blast

section \<open>Appends among themselves\<close>

text \<open>The effect of one append on the entry.\<close>

definition appended :: "AppendInfo \<Rightarrow> FileMetadata \<Rightarrow> FileMetadata" where
  "appended a m = (if known a m then m else insertAppend a m)"

lemma AppendToFile_appended:
  assumes "getFileLock M f" and "GetFile M f = Some m"
  shows "getFileLock (snd (AppendToFile f a M)) f \<and> GetFile (snd (AppendToFile f a M)) f = Some (appended a m)"
proof (cases "known a m")
  case True
  with AppendToFile_known [OF assms] assms show ?thesis by (simp add: appended_def known_def)
next
  case False
  with AppendToFile_fresh(2) [OF assms] assms(1) show ?thesis by (simp add: appended_def known_def)
qed

lemma AppendToFile_all:
  "getFileLock M f \<Longrightarrow> GetFile M f = Some m \<Longrightarrow>
    GetFile (fold (\<lambda>a M. snd (AppendToFile f a M)) as M) f = Some (fold appended as m)"
proof (induction as arbitrary: M m)
  case (Cons a as)
  from Cons.IH AppendToFile_appended [OF Cons.prems, of a] show ?case by simp
qed simp

lemma known_appended: "known a (appended a m)" "known b m \<Longrightarrow> known b (appended a m)"
  by (auto simp: appended_def known_def)

text \<open>A goroutine between taking the file's lock and giving it back; one that has made its change.\<close>

definition in_section :: "pc \<Rightarrow> bool" where
  "in_section p = (case p of AHolding a l \<Rightarrow> True | ARead a l m \<Rightarrow> True | AWritten a l \<Rightarrow> True | _ \<Rightarrow> False)"

definition changed :: "pc \<Rightarrow> bool" where
  "changed p = (case p of AWritten a l \<Rightarrow> True | ADone a ok \<Rightarrow> True | _ \<Rightarrow> False)"

text \<open>What each goroutine knows, when \<open>a i\<close> is the append of the \<open>i\<close>-th and \<open>m\<close> is the entry.\<close>

definition append_pc :: "nat \<Rightarrow> AppendInfo \<Rightarrow> FileMetadata \<Rightarrow> pc \<Rightarrow> bool" where
  "append_pc lock a m p = (case p of
     AStart b \<Rightarrow> b = a
   | ALocking b l \<Rightarrow> b = a \<and> l = lock
   | AHolding b l \<Rightarrow> b = a \<and> l = lock
   | ARead b l r \<Rightarrow> b = a \<and> l = lock \<and> r = m
   | AWritten b l \<Rightarrow> b = a \<and> l = lock \<and> known a m
   | ADone b ok \<Rightarrow> b = a \<and> ok \<and> known a m
   | _ \<Rightarrow> False)"

definition append_inv :: "nat \<Rightarrow> (nat \<Rightarrow> AppendInfo) \<Rightarrow> FileMetadata \<Rightarrow> table \<times> (nat \<Rightarrow> pc) \<Rightarrow> bool" where
  "append_inv lock a m0 s = (case s of (t, ps) \<Rightarrow>
     LockOf t = Some lock \<and>
     (\<forall>i j. in_section (ps i) \<and> in_section (ps j) \<longrightarrow> i = j) \<and>
     (\<forall>i. in_section (ps i) \<longrightarrow> lock \<in> Held t) \<and>
     (\<exists>m ord. Entry t = Some m \<and> (\<forall>i. append_pc lock (a i) m (ps i)) \<and>
        distinct ord \<and> set ord = {i. changed (ps i)} \<and> m = fold appended (map a ord) m0))"

lemma pc_simps [simp]:
  "in_section (AHolding b l)" "in_section (ARead b l r)" "in_section (AWritten b l)"
  "\<not> in_section (AStart b)" "\<not> in_section (ALocking b l)" "\<not> in_section (ADone b ok)"
  "changed (AWritten b l)" "changed (ADone b ok)"
  "\<not> changed (AStart b)" "\<not> changed (ALocking b l)" "\<not> changed (AHolding b l)" "\<not> changed (ARead b l r)"
  by (simp_all add: in_section_def changed_def)

lemma append_pc_simps [simp]:
  "append_pc lock a m (AStart b) \<longleftrightarrow> b = a" "append_pc lock a m (ALocking b l) \<longleftrightarrow> b = a \<and> l = lock"
  "append_pc lock a m (AHolding b l) \<longleftrightarrow> b = a \<and> l = lock"
  "append_pc lock a m (ARead b l r) \<longleftrightarrow> b = a \<and> l = lock \<and> r = m"
  "append_pc lock a m (AWritten b l) \<longleftrightarrow> b = a \<and> l = lock \<and> known a m"
  "append_pc lock a m (ADone b ok) \<longleftrightarrow> b = a \<and> ok \<and> known a m"
  by (simp_all add: append_pc_def)

lemma append_invI:
  assumes "LockOf t = Some lock" "\<And>i j. in_section (ps i) \<Longrightarrow> in_section (ps j) \<Longrightarrow> i = j"
    "\<And>i. in_section (ps i) \<Longrightarrow> lock \<in> Held t" "Entry t = Some (fold appended (map a ord) m0)"
    "\<And>i. append_pc lock (a i) (fold appended (map a ord) m0) (ps i)" "distinct ord" "set ord = {i. changed (ps i)}"
  shows "append_inv lock a m0 (t, ps)"
  using assms by (auto simp: append_inv_def)

lemma append_pc_mono:
  "append_pc lock b m p \<Longrightarrow> \<not> in_section p \<Longrightarrow> append_pc lock b (appended c m) p"
  by (auto simp: append_pc_def in_section_def known_appended split: pc.splits)

lemma append_inv_step:
  assumes inv: "append_inv lock a m0 (t, ps)" and st: "goroutine_step f t (ps i) t' p"
  shows "append_inv lock a m0 (t', ps(i := p))"
proof -
  obtain ord where lock: "LockOf t = Some lock" and excl: "\<And>i j. in_section (ps i) \<Longrightarrow> in_section (ps j) \<Longrightarrow> i = j"
    and held: "\<And>i. in_section (ps i) \<Longrightarrow> lock \<in> Held t"
    and m: "Entry t = Some (fold appended (map a ord) m0)"
    and pcs: "\<And>i. append_pc lock (a i) (fold appended (map a ord) m0) (ps i)"
    and ord: "distinct ord" "set ord = {i. changed (ps i)}"
    using inv by (auto simp: append_inv_def)
  show ?thesis
  proof (cases "ps i")
    case (AStart b)
    with st lock have "t' = t" "p = ALocking b lock" by (auto elim: goroutine_stepE)
    then show ?thesis
      using AStart lock excl held m pcs ord pcs [of i]
      by (intro append_invI [where ord = ord]) (auto split: if_splits)
  next
    case (ALocking b l)
    with st have t': "l \<notin> Held t" "t' = t\<lparr>Held := insert l (Held t)\<rparr>" "p = AHolding b l" by (auto elim: goroutine_stepE)
    have l: "b = a i" "l = lock" using pcs [of i] ALocking by simp_all
    have none: "\<not> in_section (ps j)" for j using held [of j] t'(1) l by blast
    show ?thesis unfolding t'(2,3)
      using lock m pcs ord none ALocking l
      by (intro append_invI [where ord = ord]) (auto split: if_splits)
  next
    case (AHolding b l)
    with st have t': "t' = t" "p = ARead b l (fold appended (map a ord) m0)" by (auto elim: goroutine_stepE simp: m)
    have "b = a i" "l = lock" using pcs [of i] AHolding by (simp_all add: append_pc_def)
    then show ?thesis unfolding t'
      using lock excl held m pcs ord AHolding excl [of i] held [of i]
      by (intro append_invI [where ord = ord]) (auto split: if_splits)
  next
    case (ARead b l r)
    have l: "b = a i" "l = lock" "r = fold appended (map a ord) m0" using pcs [of i] ARead by (simp_all add: append_pc_def)
    have others: "\<not> in_section (ps j)" if "j \<noteq> i" for j using excl [of i j] that ARead by auto
    have new: "i \<notin> set ord" using ord(2) ARead by simp
    have eq: "fold appended (map a (ord @ [i])) m0 = appended b r" by (simp add: l)
    have pcs': "append_pc lock (a j) (appended b r) (ps j)" if "j \<noteq> i" for j
      using append_pc_mono [OF pcs others [OF that]] l by simp
    from st consider "known b r" "t' = release l t" "p = ADone b True"
      | "\<not> known b r" "t' = t\<lparr>Entry := Some (insertAppend b r)\<rparr>" "p = AWritten b l"
      unfolding ARead by (auto elim: goroutine_stepE)
    then show ?thesis
    proof cases
      case 1
      have "appended b r = r" using 1(1) by (simp add: appended_def)
      then show ?thesis unfolding 1(2,3)
        using lock m others ord new pcs' 1(1) l
        by (intro append_invI [where ord = "ord @ [i]"], unfold eq)
          (auto simp: release_def split: if_splits)
    next
      case 2
      have "appended b r = insertAppend b r" using 2(1) by (simp add: appended_def)
      then show ?thesis unfolding 2(2,3)
        using lock m others ord new pcs' known_appended(1) [of b r] l held [of i] ARead
        by (intro append_invI [where ord = "ord @ [i]"], unfold eq)
          (auto split: if_splits)
    qed
  next
    case (AWritten b l)
    with st have t': "t' = release l t" "p = ADone b True" by (auto elim: goroutine_stepE)
    have l: "b = a i" "l = lock" "known b (fold appended (map a ord) m0)" using pcs [of i] AWritten by (simp_all add: append_pc_def)
    have others: "\<not> in_section (ps j)" if "j \<noteq> i" for j using excl [of i j] that AWritten by auto
    show ?thesis unfolding t'
      using lock m pcs ord others l AWritten
      by (intro append_invI [where ord = ord]) (auto simp: release_def split: if_splits)
  next
    case (ADone b ok)
    with st show ?thesis by (auto elim: goroutine_stepE)
  qed (use pcs [of i] in \<open>simp_all add: append_pc_def\<close>)
qed

lemma append_inv_run:
  assumes "(interleave f)\<^sup>*\<^sup>* s s'" and "append_inv lock a m0 s"
  shows "append_inv lock a m0 s'"
  using assms by (induction rule: rtranclp_induct) (auto elim!: interleave.cases intro: append_inv_step)

text \<open>
  C17. Concurrent appends to a file are safe: however the steps of any number of \<open>AppendToFile\<close> on a
  stored file interleave, the entry is at all times what the appends that have made their change yield
  one after the other in some order; an append that has returned has succeeded, is one of them, and is
  listed.
\<close>

theorem appends_linearize:
  assumes M: "getFileLock M f" "GetFile M f = Some m0"
    and t0: "Entry t0 = GetFile M f" "LockOf t0 = Some lock" "Held t0 = {}"
    and run: "(interleave f)\<^sup>*\<^sup>* (t0, \<lambda>i. AStart (a i)) (t, ps)"
  shows "\<exists>ord. distinct ord \<and> Entry t = GetFile (fold (\<lambda>a M. snd (AppendToFile f a M)) (map a ord) M) f \<and>
    (\<forall>i b ok. ps i = ADone b ok \<longrightarrow> ok \<and> b = a i \<and> i \<in> set ord \<and> (\<exists>m. Entry t = Some m \<and> known b m))"
proof -
  have "append_inv lock a m0 (t0, \<lambda>i. AStart (a i))"
    using M t0 by (intro append_invI [where ord = "[]"]) simp_all
  from append_inv_run [OF run this] obtain ord where o: "distinct ord" "set ord = {i. changed (ps i)}"
    and e: "Entry t = Some (fold appended (map a ord) m0)"
    and pcs: "\<And>i. append_pc lock (a i) (fold appended (map a ord) m0) (ps i)"
    by (auto simp: append_inv_def)
  have "ok \<and> b = a i \<and> i \<in> set ord \<and> known b (fold appended (map a ord) m0)" if "ps i = ADone b ok" for i b ok
    using pcs [of i] o(2) that by auto
  with o(1) e AppendToFile_all [OF M, of "map a ord"] show ?thesis by (intro exI [of _ ord]) auto
qed

text \<open>Nothing keeps an append from finishing: alone, it does in five or six steps.\<close>

lemma append_finishes:
  assumes t: "LockOf t = Some lock" "lock \<notin> Held t" and i: "ps i = AStart b"
  shows "\<exists>t' ps'. (interleave f)\<^sup>*\<^sup>* (t, ps) (t', ps') \<and> ps' i = ADone b True"
proof -
  define t2 where "t2 = t\<lparr>Held := insert lock (Held t)\<rparr>"
  define m where "m = (case Entry t2 of None \<Rightarrow> zero_FileMetadata | Some m \<Rightarrow> m)"
  have "(interleave f)\<^sup>*\<^sup>* (t, ps) (t, ps(i := ALocking b lock))"
    using t i append_lock by (intro r_into_rtranclp interleaveI) simp_all
  also have "interleave f (t, ps(i := ALocking b lock)) (t2, ps(i := ALocking b lock, i := AHolding b lock))"
    unfolding t2_def using t by (intro interleaveI [where q = "ALocking b lock"] append_acquire) simp_all
  also have "interleave f (t2, ps(i := ALocking b lock, i := AHolding b lock))
      (t2, ps(i := ALocking b lock, i := AHolding b lock, i := ARead b lock m))"
    unfolding m_def by (intro interleaveI [where q = "AHolding b lock"] append_read) simp_all
  finally have r: "(interleave f)\<^sup>*\<^sup>* (t, ps) (t2, ps(i := ARead b lock m))" by simp
  show ?thesis
  proof (cases "known b m")
    case True
    then have "interleave f (t2, ps(i := ARead b lock m)) (release lock t2, ps(i := ARead b lock m, i := ADone b True))"
      by (intro interleaveI [where q = "ARead b lock m"] append_known) simp_all
    with r have "(interleave f)\<^sup>*\<^sup>* (t, ps) (release lock t2, ps(i := ARead b lock m, i := ADone b True))"
      by (rule rtranclp.rtrancl_into_rtrancl)
    then show ?thesis by (intro exI conjI) (assumption, simp)
  next
    case False
    note r
    also have "interleave f (t2, ps(i := ARead b lock m))
        (t2\<lparr>Entry := Some (insertAppend b m)\<rparr>, ps(i := ARead b lock m, i := AWritten b lock))"
      using False by (intro interleaveI [where q = "ARead b lock m"] append_write) simp_all
    also have "interleave f (t2\<lparr>Entry := Some (insertAppend b m)\<rparr>, ps(i := ARead b lock m, i := AWritten b lock))
        (release lock (t2\<lparr>Entry := Some (insertAppend b m)\<rparr>), ps(i := ARead b lock m, i := AWritten b lock, i := ADone b True))"
      by (intro interleaveI [where q = "AWritten b lock"] append_release) simp_all
    finally show ?thesis by (intro exI conjI) (assumption, simp)
  qed
qed

definition client_append :: "nat \<Rightarrow> AppendInfo" where
  "client_append i = \<lparr>AppFileName = ''f'', AppendID = replicate i CHR ''x'', ClientID = ''c'', ClientTimestamp = ''1'',
     AppendHash = '''', Size = 1\<rparr>"

theorem appends_linearize_witness:
  "\<exists>t ps m. (interleave ''f'')\<^sup>*\<^sup>* (\<lparr>Entry = Some (zero_FileMetadata\<lparr>FileName := ''f''\<rparr>), LockOf = Some 0, NextLock = 1, Held = {}\<rparr>,
      \<lambda>i. AStart (client_append i)) (t, ps) \<and> ps 2 = ADone (client_append 2) True \<and> Entry t = Some m \<and> known (client_append 2) m"
proof -
  let ?m = "zero_FileMetadata\<lparr>FileName := ''f''\<rparr>"
  let ?t = "\<lparr>Entry = Some ?m, LockOf = Some 0, NextLock = 1, Held = {}\<rparr>"
  obtain t ps where run: "(interleave ''f'')\<^sup>*\<^sup>* (?t, \<lambda>i. AStart (client_append i)) (t, ps)" "ps 2 = ADone (client_append 2) True"
    using append_finishes [of ?t 0 "\<lambda>i. AStart (client_append i)" 2 "client_append 2" "''f''"] by auto
  have M: "getFileLock (AddFile ?m new_Metadata) ''f''" "GetFile (AddFile ?m new_Metadata) ''f'' = Some ?m"
    by (simp_all add: lock_AddFile GetFile_AddFile)
  have "\<exists>m. Entry t = Some m \<and> known (client_append 2) m"
    using appends_linearize [OF M _ _ _ run(1)] run(2) M(2) by auto
  with run show ?thesis by blast
qed

section \<open>Appends next to a deletion\<close>

text \<open>
  C38. A deletion under an append leaves a ghost: an append that has found the file's lock before a
  \<open>DeleteFile\<close> and goes on after it, succeeds, and enters metadata that has no file name, no content hash
  and no lock under the deleted name, which no operation one after the other does.
\<close>

theorem delete_races_append:
  assumes t0: "Entry t0 = Some m" "LockOf t0 = Some lock" "Held t0 = {}"
  shows "\<exists>t ps g. (interleave f)\<^sup>*\<^sup>* (t0, (\<lambda>_. CDone)(0 := AStart b, 1 := DStart)) (t, ps) \<and>
    ps 0 = ADone b True \<and> ps 1 = DDone True \<and>
    Entry t = Some g \<and> FileName g = '''' \<and> Appends g = [b] \<and> LockOf t = None"
proof -
  define ps0 :: "nat \<Rightarrow> pc" where "ps0 = (\<lambda>_. CDone)(0 := AStart b, 1 := DStart)"
  define t1 where "t1 = t0\<lparr>Entry := None, LockOf := None\<rparr>"
  define t2 where "t2 = t1\<lparr>Held := {lock}\<rparr>"
  define g where "g = insertAppend b zero_FileMetadata"
  have new: "\<not> known b zero_FileMetadata" by (simp add: known_def zero_FileMetadata_def)
  have "(interleave f)\<^sup>*\<^sup>* (t0, ps0) (t0, ps0(0 := ALocking b lock))"
    by (rule r_into_rtranclp, rule interleaveI [where i = 0], rule refl)
      (simp add: ps0_def append_lock t0(2))
  also have "interleave f (t0, ps0(0 := ALocking b lock)) (t1, ps0(0 := ALocking b lock, 1 := DDone True))"
    unfolding t1_def using t0(1) by (intro interleaveI [where q = DStart] delete_entry) (simp_all add: ps0_def)
  also have "interleave f (t1, ps0(0 := ALocking b lock, 1 := DDone True))
      (t2, ps0(0 := ALocking b lock, 1 := DDone True, 0 := AHolding b lock))"
    unfolding t2_def using append_acquire [of lock t1 f b] t0(3)
    by (intro interleaveI [where q = "ALocking b lock"]) (simp_all add: t1_def)
  also have "interleave f (t2, ps0(0 := ALocking b lock, 1 := DDone True, 0 := AHolding b lock))
      (t2, ps0(0 := ALocking b lock, 1 := DDone True, 0 := AHolding b lock, 0 := ARead b lock zero_FileMetadata))"
    by (intro interleaveI [where q = "AHolding b lock"] append_read) (simp_all add: t1_def t2_def)
  also have "interleave f (t2, ps0(0 := ALocking b lock, 1 := DDone True, 0 := AHolding b lock, 0 := ARead b lock zero_FileMetadata))
      (t2\<lparr>Entry := Some g\<rparr>, ps0(0 := ALocking b lock, 1 := DDone True, 0 := AHolding b lock,
        0 := ARead b lock zero_FileMetadata, 0 := AWritten b lock))"
    unfolding g_def using new by (intro interleaveI [where q = "ARead b lock zero_FileMetadata"] append_write) simp_all
  also have "interleave f (t2\<lparr>Entry := Some g\<rparr>, ps0(0 := ALocking b lock, 1 := DDone True, 0 := AHolding b lock,
        0 := ARead b lock zero_FileMetadata, 0 := AWritten b lock))
      (release lock (t2\<lparr>Entry := Some g\<rparr>), ps0(0 := ALocking b lock, 1 := DDone True, 0 := AHolding b lock,
        0 := ARead b lock zero_FileMetadata, 0 := AWritten b lock, 0 := ADone b True))"
    by (intro interleaveI [where q = "AWritten b lock"] append_release) simp_all
  finally show ?thesis
    unfolding ps0_def [symmetric] by (intro exI conjI) (assumption, auto simp: release_def t2_def t1_def g_def zero_FileMetadata_def)
qed

theorem delete_races_append_witness:
  "\<exists>t ps g. (interleave ''f'')\<^sup>*\<^sup>* (\<lparr>Entry = Some (zero_FileMetadata\<lparr>FileName := ''f''\<rparr>), LockOf = Some 0, NextLock = 1, Held = {}\<rparr>,
      (\<lambda>_. CDone)(0 := AStart (client_append 0), 1 := DStart)) (t, ps) \<and>
    ps 0 = ADone (client_append 0) True \<and> ps 1 = DDone True \<and>
    Entry t = Some g \<and> FileName g = '''' \<and> Appends g = [client_append 0] \<and> LockOf t = None"
  by (rule delete_races_append) simp_all

end
