(* ===== verification/Append_Slices.thy ===== *)
theory Append_Slices
  imports Metadata_Store
begin

text \<open>
  Models the slices behind \<^verbatim>\<open>FileMetadata.Appends\<close> in
  \<^verbatim>\<open>src/metadata.go\<close>. A Go slice is a view of a backing array, and
  \<^verbatim>\<open>append\<close> writes into that array as long as its capacity lasts. The copies of a
  \<open>FileMetadata\<close> that \<open>GetFile\<close> hands out share the array. \<open>Metadata_Store\<close> models the slices by
  their contents; here the arrays are explicit, and the theorems say what that abstraction keeps and
  what it hides. All slices of the program start at the first element of their array.
\<close>

section \<open>Arrays and slices\<close>

record slice =
  Arr :: nat
  Len :: nat

text \<open>The arrays by number; the length of an array is its capacity.\<close>

type_synonym arrays = "AppendInfo list list"

definition contents :: "arrays \<Rightarrow> slice \<Rightarrow> AppendInfo list" where
  "contents h s = take (Len s) (h ! Arr s)"

definition valid :: "arrays \<Rightarrow> slice \<Rightarrow> bool" where
  "valid h s \<longleftrightarrow> Arr s < length h \<and> Len s \<le> length (h ! Arr s)"

text \<open>
  \<^verbatim>\<open>append(s, xs...)\<close>. \<open>spare\<close> is how much room the runtime leaves in a new array, for
  the number of elements it is made for; the room is filled with \<open>z\<close>, the zero value.
\<close>

definition go_append ::
    "AppendInfo \<Rightarrow> (nat \<Rightarrow> nat) \<Rightarrow> slice \<Rightarrow> AppendInfo list \<Rightarrow> arrays \<Rightarrow> slice \<times> arrays" where
  "go_append z spare s xs h =
     (let n = Len s + length xs; arr = h ! Arr s
      in if n \<le> length arr
         then (s\<lparr>Len := n\<rparr>, h[Arr s := take (Len s) arr @ xs @ drop n arr])
         else (\<lparr>Arr = length h, Len = n\<rparr>, h @ [take (Len s) arr @ xs @ replicate (spare n) z]))"

text \<open>The position where \<open>insertAppend\<close> inserts; the length of the list if nowhere before its end.\<close>

fun insert_position :: "AppendInfo list \<Rightarrow> AppendInfo \<Rightarrow> nat" where
  "insert_position [] newAppend = 0"
| "insert_position (a # as) newAppend =
     (if ClientID a = ClientID newAppend \<and> ClientTimestamp a > ClientTimestamp newAppend then 0
      else Suc (insert_position as newAppend))"

text \<open>
  \<^verbatim>\<open>append([]AppendInfo{newAppend}, fileMeta.Appends[i:]...)\<close> is evaluated first, into a
  new array, since a literal has no room; then it is appended to
  \<^verbatim>\<open>fileMeta.Appends[:i]\<close>.
\<close>

definition insert_slice ::
    "AppendInfo \<Rightarrow> (nat \<Rightarrow> nat) \<Rightarrow> AppendInfo \<Rightarrow> slice \<Rightarrow> arrays \<Rightarrow> slice \<times> arrays" where
  "insert_slice z spare newAppend s h =
     (let as = contents h s; i = insert_position as newAppend
      in if i = length as then go_append z spare s [newAppend] h
         else
           let literal = \<lparr>Arr = length h, Len = 1\<rparr>; h1 = h @ [[newAppend]];
               (tail, h2) = go_append z spare literal (drop i as) h1
           in go_append z spare (s\<lparr>Len := i\<rparr>) (contents h2 tail) h2)"

section \<open>What append does to old and new slices\<close>

lemma length_contents: "valid h s \<Longrightarrow> length (contents h s) = Len s"
  by (simp add: contents_def valid_def)

lemma go_append_contents:
  "valid h s \<Longrightarrow> go_append z spare s xs h = (s', h') \<Longrightarrow> valid h' s' \<and> contents h' s' = contents h s @ xs"
  by (auto simp: go_append_def contents_def valid_def Let_def nth_append split: if_splits)

text \<open>Another slice changes only if it shares the array, and then only beyond the length of \<open>s\<close>.\<close>

lemma go_append_other:
  assumes "valid h s" "valid h t" "go_append z spare s xs h = (s', h')"
  shows "valid h' t \<and> contents h' t =
    (if Arr t = Arr s \<and> Len s + length xs \<le> length (h ! Arr s)
     then take (Len t) (contents h s @ xs @ drop (Len s + length xs) (h ! Arr s)) else contents h t)"
  using assms by (auto simp: go_append_def contents_def valid_def Let_def nth_append split: if_splits)

lemma insert_position_le: "insert_position as a \<le> length as"
  by (induction as) auto

lemma insert_append_position:
  "insert_append as a = take (insert_position as a) as @ a # drop (insert_position as a) as"
  by (induction as) auto

text \<open>
  C22. The slice operations implement the list operation: for every growth policy of the runtime,
  \<open>insertAppend\<close> on slices yields a slice whose contents are those that \<open>insert_append\<close> computes from
  the contents before.
\<close>

theorem insert_slice_refines:
  assumes s: "valid h s" and ins: "insert_slice z spare a s h = (s', h')"
  shows "valid h' s' \<and> contents h' s' = insert_append (contents h s) a"
proof (cases "insert_position (contents h s) a = length (contents h s)")
  case True
  then show ?thesis
    using ins go_append_contents [OF s, of z spare "[a]"] by (simp add: insert_slice_def Let_def insert_append_position)
next
  case False
  define as i where "as = contents h s" and "i = insert_position as a"
  have i: "i \<le> Len s" using insert_position_le [of as a] length_contents [OF s] by (simp add: i_def as_def)
  define literal h1 where "literal = \<lparr>Arr = length h, Len = 1\<rparr>" and "h1 = h @ [[a]]"
  have lit: "valid h1 literal" "contents h1 literal = [a]" by (simp_all add: valid_def contents_def literal_def h1_def)
  obtain tail h2 where t: "go_append z spare literal (drop i as) h1 = (tail, h2)" by fastforce
  have pre: "valid h1 (s\<lparr>Len := i\<rparr>)" "contents h1 (s\<lparr>Len := i\<rparr>) = take i as"
    using s i by (auto simp: valid_def contents_def h1_def as_def nth_append)
  have "Arr s \<noteq> Arr literal" using s by (simp add: literal_def valid_def)
  then have h2: "valid h2 (s\<lparr>Len := i\<rparr>)" "contents h2 (s\<lparr>Len := i\<rparr>) = take i as"
    using go_append_other [OF lit(1) pre(1) t] pre(2) by simp_all
  have tail: "contents h2 tail = a # drop i as"
    using go_append_contents [OF lit(1) t] lit(2) by simp
  have "go_append z spare (s\<lparr>Len := i\<rparr>) (contents h2 tail) h2 = (s', h')"
    using ins False t by (simp add: insert_slice_def Let_def literal_def h1_def as_def i_def)
  from go_append_contents [OF h2(1) this] show ?thesis
    by (simp add: h2(2) tail insert_append_position [of as] flip: as_def i_def)
qed

text \<open>
  The copies that \<open>GetFile\<close> hands out are not safe: as long as the array of a file's appends has
  room, a later insertion changes the copies taken before. A copy keeps its length, so it shows a prefix
  of the new list: after an insertion before the end, it has the new append and has lost its last one.
  Only when the array is full do copies stay as they were.
\<close>

theorem copies_change:
  assumes s: "valid h s" and ins: "insert_slice z spare a s h = (s', h')"
  shows "contents h' s = (if Len s < length (h ! Arr s) then take (Len s) (insert_append (contents h s) a) else contents h s)"
proof -
  define as i where "as = contents h s" and "i = insert_position as a"
  have len: "length as = Len s" using length_contents [OF s] by (simp add: as_def)
  have list: "insert_append as a = take i as @ a # drop i as" by (simp add: i_def insert_append_position)
  show ?thesis
  proof (cases "i = length as")
    case True
    then have "go_append z spare s [a] h = (s', h')" using ins by (simp add: insert_slice_def Let_def as_def i_def)
    from go_append_other [OF s s this] show ?thesis using True len by (simp add: list flip: as_def)
  next
    case False
    then have i: "i < Len s" using insert_position_le [of as a] len by (simp add: i_def)
    define literal h1 where "literal = \<lparr>Arr = length h, Len = 1\<rparr>" and "h1 = h @ [[a]]"
    have lit: "valid h1 literal" "contents h1 literal = [a]" by (simp_all add: valid_def contents_def literal_def h1_def)
    obtain tail h2 where t: "go_append z spare literal (drop i as) h1 = (tail, h2)" by fastforce
    have "\<not> Len literal + length (drop i as) \<le> length (h1 ! Arr literal)"
      using i len by (simp add: literal_def h1_def)
    then have "h2 = h1 @ [take (Len literal) (h1 ! Arr literal) @ drop i as @ replicate (spare (Len literal + length (drop i as))) z]"
      using t by (simp add: go_append_def Let_def)
    then have same: "h2 ! Arr s = h ! Arr s" "Arr s < length h2"
      using s by (simp_all add: valid_def h1_def nth_append)
    then have v: "valid h2 (s\<lparr>Len := i\<rparr>)" "valid h2 s" "contents h2 s = as" "contents h2 (s\<lparr>Len := i\<rparr>) = take i as"
      using s i by (auto simp: valid_def contents_def as_def)
    have "contents h2 tail = a # drop i as" using go_append_contents [OF lit(1) t] lit(2) by simp
    then have "go_append z spare (s\<lparr>Len := i\<rparr>) (a # drop i as) h2 = (s', h')"
      using ins False t by (simp add: insert_slice_def Let_def literal_def h1_def as_def i_def)
    from go_append_other [OF v(1,2) this] show ?thesis
      using i len same(1) by (simp add: v(3,4) list take_Cons' flip: as_def)
  qed
qed

definition timed_append :: "string \<Rightarrow> string \<Rightarrow> AppendInfo" where
  "timed_append i ts = \<lparr>AppFileName = ''f'', AppendID = i, ClientID = ''c'', ClientTimestamp = ts, AppendHash = '''', Size = 1\<rparr>"

theorem insert_slice_refines_witness:
  "\<exists>s' h'. insert_slice (timed_append '''' '''') (\<lambda>n. n) (timed_append ''x'' ''1'') \<lparr>Arr = 0, Len = 2\<rparr>
      [[timed_append ''y'' ''2'', timed_append ''z'' ''3'']] = (s', h') \<and>
    contents h' s' = [timed_append ''x'' ''1'', timed_append ''y'' ''2'', timed_append ''z'' ''3'']"
proof -
  let ?h = "[[timed_append ''y'' ''2'', timed_append ''z'' ''3'']]"
  obtain s' h' where i: "insert_slice (timed_append '''' '''') (\<lambda>n. n) (timed_append ''x'' ''1'') \<lparr>Arr = 0, Len = 2\<rparr> ?h = (s', h')"
    by fastforce
  have "valid ?h \<lparr>Arr = 0, Len = 2\<rparr>" by (simp add: valid_def)
  from insert_slice_refines [OF this i] i show ?thesis
    by (simp add: contents_def timed_append_def)
qed

theorem copies_change_witness:
  "\<exists>s' h'. insert_slice (timed_append '''' '''') (\<lambda>n. n) (timed_append ''x'' ''1'') \<lparr>Arr = 0, Len = 2\<rparr>
      [[timed_append ''y'' ''2'', timed_append ''z'' ''3'', timed_append '''' '''']] = (s', h') \<and>
    contents h' \<lparr>Arr = 0, Len = 2\<rparr> = [timed_append ''x'' ''1'', timed_append ''y'' ''2'']"
proof -
  let ?h = "[[timed_append ''y'' ''2'', timed_append ''z'' ''3'', timed_append '''' '''']]"
  obtain s' h' where i: "insert_slice (timed_append '''' '''') (\<lambda>n. n) (timed_append ''x'' ''1'') \<lparr>Arr = 0, Len = 2\<rparr> ?h = (s', h')"
    by fastforce
  have "valid ?h \<lparr>Arr = 0, Len = 2\<rparr>" by (simp add: valid_def)
  from copies_change [OF this i] i show ?thesis
    by (simp add: contents_def timed_append_def)
qed

end
