(* ===== verification/Json.thy ===== *)
theory Json
  imports Go_Strings
begin

text \<open>
  What the control messages use of Go's \<^verbatim>\<open>encoding/json\<close>: values, the compact text of
  \<^verbatim>\<open>Marshal\<close>, and \<^verbatim>\<open>Unmarshal\<close> as the character automaton with a stack
  that the package's scanner is. Strings are valid UTF-8 without the line separators U+2028 and
  U+2029, and \<open>\u\<close> escapes name ASCII characters. Numbers are integers: no message has another one.
\<close>

section \<open>Values and their text\<close>

datatype json = JNull | JBool bool | JNum int | JStr string | JArr "json list"
  | JObj "(string \<times> json) list"

definition hex_digit :: "nat \<Rightarrow> char" where
  "hex_digit n = (if n < 10 then char_of (48 + n) else char_of (87 + n))"

text \<open>Besides quotes, backslashes and control characters, \<^verbatim>\<open>Marshal\<close> escapes \<open><\<close>, \<open>>\<close> and \<open>&\<close>.\<close>

definition escape :: "char \<Rightarrow> string" where
  "escape c =
     (let n = of_char c :: nat
      in if c = CHR 0x22 \<or> c = CHR 0x5C then [CHR 0x5C, c]
         else if n = 8 then [CHR 0x5C, CHR ''b'']
         else if n = 12 then [CHR 0x5C, CHR ''f'']
         else if n = 10 then [CHR 0x5C, CHR ''n'']
         else if n = 13 then [CHR 0x5C, CHR ''r'']
         else if n = 9 then [CHR 0x5C, CHR ''t'']
         else if n < 32 \<or> c = CHR ''<'' \<or> c = CHR ''>'' \<or> c = CHR ''&''
         then [CHR 0x5C, CHR ''u'', CHR ''0'', CHR ''0'', hex_digit (n div 16), hex_digit (n mod 16)]
         else [c])"

definition quote :: "string \<Rightarrow> string" where
  "quote s = CHR 0x22 # concat (map escape s) @ [CHR 0x22]"

fun commas :: "string list \<Rightarrow> string" where
  "commas [] = []"
| "commas [x] = x"
| "commas (x # y # xs) = x @ CHR '','' # commas (y # xs)"

fun Marshal :: "json \<Rightarrow> string" where
  "Marshal JNull = ''null''"
| "Marshal (JBool b) = (if b then ''true'' else ''false'')"
| "Marshal (JNum i) = itoa i"
| "Marshal (JStr s) = quote s"
| "Marshal (JArr vs) = CHR ''['' # commas (map Marshal vs) @ '']''"
| "Marshal (JObj es) = CHR ''{'' # commas (map (\<lambda>(k, v). quote k @ CHR '':'' # Marshal v) es) @ ''}''"

section \<open>The scanner\<close>

text \<open>
  Where the scanner is: before a value (\<open>First\<close>: after an opening bracket, which may close at once),
  before a key or its colon, inside a string (\<open>Some es\<close>: a key of an object with the entries \<open>es\<close>),
  behind its backslash, inside its hexadecimal escape, in a literal, in a number, after a value.
\<close>

datatype place =
    AtValue bool
  | AtKey bool "(string \<times> json) list"
  | AtColon "(string \<times> json) list" string
  | InString "(string \<times> json) list option" string
  | InEscape "(string \<times> json) list option" string
  | InHex "(string \<times> json) list option" string nat nat
  | InLiteral string json
  | InNumber string
  | After json

text \<open>The open arrays and objects, innermost first, with what they hold so far.\<close>

datatype frame = InArray "json list" | InObject "(string \<times> json) list" string

type_synonym scan = "place \<times> frame list"

definition blank :: "char \<Rightarrow> bool" where
  "blank c \<longleftrightarrow> c = CHR '' '' \<or> c = CHR 0x09 \<or> c = CHR 0x0A \<or> c = CHR 0x0D"

definition number :: "string \<Rightarrow> int option" where
  "number tok = (case parse_int tok of None \<Rightarrow> None | Some i \<Rightarrow> if itoa i = tok then Some i else None)"

definition hex_value :: "char \<Rightarrow> nat option" where
  "hex_value c =
     (let n = of_char c :: nat
      in if 48 \<le> n \<and> n \<le> 57 then Some (n - 48)
         else if 97 \<le> n \<and> n \<le> 102 then Some (n - 87)
         else if 65 \<le> n \<and> n \<le> 70 then Some (n - 55)
         else None)"

definition unescape :: "char \<Rightarrow> char option" where
  "unescape c =
     (if c = CHR 0x22 \<or> c = CHR 0x5C \<or> c = CHR ''/'' then Some c
      else if c = CHR ''b'' then Some (CHR 0x08)
      else if c = CHR ''f'' then Some (CHR 0x0C)
      else if c = CHR ''n'' then Some (CHR 0x0A)
      else if c = CHR ''r'' then Some (CHR 0x0D)
      else if c = CHR ''t'' then Some (CHR 0x09)
      else None)"

fun after_value :: "char \<Rightarrow> json \<Rightarrow> frame list \<Rightarrow> scan option" where
  "after_value c v (InArray vs # fs) =
     (if blank c then Some (After v, InArray vs # fs)
      else if c = CHR '','' then Some (AtValue False, InArray (vs @ [v]) # fs)
      else if c = CHR '']'' then Some (After (JArr (vs @ [v])), fs)
      else None)"
| "after_value c v (InObject es k # fs) =
     (if blank c then Some (After v, InObject es k # fs)
      else if c = CHR '','' then Some (AtKey False (es @ [(k, v)]), fs)
      else if c = CHR ''}'' then Some (After (JObj (es @ [(k, v)])), fs)
      else None)"
| "after_value c v [] = (if blank c then Some (After v, []) else None)"

text \<open>The first character of a value.\<close>

definition begin_value :: "bool \<Rightarrow> char \<Rightarrow> frame list \<Rightarrow> scan option" where
  "begin_value first c fs =
     (if blank c then Some (AtValue first, fs)
      else if c = CHR ''['' then Some (AtValue True, InArray [] # fs)
      else if c = CHR ''{'' then Some (AtKey True [], fs)
      else if c = CHR 0x22 then Some (InString None [], fs)
      else if c = CHR ''n'' then Some (InLiteral ''ull'' JNull, fs)
      else if c = CHR ''t'' then Some (InLiteral ''rue'' (JBool True), fs)
      else if c = CHR ''f'' then Some (InLiteral ''alse'' (JBool False), fs)
      else if c = CHR ''-'' \<or> char_digit c \<noteq> None then Some (InNumber [c], fs)
      else if first \<and> c = CHR '']'' then
        (case fs of InArray vs # fs' \<Rightarrow> Some (After (JArr vs), fs') | _ \<Rightarrow> None)
      else None)"

fun scan_char :: "char \<Rightarrow> scan \<Rightarrow> scan option" where
  "scan_char c (AtValue first, fs) = begin_value first c fs"
| "scan_char c (AtKey first es, fs) =
     (if blank c then Some (AtKey first es, fs)
      else if c = CHR 0x22 then Some (InString (Some es) [], fs)
      else if first \<and> c = CHR ''}'' then Some (After (JObj es), fs)
      else None)"
| "scan_char c (AtColon es k, fs) =
     (if blank c then Some (AtColon es k, fs)
      else if c = CHR '':'' then Some (AtValue False, InObject es k # fs)
      else None)"
| "scan_char c (InString key s, fs) =
     (if c = CHR 0x22 then
        (case key of None \<Rightarrow> Some (After (JStr s), fs) | Some es \<Rightarrow> Some (AtColon es s, fs))
      else if c = CHR 0x5C then Some (InEscape key s, fs)
      else if (of_char c :: nat) < 32 then None
      else Some (InString key (s @ [c]), fs))"
| "scan_char c (InEscape key s, fs) =
     (if c = CHR ''u'' then Some (InHex key s 4 0, fs)
      else case unescape c of None \<Rightarrow> None | Some d \<Rightarrow> Some (InString key (s @ [d]), fs))"
| "scan_char c (InHex key s n acc, fs) =
     (case hex_value c of
        None \<Rightarrow> None
      | Some d \<Rightarrow>
          if n > 1 then Some (InHex key s (n - 1) (16 * acc + d), fs)
          else if 16 * acc + d < 128 then Some (InString key (s @ [char_of (16 * acc + d)]), fs)
          else None)"
| "scan_char c (InLiteral rest v, fs) =
     (case rest of
        [] \<Rightarrow> None
      | r # rs \<Rightarrow> if c \<noteq> r then None else if rs = [] then Some (After v, fs) else Some (InLiteral rs v, fs))"
| "scan_char c (InNumber tok, fs) =
     (if c = CHR ''-'' \<or> char_digit c \<noteq> None then Some (InNumber (tok @ [c]), fs)
      else case number tok of None \<Rightarrow> None | Some i \<Rightarrow> after_value c (JNum i) fs)"
| "scan_char c (After v, fs) = after_value c v fs"

fun scan_text :: "string \<Rightarrow> scan \<Rightarrow> scan option" where
  "scan_text [] st = Some st"
| "scan_text (c # cs) st = (case scan_char c st of None \<Rightarrow> None | Some st' \<Rightarrow> scan_text cs st')"

text \<open>The value at the end of the text: nothing is open any more. \<open>None\<close> is a syntax error.\<close>

fun scan_end :: "scan \<Rightarrow> json option" where
  "scan_end (After v, []) = Some v"
| "scan_end (InNumber tok, []) = map_option JNum (number tok)"
| "scan_end _ = None"

definition Unmarshal :: "string \<Rightarrow> json option" where
  "Unmarshal txt =
     (case scan_text txt (AtValue False, []) of None \<Rightarrow> None | Some st \<Rightarrow> scan_end st)"

section \<open>What was marshalled is read back\<close>

lemma scan_text_append:
  "scan_text (xs @ ys) st = (case scan_text xs st of None \<Rightarrow> None | Some st' \<Rightarrow> scan_text ys st')"
  by (induction xs arbitrary: st) (auto split: option.splits)

lemma hex_value_digit: "n < 16 \<Longrightarrow> hex_value (hex_digit n) = Some n"
  by (simp add: hex_value_def hex_digit_def Let_def)

lemma char_of_values: "(of_char c :: nat) = n \<longleftrightarrow> n < 256 \<and> c = char_of n"
  by auto

lemma control_chars: "char_of (8 :: nat) = CHR 0x08" "char_of (9 :: nat) = CHR 0x09"
  "char_of (10 :: nat) = CHR 0x0A" "char_of (12 :: nat) = CHR 0x0C" "char_of (13 :: nat) = CHR 0x0D"
  by code_simp+

lemma scan_hex:
  assumes "n < 128"
  shows "scan_text [CHR ''u'', CHR ''0'', CHR ''0'', hex_digit (n div 16), hex_digit (n mod 16)]
    (InEscape key s, fs) = Some (InString key (s @ [char_of n]), fs)"
proof -
  have "hex_value (CHR ''0'') = Some 0" by code_simp
  moreover have "n div 16 < 16" using assms by simp
  ultimately show ?thesis using assms by (simp add: hex_value_digit)
qed

lemma scan_escape:
  "scan_text (escape c) (InString key s, fs) = Some (InString key (s @ [c]), fs)"
proof -
  let ?n = "of_char c :: nat"
  consider "?n \<in> {8, 9, 10, 12, 13} \<or> c = CHR 0x22 \<or> c = CHR 0x5C"
    | "?n \<notin> {8, 9, 10, 12, 13}" "c \<noteq> CHR 0x22" "c \<noteq> CHR 0x5C"
        "?n < 32 \<or> c = CHR ''<'' \<or> c = CHR ''>'' \<or> c = CHR ''&''"
    | "c \<noteq> CHR 0x22" "c \<noteq> CHR 0x5C" "32 \<le> ?n" "c \<noteq> CHR ''<''" "c \<noteq> CHR ''>''" "c \<noteq> CHR ''&''"
    by fastforce
  then show ?thesis
  proof cases
    case 1
    then have "c \<in> {char_of (8 :: nat), char_of (9 :: nat), char_of (10 :: nat), char_of (12 :: nat), char_of (13 :: nat), CHR 0x22, CHR 0x5C}"
      by (auto simp: char_of_values)
    then have "c \<in> {CHR 0x08, CHR 0x09, CHR 0x0A, CHR 0x0C, CHR 0x0D, CHR 0x22, CHR 0x5C}" by (simp add: control_chars)
    then obtain d where "escape c = [CHR 0x5C, d]" "d \<noteq> CHR ''u''" "unescape d = Some c"
      by (auto simp: escape_def unescape_def)
    then show ?thesis by simp
  next
    case 2
    then have "?n < 128" "escape c = CHR 0x5C # [CHR ''u'', CHR ''0'', CHR ''0'', hex_digit (?n div 16), hex_digit (?n mod 16)]"
      by (auto simp: escape_def Let_def)
    then show ?thesis using scan_hex [of ?n] by simp
  next
    case 3
    then show ?thesis by (auto simp: escape_def Let_def)
  qed
qed

lemma scan_quoted:
  "scan_text (concat (map escape t)) (InString key s, fs) = Some (InString key (s @ t), fs)"
  by (induction t arbitrary: s) (auto simp: scan_text_append scan_escape)

lemma scan_number: 
  "scan_text ds (InNumber tok, fs) = Some (InNumber (tok @ ds), fs)" 
  if "\<forall>c \<in> set ds. c = CHR ''-'' \<or> char_digit c \<noteq> None"
  using that by (induction ds arbitrary: tok) auto

text \<open>Where a value leaves the scanner: at the end of a number it does not know yet that it ends.\<close>

definition completed :: "json \<Rightarrow> place" where
  "completed v = (case v of JNum i \<Rightarrow> InNumber (itoa i) | _ \<Rightarrow> After v)"

lemma number_itoa [simp]: "number (itoa i) = Some i"
  by (simp add: number_def parse_int_itoa)

lemma itoa_Cons:
  obtains c cs where "itoa i = c # cs" "c = CHR ''-'' \<or> char_digit c \<noteq> None"
    "\<forall>d \<in> set cs. d = CHR ''-'' \<or> char_digit d \<noteq> None"
proof -
  obtain d ds where d: "digits (nat i) = d # ds" using digits_nonempty by (cases "digits (nat i)") auto
  show ?thesis
  proof (cases "i < 0")
    case True
    then show ?thesis using that [of "CHR ''-''" "digits (nat (- i))"] digits_all by (auto simp: itoa_def)
  next
    case False
    then show ?thesis using that [of d ds] digits_all [of _ "nat i"] d by (auto simp: itoa_def)
  qed
qed

lemma scan_completed:
  assumes "c = CHR '','' \<or> c = CHR '']'' \<or> c = CHR ''}''"
  shows "scan_char c (completed v, fs) = after_value c v fs"
  using assms by (cases v) (auto simp: completed_def char_digit_def Let_def)

lemma completed_values [simp]:
  "completed JNull = After JNull" "completed (JBool b) = After (JBool b)"
  "completed (JStr s) = After (JStr s)" "completed (JArr vs) = After (JArr vs)"
  "completed (JObj es) = After (JObj es)"
  by (simp_all add: completed_def)

text \<open>Reading a value; then the elements of an array, and the entries of an object.\<close>

definition reads :: "json \<Rightarrow> bool" where
  "reads v \<longleftrightarrow> (\<forall>first fs. scan_text (Marshal v) (AtValue first, fs) = Some (completed v, fs))"

lemma scan_elements:
  assumes "\<forall>v \<in> set (v # vs). reads v"
  shows "scan_text (commas (map Marshal (v # vs)) @ '']'') (AtValue first, InArray acc # fs) =
    Some (After (JArr (acc @ v # vs)), fs)"
  using assms
proof (induction vs arbitrary: v first acc)
  case Nil
  then show ?case by (simp add: reads_def scan_text_append scan_completed blank_def)
next
  case (Cons w vs)
  then have "scan_text (commas (map Marshal (w # vs)) @ '']'') (AtValue False, InArray (acc @ [v]) # fs) =
      Some (After (JArr ((acc @ [v]) @ w # vs)), fs)"
    by simp
  with Cons.prems show ?case by (simp add: reads_def scan_text_append scan_completed blank_def)
qed

definition entry_text :: "string \<times> json \<Rightarrow> string" where
  "entry_text e = quote (fst e) @ CHR '':'' # Marshal (snd e)"

lemma scan_entry:
  assumes "reads v"
  shows "scan_text (entry_text (k, v)) (AtKey first es, fs) = Some (completed v, InObject es k # fs)"
  using assms by (simp add: entry_text_def quote_def reads_def scan_text_append scan_quoted blank_def)

lemma scan_entries:
  assumes "\<forall>e \<in> set (e # es). reads (snd e)"
  shows "scan_text (commas (map entry_text (e # es)) @ ''}'') (AtKey first acc, fs) =
    Some (After (JObj (acc @ e # es)), fs)"
  using assms
proof (induction es arbitrary: e first acc)
  case Nil
  then show ?case
    using scan_entry [of "snd e" "fst e"] by (simp add: scan_text_append scan_completed blank_def)
next
  case (Cons w es)
  then have "scan_text (commas (map entry_text (w # es)) @ ''}'') (AtKey False (acc @ [e]), fs) =
      Some (After (JObj ((acc @ [e]) @ w # es)), fs)"
    by simp
  with Cons.prems show ?case
    using scan_entry [of "snd e" "fst e"] by (simp add: scan_text_append scan_completed blank_def)
qed

lemma Marshal_JObj: "Marshal (JObj es) = CHR ''{'' # commas (map entry_text es) @ ''}''"
proof -
  have "(\<lambda>(k, v). quote k @ CHR '':'' # Marshal v) = entry_text" by (auto simp: entry_text_def fun_eq_iff)
  then show ?thesis by simp
qed

lemma no_digits:
  "\<forall>c \<in> {CHR '' '', CHR 0x09, CHR 0x0A, CHR 0x0D, CHR ''['', CHR ''{'', CHR 0x22, CHR ''n'', CHR ''t'', CHR ''f'',
     CHR '']''}. char_digit c = None"
  by code_simp

lemma reads_all: "reads v"
proof (induction v)
  case JNull
  show ?case by (simp add: reads_def begin_value_def blank_def)
next
  case (JBool b)
  show ?case by (simp add: reads_def begin_value_def blank_def)
next
  case (JNum i)
  obtain c cs where c: "itoa i = c # cs" "c = CHR ''-'' \<or> char_digit c \<noteq> None"
    "\<forall>d \<in> set cs. d = CHR ''-'' \<or> char_digit d \<noteq> None"
    by (rule itoa_Cons)
  moreover have "c \<notin> {CHR '' '', CHR 0x09, CHR 0x0A, CHR 0x0D, CHR ''['', CHR ''{'', CHR 0x22, CHR ''n'', CHR ''t'', CHR ''f''}"
    using c(2) no_digits by auto
  then have "begin_value first c fs = Some (InNumber [c], fs)" for first fs
    using c(2) by (auto simp: begin_value_def blank_def)
  ultimately show ?case by (simp add: reads_def completed_def scan_number)
next
  case (JStr s)
  show ?case by (simp add: reads_def quote_def begin_value_def blank_def scan_text_append scan_quoted)
next
  case (JArr vs)
  then show ?case
    using scan_elements [of "hd vs" "tl vs" True "[]"]
    by (cases vs) (auto simp: reads_def begin_value_def blank_def no_digits)
next
  case (JObj es)
  then have "\<forall>e \<in> set es. reads (snd e)" by (metis prod.collapse snds.intros)
  then show ?case
    using scan_entries [of "hd es" "tl es" True "[]"]
    by (cases es) (auto simp: reads_def begin_value_def blank_def Marshal_JObj simp del: Marshal.simps)
qed

lemma Unmarshal_Marshal: "Unmarshal (Marshal v) = Some v"
  using reads_all [of v] by (cases v) (auto simp: Unmarshal_def reads_def completed_def)

section \<open>A cut-off object is not read\<close>

text \<open>At the end of a value only blanks, or the rest of a number, may follow.\<close>

definition ended :: "scan \<Rightarrow> bool" where
  "ended st \<longleftrightarrow> (\<exists>v. st = (After v, [])) \<or> (\<exists>tok. st = (InNumber tok, []))"

lemma scan_ended:
  assumes "ended st" and "scan_text cs st = Some st'"
  shows "ended st'"
  using assms
proof (induction cs arbitrary: st)
  case (Cons c cs)
  then obtain st1 where st1: "scan_char c st = Some st1" "scan_text cs st1 = Some st'"
    by (auto split: option.splits)
  with Cons.prems(1) have "ended st1" by (auto simp: ended_def split: if_splits option.splits)
  with st1(2) show ?case by (rule Cons.IH [rotated])
qed simp

lemma brace_after_end: "ended st \<Longrightarrow> scan_char (CHR ''}'') st = None"
  by (auto simp: ended_def blank_def char_digit_def Let_def split: option.splits)

lemma ended_if: "scan_end st = Some v \<Longrightarrow> ended st"
  by (induction st rule: scan_end.induct) (auto simp: ended_def)

lemma Unmarshal_cut:
  assumes "n < length (Marshal (JObj es))"
  shows "Unmarshal (take n (Marshal (JObj es))) = None"
proof (rule ccontr)
  let ?t = "Marshal (JObj es)" and ?b = "CHR ''{'' # commas (map entry_text es)"
  assume "Unmarshal (take n ?t) \<noteq> None"
  then obtain st where st: "scan_text (take n ?t) (AtValue False, []) = Some st" "ended st"
    by (auto simp: Unmarshal_def dest: ended_if split: option.splits)
  have "?t = ?b @ ''}''" by (simp only: Marshal_JObj append_Cons)
  then have t: "?t = take n ?t @ drop n ?b @ ''}''" using assms
    by (metis append_assoc append_take_drop_id diff_is_0_eq' drop_append length_append_singleton less_Suc_eq_le drop0)
  have "scan_text (drop n ?b @ ''}'') st = None"
    using scan_ended [OF st(2)] brace_after_end by (auto simp: scan_text_append split: option.splits)
  then have "scan_text ?t (AtValue False, []) = None" using st(1) by (subst t) (simp add: scan_text_append)
  then show False using reads_all [of "JObj es"] by (simp add: reads_def)
qed

section \<open>Through \<open>interface{}\<close>\<close>

text \<open>
  A value that was read into an \<^verbatim>\<open>interface{}\<close> and is marshalled again: objects have become
  maps, whose keys \<^verbatim>\<open>Marshal\<close> sorts; numbers have become \<^verbatim>\<open>float64\<close>,
  which is exact up to \<open>2^53\<close>. What happens to larger ones is not modelled.
\<close>

fun exact :: "json \<Rightarrow> bool" where
  "exact (JNum i) = (\<bar>i\<bar> \<le> 2 ^ 53)"
| "exact (JArr vs) = (\<forall>v \<in> set vs. exact v)"
| "exact (JObj es) = (\<forall>e \<in> set es. exact (snd e))"
| "exact _ = True"

definition as_map :: "(string \<times> json) list \<Rightarrow> (string \<times> json) list" where
  "as_map es = sort_key fst (fold (\<lambda>(k, v) m. AList.update k v m) es [])"

fun as_interface :: "json \<Rightarrow> json" where
  "as_interface (JArr vs) = JArr (map as_interface vs)"
| "as_interface (JObj es) = JObj (as_map (map (\<lambda>(k, v). (k, as_interface v)) es))"
| "as_interface v = v"

section \<open>The length of the text\<close>

lemma length_commas: "length (commas xs) = sum_list (map length xs) + (length xs - 1)"
  by (induction xs rule: commas.induct) auto

lemma length_quote: "length s + 2 \<le> length (quote s)"
proof -
  have "length (escape c) \<ge> 1" for c by (simp add: escape_def Let_def)
  then have "length s \<le> length (concat (map escape s))"
    by (induction s) (auto intro: order_trans add_mono)
  then show ?thesis by (simp add: quote_def)
qed

lemma length_itoa: "1 \<le> length (itoa i)"
  by (rule itoa_Cons [of i]) simp

lemma length_entry: "length (entry_text (k, v)) \<ge> length k + 3 + length (Marshal v)"
  using length_quote [of k] by (simp add: entry_text_def)

lemma length_JObj: "length (Marshal (JObj es)) = 2 + sum_list (map (length \<circ> entry_text) es) + (length es - 1)"
  by (simp add: Marshal_JObj length_commas del: Marshal.simps)

lemma length_JObj_ge:
  "sum_list (map (\<lambda>(k, v). length k + 4 + length (Marshal v)) es) + 1 \<le> length (Marshal (JObj es))"
proof -
  have "sum_list (map (\<lambda>(k, v). length k + 4 + length (Marshal v)) es) \<le>
      sum_list (map (length \<circ> entry_text) es) + length es"
  proof (induction es)
    case (Cons e es)
    then show ?case using length_entry [of "fst e" "snd e"] by (cases e) simp
  qed simp
  then show ?thesis by (simp only: length_JObj)
qed

lemma length_JArr_ge:
  assumes "\<forall>v \<in> set vs. n \<le> length (Marshal v)"
  shows "length vs * (n + 1) + 1 \<le> length (Marshal (JArr vs))"
proof -
  have "length vs * n \<le> sum_list (map (length \<circ> Marshal) vs)"
    using assms by (induction vs) (auto intro: add_mono)
  then show ?thesis by (simp add: length_commas algebra_simps)
qed

end
