(* ===== verification/Codec.thy ===== *)
theory Codec
  imports Json
begin

text \<open>
  How \<^verbatim>\<open>encoding/json\<close> fills structs from objects, and the interface of a type that
  travels over the wire: \<open>codec\<close>, with what every message inherits from it.
\<close>

section \<open>Filling a struct\<close>

text \<open>
  A key names the field it equals up to case; \<^verbatim>\<open>null\<close>, and a key that does not occur,
  leave the field at its zero value. \<open>None\<close> is a type mismatch.
\<close>

definition field :: "string \<Rightarrow> (string \<times> json) list \<Rightarrow> json" where
  "field k es =
     (case filter (\<lambda>e. to_lower (fst e) = to_lower k \<and> snd e \<noteq> JNull) es of
        [] \<Rightarrow> JNull
      | ms \<Rightarrow> snd (last ms))"

definition struct :: "((string \<times> json) list \<Rightarrow> 'a option) \<Rightarrow> json \<Rightarrow> 'a option" where
  "struct f j = (case j of JObj es \<Rightarrow> f es | JNull \<Rightarrow> f [] | _ \<Rightarrow> None)"

definition to_string :: "json \<Rightarrow> string option" where
  "to_string j = (case j of JStr s \<Rightarrow> Some s | JNull \<Rightarrow> Some '''' | _ \<Rightarrow> None)"

definition to_bool :: "json \<Rightarrow> bool option" where
  "to_bool j = (case j of JBool b \<Rightarrow> Some b | JNull \<Rightarrow> Some False | _ \<Rightarrow> None)"

definition to_big :: "json \<Rightarrow> int option" where
  "to_big j = (case j of JNum i \<Rightarrow> Some i | JNull \<Rightarrow> Some 0 | _ \<Rightarrow> None)"

definition to_int64 :: "json \<Rightarrow> int option" where
  "to_int64 j = (case to_big j of
     None \<Rightarrow> None | Some i \<Rightarrow> if - (2 ^ 63) \<le> i \<and> i < 2 ^ 63 then Some i else None)"

definition to_uint64 :: "json \<Rightarrow> u64 option" where
  "to_uint64 j = (case to_big j of
     None \<Rightarrow> None | Some i \<Rightarrow> if 0 \<le> i \<and> i < 2 ^ 64 then Some (of_int i) else None)"

definition to_slice :: "(json \<Rightarrow> 'a option) \<Rightarrow> json \<Rightarrow> 'a list option" where
  "to_slice f j = (case j of JArr vs \<Rightarrow> those (map f vs) | JNull \<Rightarrow> Some [] | _ \<Rightarrow> None)"

text \<open>An object into a map with string keys; \<open>Marshal\<close> writes the keys of a map in order.\<close>

definition from_map :: "('a \<Rightarrow> json) \<Rightarrow> 'a go_map \<Rightarrow> json" where
  "from_map f m = JObj (sort_key fst (map (apsnd f) m))"

definition to_map :: "(json \<Rightarrow> 'a option) \<Rightarrow> json \<Rightarrow> 'a go_map option" where
  "to_map f j = (case j of
     JObj es \<Rightarrow> map_option (\<lambda>vs. fold (\<lambda>(k, v) m. AList.update k v m) (zip (map fst es) vs) [])
       (those (map (f \<circ> snd) es))
   | JNull \<Rightarrow> Some []
   | _ \<Rightarrow> None)"

lemma to_simps [simp]:
  "to_string (JStr s) = Some s" "to_bool (JBool b) = Some b" "to_big (JNum i) = Some i"
  "to_slice f (JArr vs) = those (map f vs)" "struct g (JObj es) = g es"
  by (simp_all add: to_string_def to_bool_def to_big_def to_slice_def struct_def)

lemma to_int64_JNum [simp]: "- (2 ^ 63) \<le> i \<Longrightarrow> i < 2 ^ 63 \<Longrightarrow> to_int64 (JNum i) = Some i"
  by (simp add: to_int64_def)

lemma to_uint64_JNum [simp]: "to_uint64 (JNum (uint w)) = Some (w :: u64)"
  using uint_bounded [of w] by (simp add: to_uint64_def)

section \<open>Fields of a map\<close>

lemma fold_update_distinct:
  "distinct (map fst (acc @ es)) \<Longrightarrow> fold (\<lambda>(k, v) m. AList.update k v m) es acc = acc @ es"
proof (induction es arbitrary: acc)
  case (Cons e es)
  then have "AList.update (fst e) (snd e) acc = acc @ [e]" by (induction acc) auto
  with Cons show ?case by (simp add: case_prod_beta)
qed simp

lemma distinct_fst_if_lower: "distinct (map to_lower (map fst es)) \<Longrightarrow> distinct (map fst es)"
  by (simp only: distinct_map)

lemma as_map_distinct: "distinct (map fst es) \<Longrightarrow> as_map es = sort_key fst es"
  using fold_update_distinct [of "[]" es] by (simp add: as_map_def)

lemma as_interface_JNull [simp]: "as_interface v = JNull \<longleftrightarrow> v = JNull"
  by (cases v) simp_all

text \<open>A field of a struct that was read into an \<^verbatim>\<open>interface{}\<close> and marshalled again.\<close>

definition interface_entries :: "(string \<times> json) list \<Rightarrow> (string \<times> json) list" where
  "interface_entries es = as_map (map (apsnd as_interface) es)"

lemma as_interface_JObj: "as_interface (JObj es) = JObj (interface_entries es)"
proof -
  have "(\<lambda>(k :: string, v). (k, as_interface v)) = apsnd as_interface" by (auto simp: fun_eq_iff)
  then show ?thesis by (simp only: interface_entries_def as_interface.simps)
qed

lemma filter_unique:
  assumes "distinct (map f xs)" and "x \<in> set xs" and "P x"
    and "\<And>y. y \<in> set xs \<Longrightarrow> P y \<Longrightarrow> f y = f x"
  shows "filter P xs = [x]"
  using assms
proof (induction xs)
  case (Cons y ys)
  have y: "f y \<notin> f ` set ys" "distinct (map f ys)" using Cons.prems(1) by simp_all
  show ?case
  proof (cases "y = x")
    case True
    have "\<not> P z" if "z \<in> set ys" for z
    proof
      assume "P z"
      then have "f z = f y" using Cons.prems(4) [of z] that True by simp
      with y(1) imageI [OF that, of f] show False by simp
    qed
    then have "filter P ys = []" by (simp add: filter_empty_conv)
    with True Cons.prems(3) show ?thesis by simp
  next
    case False
    then have x: "x \<in> set ys" using Cons.prems(2) by simp
    then have "f y \<noteq> f x" using y(1) imageI [OF x, of f] by metis
    then have "\<not> P y" using Cons.prems(4) [of y] by auto
    moreover have "filter P ys = [x]"
      by (rule Cons.IH [OF y(2) x Cons.prems(3)]) (rule Cons.prems(4), simp_all)
    ultimately show ?thesis by simp
  qed
qed simp

lemma field_unique:
  assumes "distinct (map to_lower (map fst es))" and "(k, v) \<in> set es"
  shows "field k es = v"
proof (cases "v = JNull")
  case False
  have "filter (\<lambda>e. to_lower (fst e) = to_lower k \<and> snd e \<noteq> JNull) es = [(k, v)]"
    using assms False by (intro filter_unique [of "\<lambda>e. to_lower (fst e)"]) (auto simp: comp_def)
  then show ?thesis by (simp add: field_def)
next
  case True
  have "inj_on (\<lambda>e. to_lower (fst e)) (set es)" using assms(1) by (simp add: distinct_map comp_def)
  then have "e = (k, v)" if "e \<in> set es" "to_lower (fst e) = to_lower k" for e
    by (rule inj_onD) (use assms(2) that in simp_all)
  then have "filter (\<lambda>e. to_lower (fst e) = to_lower k \<and> snd e \<noteq> JNull) es = []"
    using True by (auto simp: filter_empty_conv)
  then show ?thesis using True by (simp add: field_def)
qed

text \<open>Lookups of the keys \<open>ks\<close> of a struct, as it was marshalled and after a conversion.\<close>

lemma field_plain:
  assumes "distinct (map to_lower ks)" and "map fst es = ks" and "k \<in> set ks"
  shows "field k es = the (map_of es k)"
proof -
  obtain v where v: "map_of es k = Some v" using assms(2,3) by (metis domD dom_map_of_conv_image_fst list.set_map)
  then show ?thesis using field_unique [of es k v] map_of_SomeD [OF v] assms(1,2) by simp
qed

lemma field_interface:
  assumes "distinct (map to_lower ks)" and "map fst es = ks" and "k \<in> set ks"
  shows "field k (interface_entries es) = as_interface (the (map_of es k))"
proof -
  let ?es = "map (apsnd as_interface) es"
  obtain v where v: "map_of es k = Some v" using assms(2,3) by (metis domD dom_map_of_conv_image_fst list.set_map)
  have d: "distinct (map to_lower (map fst ?es))" using assms(1,2) by simp
  then have "interface_entries es = sort_key fst ?es"
    by (simp only: interface_entries_def as_map_distinct [OF distinct_fst_if_lower])
  moreover have "distinct (map to_lower (map fst (sort_key fst xs)))"
    if "distinct (map to_lower (map fst xs))" for xs :: "(string \<times> json) list"
    using that by (simp add: distinct_map)
  note this [OF d]
  moreover have "(k, as_interface v) \<in> set (sort_key fst ?es)" using map_of_SomeD [OF v] by force
  ultimately show ?thesis using field_unique v by simp
qed

lemma insort_key_values:
  fixes xs :: "(string \<times> 'a) list"
  shows "insort_key fst (k, g v) (map (apsnd g) xs) = map (apsnd g) (insort_key fst (k, v) xs)"
  by (induction xs) auto

lemma sort_key_values:
  fixes xs :: "(string \<times> 'a) list"
  shows "sort_key fst (map (apsnd g) xs) = map (apsnd g) (sort_key fst xs)"
  by (induction xs) (auto simp: insort_key_values)

lemma zip_apsnd: "zip (map fst xs) (map f (map snd xs)) = map (apsnd f) xs"
  by (induction xs) auto

lemma sort_key_twice [simp]: "sort_key f (sort_key f xs) = sort_key f xs"
  by (simp add: sort_key_id_if_sorted)

section \<open>Types that travel\<close>

text \<open>
  \<^verbatim>\<open>convertParams\<close>, and the same steps on an answer in \<^verbatim>\<open>makeRPCCall\<close>: what was read into an
  \<^verbatim>\<open>interface{}\<close> is marshalled and read again, then decoded into the struct.
\<close>

definition convertParams :: "json \<Rightarrow> json option" where
  "convertParams params =
     (if exact params then Unmarshal (Marshal (as_interface params)) else None)"

text \<open>
  A type with its encoding. Values that \<open>fits\<close> arrive as \<open>norm\<close> makes them: unchanged, but that a map
  comes back in another order.
\<close>

locale codec =
  fixes encode :: "'a \<Rightarrow> json"
    and decode :: "json \<Rightarrow> 'a option"
    and norm :: "'a \<Rightarrow> 'a"
    and fits :: "'a \<Rightarrow> bool"
  assumes exact_encode: "fits x \<Longrightarrow> exact (encode x)"
    and decode_encode: "fits x \<Longrightarrow> decode (as_interface (encode x)) = Some (norm x)"
begin

lemma over_wire: "fits x \<Longrightarrow> Option.bind (convertParams (encode x)) decode = Some (norm x)"
  by (simp add: convertParams_def exact_encode Unmarshal_Marshal decode_encode)

lemma those_decode:
  "\<forall>x \<in> set xs. fits x \<Longrightarrow> those (map (\<lambda>x. decode (as_interface (encode x))) xs) = Some (map norm xs)"
  by (induction xs) (simp_all add: decode_encode)

lemma slice_codec:
  "codec (\<lambda>xs. JArr (map encode xs)) (to_slice decode) (map norm) (\<lambda>xs. \<forall>x \<in> set xs. fits x)"
  by unfold_locales (simp_all add: exact_encode those_decode comp_def)

lemma map_codec:
  "codec (from_map encode) (to_map decode) (\<lambda>m. sort_key fst (map (apsnd norm) m))
     (\<lambda>m. wf_map m \<and> (\<forall>e \<in> set m. fits (snd e)))"
proof
  fix m :: "(string \<times> 'a) list"
  assume m: "wf_map m \<and> (\<forall>e \<in> set m. fits (snd e))"
  then show "exact (from_map encode m)" by (auto simp: from_map_def exact_encode)
  let ?s = "sort_key fst m"
  have d: "distinct (map fst ?s)" using m by (simp add: wf_map_def distinct_map)
  then have d2: "distinct (map fst (map (apsnd g) ?s))" for g :: "'a \<Rightarrow> json" by simp
  have "map (apsnd as_interface) (map (apsnd encode) ?s) = map (apsnd (as_interface \<circ> encode)) ?s"
    by (simp add: apsnd_compose)
  then have "as_interface (from_map encode m) = JObj (map (apsnd (as_interface \<circ> encode)) ?s)"
    using as_map_distinct [OF d2] by (simp add: from_map_def as_interface_JObj interface_entries_def sort_key_values
        del: as_interface.simps map_map)
  moreover have "those (map (\<lambda>e. decode (as_interface (encode (snd e)))) ?s) = Some (map norm (map snd ?s))"
    using those_decode [of "map snd ?s"] m by (simp add: comp_def)
  moreover have "zip (map fst ?s) (map norm (map snd ?s)) = map (apsnd norm) ?s"
    by (rule zip_apsnd)
  ultimately show "to_map decode (as_interface (from_map encode m)) = Some (sort_key fst (map (apsnd norm) m))"
    using d fold_update_distinct [of "[]" "map (apsnd norm) ?s"]
    by (simp add: to_map_def comp_def sort_key_values)
qed

end

end
