(* ===== verification/Time_Text.thy ===== *)
theory Time_Text
  imports Go_Strings "HOL-Library.Monad_Syntax"
begin

text \<open>
  The text that \<^verbatim>\<open>time.Time\<close> has in JSON: RFC 3339 with up to nine digits of fraction,
  in the time zone of the machine, of which the model knows the offset in whole minutes.
\<close>

section \<open>The calendar\<close>

definition leap :: "nat \<Rightarrow> bool" where
  "leap y \<longleftrightarrow> 4 dvd y \<and> (\<not> 100 dvd y \<or> 400 dvd y)"

definition month_days :: "nat \<Rightarrow> nat list" where
  "month_days y = [31, if leap y then 29 else 28, 31, 30, 31, 30, 31, 31, 30, 31, 30, 31]"

definition year_days :: "nat \<Rightarrow> nat" where
  "year_days y = (if leap y then 366 else 365)"

text \<open>The year, and the day in it, of the \<open>d\<close>-th day after the first of January of year \<open>y\<close>.\<close>

function civil_year :: "nat \<Rightarrow> nat \<Rightarrow> nat \<times> nat" where
  "civil_year y d = (if d < year_days y then (y, d) else civil_year (Suc y) (d - year_days y))"
  by pat_completeness auto
termination by (relation "measure snd") (auto simp: year_days_def)

declare civil_year.simps [simp del]

fun civil_month :: "nat \<Rightarrow> nat \<Rightarrow> nat list \<Rightarrow> nat \<times> nat" where
  "civil_month m d [] = (m, d)"
| "civil_month m d (l # ls) = (if d < l then (m, d) else civil_month (Suc m) (d - l) ls)"

fun days_before :: "nat \<Rightarrow> nat" where
  "days_before 0 = 0"
| "days_before (Suc y) = days_before y + year_days y"

lemma civil_year_days:
  "civil_year y d = (y', d') \<Longrightarrow> y \<le> y' \<and> d' < year_days y' \<and> days_before y + d = days_before y' + d'"
proof (induction y d rule: civil_year.induct)
  case (1 y d)
  show ?case
  proof (cases "d < year_days y")
    case True
    then show ?thesis using "1.prems" by (simp add: civil_year.simps [of y])
  next
    case False
    then have "civil_year (Suc y) (d - year_days y) = (y', d')"
      using "1.prems" by (simp add: civil_year.simps [of y])
    from "1.IH" [OF False this] False show ?thesis by simp
  qed
qed

lemma civil_month_days:
  assumes "civil_month m d ls = (m', d')" and "d < sum_list ls"
  shows "m \<le> m' \<and> m' < m + length ls \<and> d' < ls ! (m' - m) \<and> sum_list (take (m' - m) ls) + d' = d"
  using assms
proof (induction m d ls arbitrary: m' d' rule: civil_month.induct)
  case (2 m d l ls)
  show ?case
  proof (cases "d < l")
    case False
    then have "Suc m \<le> m' \<and> m' < Suc m + length ls \<and> d' < ls ! (m' - Suc m) \<and>
        sum_list (take (m' - Suc m) ls) + d' = d - l"
      using 2 by simp
    moreover have "m' - m = Suc (m' - Suc m)" if "Suc m \<le> m'" using that by simp
    ultimately show ?thesis using False by auto
  qed (use 2 in simp)
qed simp

lemma sum_month_days: "sum_list (month_days y) = year_days y"
  by (simp add: month_days_def year_days_def)

lemma length_month_days [simp]: "length (month_days y) = 12"
  by (simp add: month_days_def)

lemma month_days_31: "i < 12 \<Longrightarrow> month_days y ! i \<le> 31"
proof -
  assume "i < 12"
  then have "month_days y ! i \<in> set (month_days y)" by simp
  then show ?thesis by (auto simp: month_days_def split: if_splits)
qed

section \<open>Numbers of a fixed width\<close>

definition pad :: "nat \<Rightarrow> nat \<Rightarrow> string" where
  "pad w n = replicate (w - length (digits n)) (CHR ''0'') @ digits n"

definition read_pad :: "nat \<Rightarrow> string \<Rightarrow> (nat \<times> string) option" where
  "read_pad w s = (if length s < w then None else map_option (\<lambda>n. (n, drop w s)) (parse_nat (take w s)))"

lemma length_digits: "n < 10 ^ w \<Longrightarrow> 0 < w \<Longrightarrow> length (digits n) \<le> w"
proof (induction n arbitrary: w rule: digits.induct)
  case (1 n)
  show ?case
  proof (cases "n < 10")
    case True
    then show ?thesis using "1.prems" by (simp add: digits.simps [of n])
  next
    case False
    then obtain v where w: "w = Suc v" "0 < v" using "1.prems" by (cases w; cases "w - 1") auto
    then have "n div 10 < 10 ^ v" using "1.prems" by (simp add: less_mult_imp_div_less mult.commute)
    from "1.IH" [OF False this w(2)] show ?thesis using False w by (simp add: digits.simps [of n])
  qed
qed

lemma length_pad: "n < 10 ^ w \<Longrightarrow> 0 < w \<Longrightarrow> length (pad w n) = w"
  using length_digits [of n w] by (simp add: pad_def)

lemma char_digit_0: "char_digit (CHR ''0'') = Some 0"
  by code_simp

lemma parse_nat_pad: "parse_nat (pad w n) = Some n"
proof -
  have "parse_digits 0 (replicate k (CHR ''0'')) = Some 0" for k
    by (induction k) (simp_all add: char_digit_0)
  then show ?thesis
    by (simp add: pad_def parse_nat_def digits_nonempty parse_digits_append parse_digits_digits)
qed

lemma read_pad_pad [simp]: "n < 10 ^ w \<Longrightarrow> 0 < w \<Longrightarrow> read_pad w (pad w n @ r) = Some (n, r)"
  by (simp add: read_pad_def length_pad parse_nat_pad)

lemma pad_digits: "c \<in> set (pad w n) \<Longrightarrow> char_digit c \<noteq> None"
  using digits_all char_digit_0 by (auto simp: pad_def split: if_splits)

section \<open>The text of an instant\<close>

definition fraction_text :: "nat \<Rightarrow> string" where
  "fraction_text ns =
     (if ns = 0 then [] else CHR ''.'' # rev (dropWhile (\<lambda>c. c = CHR ''0'') (rev (pad 9 ns))))"

definition zone_text :: "int \<Rightarrow> string" where
  "zone_text zone =
     (if zone = 0 then ''Z''
      else (if zone < 0 then CHR ''-'' else CHR ''+'') # pad 2 (nat \<bar>zone\<bar> div 60) @ '':'' @ pad 2 (nat \<bar>zone\<bar> mod 60))"

text \<open>Nanoseconds from the first of January of year 0 to the Unix epoch, and of a minute.\<close>

definition epoch :: int where
  "epoch = 62167219200 * 1000000000"

definition minute :: int where
  "minute = 60 * 1000000000"

definition time_text :: "int \<Rightarrow> instant \<Rightarrow> string" where
  "time_text zone t =
     (let l = t + zone * minute + epoch;
          days = nat (l div 86400000000000);
          s = nat (l div 1000000000 mod 86400);
          (y, yd) = civil_year 0 days;
          (m, md) = civil_month 1 yd (month_days y)
      in pad 4 y @ ''-'' @ pad 2 m @ ''-'' @ pad 2 (md + 1) @ ''T'' @
         pad 2 (s div 3600) @ '':'' @ pad 2 (s div 60 mod 60) @ '':'' @ pad 2 (s mod 60) @
         fraction_text (nat (l mod 1000000000)) @ zone_text zone)"

definition expect :: "char \<Rightarrow> string \<Rightarrow> string option" where
  "expect c s = (case s of x # xs \<Rightarrow> if x = c then Some xs else None | [] \<Rightarrow> None)"

definition read_fraction :: "string \<Rightarrow> (nat \<times> string) option" where
  "read_fraction s =
     (case s of
        [] \<Rightarrow> Some (0, s)
      | c # r \<Rightarrow>
          if c \<noteq> CHR ''.'' then Some (0, s)
          else
            let ds = takeWhile (\<lambda>c. char_digit c \<noteq> None) r
            in if ds = [] then None
               else map_option (\<lambda>n. (n, drop (length ds) r)) (parse_nat (take 9 (ds @ replicate 9 (CHR ''0'')))))"

definition read_zone :: "string \<Rightarrow> int option" where
  "read_zone s =
     (case s of
        [] \<Rightarrow> None
      | c # r \<Rightarrow>
          if c = CHR ''Z'' then (if r = [] then Some 0 else None)
          else if c \<noteq> CHR ''+'' \<and> c \<noteq> CHR ''-'' then None
          else do {
            (h, r) \<leftarrow> read_pad 2 r;
            r \<leftarrow> expect (CHR '':'') r;
            (m, r) \<leftarrow> read_pad 2 r;
            if r \<noteq> [] \<or> 24 \<le> h \<or> 60 \<le> m then None
            else Some ((if c = CHR ''-'' then - 1 else 1) * int (60 * h + m))
          })"

text \<open>\<open>None\<close>: the text is no time, or names a day or an hour that does not exist.\<close>

definition read_time :: "string \<Rightarrow> instant option" where
  "read_time txt = do {
     (y, r) \<leftarrow> read_pad 4 txt; r \<leftarrow> expect (CHR ''-'') r;
     (m, r) \<leftarrow> read_pad 2 r; r \<leftarrow> expect (CHR ''-'') r;
     (d, r) \<leftarrow> read_pad 2 r; r \<leftarrow> expect (CHR ''T'') r;
     (h, r) \<leftarrow> read_pad 2 r; r \<leftarrow> expect (CHR '':'') r;
     (mi, r) \<leftarrow> read_pad 2 r; r \<leftarrow> expect (CHR '':'') r;
     (s, r) \<leftarrow> read_pad 2 r;
     (ns, r) \<leftarrow> read_fraction r;
     zone \<leftarrow> read_zone r;
     if m < 1 \<or> 12 < m \<or> d < 1 \<or> month_days y ! (m - 1) < d \<or> 24 \<le> h \<or> 60 \<le> mi \<or> 60 \<le> s then None
     else
       let days = days_before y + sum_list (take (m - 1) (month_days y)) + (d - 1)
       in Some ((86400 * int days + int (3600 * h + 60 * mi + s)) * 1000000000 + int ns - epoch - zone * minute)
   }"

section \<open>A time is read back\<close>

text \<open>The years 0 to 9999, which \<^verbatim>\<open>MarshalJSON\<close> accepts, and zones of less than a day.\<close>

definition time_fits :: "int \<Rightarrow> instant \<Rightarrow> bool" where
  "time_fits zone t \<longleftrightarrow> \<bar>zone\<bar> < 1440 \<and> 0 \<le> t + zone * minute + epoch \<and>
     fst (civil_year 0 (nat ((t + zone * minute + epoch) div 86400000000000))) < 10000"

lemma expect_Cons [simp]: "expect c (c # r) = Some r"
  by (simp add: expect_def)

lemma read_zone_text: "\<bar>zone\<bar> < 1440 \<Longrightarrow> read_zone (zone_text zone) = Some zone"
proof -
  assume "\<bar>zone\<bar> < 1440"
  then have "nat \<bar>zone\<bar> div 60 < 24" "nat \<bar>zone\<bar> mod 60 < 60" by auto
  moreover have "int (60 * (nat \<bar>zone\<bar> div 60) + nat \<bar>zone\<bar> mod 60) = \<bar>zone\<bar>" by simp
  ultimately show ?thesis
    using read_pad_pad [of "nat \<bar>zone\<bar> mod 60" 2 "[]"] by (auto simp: read_zone_def zone_text_def)
qed

lemma zone_text_Cons: "\<exists>c r. zone_text zone = c # r \<and> char_digit c = None \<and> c \<noteq> CHR ''.''"
proof -
  have "char_digit (CHR ''Z'') = None" "char_digit (CHR ''+'') = None" "char_digit (CHR ''-'') = None" by code_simp+
  then show ?thesis by (auto simp: zone_text_def)
qed

lemma strip_zeros:
  "\<exists>k. s = rev (dropWhile (\<lambda>c. c = x) (rev s)) @ replicate k x"
proof -
  have "rev s = takeWhile (\<lambda>c. c = x) (rev s) @ dropWhile (\<lambda>c. c = x) (rev s)" by simp
  moreover have "takeWhile (\<lambda>c. c = x) (rev s) = replicate (length (takeWhile (\<lambda>c. c = x) (rev s))) x"
    by (rule replicate_length_same [symmetric]) (auto dest: set_takeWhileD)
  ultimately show ?thesis by (metis rev_append rev_replicate rev_rev_ident)
qed

lemma read_fraction_digits:
  assumes "\<forall>c \<in> set ds. char_digit c \<noteq> None" and "length ds + k = 9" and "ds \<noteq> []"
    and "parse_nat (ds @ replicate k (CHR ''0'')) = Some n"
  shows "read_fraction (CHR ''.'' # ds @ zone_text zone) = Some (n, zone_text zone)"
proof -
  obtain c r where z: "zone_text zone = c # r" "char_digit c = None" using zone_text_Cons by blast
  then have "takeWhile (\<lambda>c. char_digit c \<noteq> None) (ds @ zone_text zone) = ds"
    using assms(1) by (simp add: takeWhile_append2)
  moreover have "9 - length ds = k" using assms(2) by simp
  then have "take 9 (ds @ replicate 9 (CHR ''0'')) = ds @ replicate k (CHR ''0'')"
    using assms(2) by (simp add: take_replicate)
  ultimately show ?thesis using assms(3,4) by (simp add: read_fraction_def Let_def)
qed

lemma read_fraction_text:
  assumes "ns < 1000000000"
  shows "read_fraction (fraction_text ns @ zone_text zone) = Some (ns, zone_text zone)"
proof (cases "ns = 0")
  case True
  then show ?thesis
    using zone_text_Cons [of zone] by (auto simp: fraction_text_def read_fraction_def)
next
  case False
  define p ds where "p = pad 9 ns" and "ds = rev (dropWhile (\<lambda>c. c = CHR ''0'') (rev p))"
  obtain k where k: "p = ds @ replicate k (CHR ''0'')" using strip_zeros [of p] by (auto simp: ds_def)
  have len: "length p = 9" using assms by (simp add: length_pad p_def)
  have "ds \<noteq> []"
  proof
    assume "ds = []"
    moreover have "pad 9 0 = replicate 9 (CHR ''0'')" by code_simp
    ultimately have "p = pad 9 0" using k len by simp
    then show False using parse_nat_pad [of 9 ns] parse_nat_pad [of 9 0] False by (simp add: p_def)
  qed
  moreover have "\<forall>c \<in> set ds. char_digit c \<noteq> None" using pad_digits [of _ 9 ns] k by (auto simp: p_def [symmetric])
  moreover have "length ds + k = 9" using len k by simp
  moreover have "parse_nat (ds @ replicate k (CHR ''0'')) = Some ns" using parse_nat_pad [of 9 ns] k by (simp add: p_def)
  ultimately have "read_fraction (CHR ''.'' # ds @ zone_text zone) = Some (ns, zone_text zone)"
    by (intro read_fraction_digits)
  then show ?thesis using False by (simp add: fraction_text_def ds_def p_def)
qed

lemma read_time_parts:
  assumes "y < 10000" "1 \<le> m" "m \<le> 12" "1 \<le> d" "d \<le> month_days y ! (m - 1)" "h < 24" "mi < 60" "s < 60"
    and "ns < 1000000000" "\<bar>zone\<bar> < 1440"
  shows "read_time (pad 4 y @ CHR ''-'' # pad 2 m @ CHR ''-'' # pad 2 d @ CHR ''T'' # pad 2 h @ CHR '':'' #
      pad 2 mi @ CHR '':'' # pad 2 s @ fraction_text ns @ zone_text zone) =
    Some ((86400 * int (days_before y + sum_list (take (m - 1) (month_days y)) + (d - 1)) + int (3600 * h + 60 * mi + s))
      * 1000000000 + int ns - epoch - zone * minute)"
proof -
  have d: "d < 100" using month_days_31 [of "m - 1" y] assms(2,3,5) by linarith
  have "\<not> m < 1" "\<not> 12 < m" "\<not> d < 1" "\<not> month_days y ! (m - 1) < d" "\<not> 24 \<le> h" "\<not> 60 \<le> mi" "\<not> 60 \<le> s"
    using assms by simp_all
  then show ?thesis
    using assms(1,3,6-8) d
    by (simp only: read_time_def read_pad_pad expect_Cons read_fraction_text [OF assms(9)] read_zone_text [OF assms(10)]
        bind.bind_lunit prod.case Let_def if_False simp_thms)
      (simp add: read_fraction_text [OF assms(9)] read_zone_text [OF assms(10)])
qed

lemma parts_of_instant:
  fixes l :: int
  assumes "0 \<le> l"
  defines "s \<equiv> nat (l div 1000000000 mod 86400)"
  shows "(86400 * (l div 86400000000000) + int (3600 * (s div 3600) + 60 * (s div 60 mod 60) + s mod 60)) * 1000000000 +
    int (nat (l mod 1000000000)) = l"
proof -
  have "s mod (60 * 60) = 60 * (s div 60 mod 60) + s mod 60" by (rule mod_mult2_eq)
  then have m: "s mod 3600 = 60 * (s div 60 mod 60) + s mod 60"
    by (simp only: numeral_times_numeral mult_num_simps arith_simps)
  have "3600 * (s div 3600) + s mod 3600 = s" by (rule mult_div_mod_eq)
  then have "3600 * (s div 3600) + 60 * (s div 60 mod 60) + s mod 60 = s"
    unfolding m by (simp only: add.assoc)
  then have "int (3600 * (s div 3600) + 60 * (s div 60 mod 60) + s mod 60) = l div 1000000000 mod 86400"
    using s_def by (metis nat_0_le Euclidean_Rings.pos_mod_sign zero_less_numeral)
  moreover have "l div 86400000000000 = l div 1000000000 div 86400"
    using zdiv_zmult2_eq [of 86400 l 1000000000] by (simp only: mult_num_simps numeral_times_numeral zero_le_numeral)
  then have "86400 * (l div 86400000000000) + l div 1000000000 mod 86400 = l div 1000000000"
    by (metis mult_div_mod_eq)
  moreover have "int (nat (l mod 1000000000)) = l mod 1000000000" by simp
  ultimately show ?thesis by (metis div_mult_mod_eq)
qed

lemma read_time_text:
  assumes "time_fits zone t"
  shows "read_time (time_text zone t) = Some t"
proof -
  define l where "l = t + zone * minute + epoch"
  define s where "s = nat (l div 1000000000 mod 86400)"
  define days where "days = nat (l div 86400000000000)"
  obtain y yd where y: "civil_year 0 days = (y, yd)" by fastforce
  obtain m md where m: "civil_month 1 yd (month_days y) = (m, md)" by fastforce
  have z: "\<bar>zone\<bar> < 1440" "0 \<le> l" "y < 10000"
    using assms y by (simp_all add: time_fits_def l_def days_def)
  have yd: "yd < year_days y" "days_before y + yd = days"
    using civil_year_days [OF y] by simp_all
  have md: "1 \<le> m" "m \<le> 12" "md + 1 \<le> month_days y ! (m - 1)" "sum_list (take (m - 1) (month_days y)) + md = yd"
    using civil_month_days [OF m] yd(1) by (simp_all add: sum_month_days)
  have days: "int (days_before y + sum_list (take (m - 1) (month_days y)) + (md + 1 - 1)) = l div 86400000000000"
    using yd md z(2) by (simp add: days_def)
  have written: "time_text zone t = pad 4 y @ CHR ''-'' # pad 2 m @ CHR ''-'' # pad 2 (md + 1) @ CHR ''T'' #
      pad 2 (s div 3600) @ CHR '':'' # pad 2 (s div 60 mod 60) @ CHR '':'' # pad 2 (s mod 60) @
      fraction_text (nat (l mod 1000000000)) @ zone_text zone"
    using y m by (simp only: time_text_def Let_def prod.case l_def [symmetric] s_def [symmetric] days_def [symmetric]
        append_Cons append_Nil)
  have "s < 86400" "nat (l mod 1000000000) < 1000000000"
    by (simp_all add: s_def nat_less_iff)
  moreover from this(1) have "s div 3600 < 24" by (simp add: less_mult_imp_div_less)
  moreover have "s div 60 mod 60 < 60" "s mod 60 < 60" by (rule mod_less_divisor, simp)+
  moreover have "1 \<le> md + 1" by simp
  ultimately have "read_time (time_text zone t) =
      Some ((86400 * int (days_before y + sum_list (take (m - 1) (month_days y)) + (md + 1 - 1)) +
        int (3600 * (s div 3600) + 60 * (s div 60 mod 60) + s mod 60)) * 1000000000 +
        int (nat (l mod 1000000000)) - epoch - zone * minute)"
    unfolding written by (intro read_time_parts z md)
  then show ?thesis
    unfolding days parts_of_instant [OF z(2), folded s_def] by (simp add: l_def)
qed

end
