(* ===== verification/Wire_Format.thy ===== *)
theory Wire_Format
  imports System Codec Time_Text
begin

text \<open>
  The JSON form of the messages of \<^verbatim>\<open>src/rpc_types.go\<close>, of
  \<^verbatim>\<open>Member\<close> and of the file metadata, and how it is read. An empty list is written
  as \<open>[]\<close>; where the source has a nil slice it writes \<open>null\<close>, which is read as the same.
\<close>

section \<open>Appends and files\<close>

definition append_json :: "AppendInfo \<Rightarrow> json" where
  "append_json a = JObj
     [(''FileName'', JStr (AppFileName a)), (''AppendID'', JStr (AppendID a)), (''ClientID'', JStr (ClientID a)),
      (''ClientTimestamp'', JStr (ClientTimestamp a)), (''AppendHash'', JStr (AppendHash a)),
      (''Size'', JNum (Size a))]"

definition read_append :: "json \<Rightarrow> AppendInfo option" where
  "read_append = struct (\<lambda>es. do {
     f \<leftarrow> to_string (field ''FileName'' es); i \<leftarrow> to_string (field ''AppendID'' es);
     c \<leftarrow> to_string (field ''ClientID'' es); t \<leftarrow> to_string (field ''ClientTimestamp'' es);
     h \<leftarrow> to_string (field ''AppendHash'' es); n \<leftarrow> to_int64 (field ''Size'' es);
     Some \<lparr>AppFileName = f, AppendID = i, ClientID = c, ClientTimestamp = t, AppendHash = h, Size = n\<rparr> })"

lemma append_keys: "distinct (map to_lower
    [''FileName'', ''AppendID'', ''ClientID'', ''ClientTimestamp'', ''AppendHash'', ''Size''])"
  by code_simp

interpretation append_wire: codec append_json read_append id "\<lambda>a. \<bar>Size a\<bar> \<le> 2 ^ 53"
proof
  fix a :: AppendInfo
  assume a: "\<bar>Size a\<bar> \<le> 2 ^ 53"
  then show "exact (append_json a)" by (simp add: append_json_def)
  show "read_append (as_interface (append_json a)) = Some (id a)"
    using a by (simp add: append_json_def read_append_def as_interface_JObj field_interface [OF append_keys]
        del: as_interface.simps(2))
qed

interpretation appends_wire: codec "\<lambda>as. JArr (map append_json as)" "to_slice read_append" "map id"
    "\<lambda>as. \<forall>a \<in> set as. \<bar>Size a\<bar> \<le> 2 ^ 53"
  by (rule append_wire.slice_codec)

text \<open>\<^verbatim>\<open>MarshalJSON\<close> and \<^verbatim>\<open>UnmarshalJSON\<close> go through a struct whose hash is a string.\<close>

definition file_json :: "FileMetadata \<Rightarrow> json" where
  "file_json fm = (let aux = MarshalJSON fm in JObj
     [(''file_name'', JStr (file_name aux)), (''file_content_hash'', JStr (file_content_hash aux)),
      (''file_name_hash'', JStr (file_name_hash aux)), (''creation_time'', JStr (creation_time aux)),
      (''appends'', JArr (map append_json (appends aux)))])"

definition read_file :: "json \<Rightarrow> FileMetadata option" where
  "read_file j = do {
     aux \<leftarrow> struct (\<lambda>es. do {
       n \<leftarrow> to_string (field ''file_name'' es); c \<leftarrow> to_string (field ''file_content_hash'' es);
       h \<leftarrow> to_string (field ''file_name_hash'' es); t \<leftarrow> to_string (field ''creation_time'' es);
       as \<leftarrow> to_slice read_append (field ''appends'' es);
       Some \<lparr>file_name = n, file_content_hash = c, file_name_hash = h, creation_time = t, appends = as\<rparr> }) j;
     UnmarshalJSON aux }"

definition file_fits :: "FileMetadata \<Rightarrow> bool" where
  "file_fits fm \<longleftrightarrow> (\<forall>a \<in> set (Appends fm). \<bar>Size a\<bar> \<le> 2 ^ 53)"

lemma file_keys: "distinct (map to_lower
    [''file_name'', ''file_content_hash'', ''file_name_hash'', ''creation_time'', ''appends''])"
  by code_simp

interpretation file_wire: codec file_json read_file id file_fits
proof
  fix fm :: FileMetadata
  assume fm: "file_fits fm"
  then show "exact (file_json fm)"
    using appends_wire.exact_encode by (simp add: file_json_def file_fits_def Let_def MarshalJSON_def)
  show "read_file (as_interface (file_json fm)) = Some (id fm)"
    using fm appends_wire.decode_encode [of "Appends fm"]
    by (simp add: file_json_def read_file_def Let_def as_interface_JObj field_interface [OF file_keys]
        MarshalJSON_def UnmarshalJSON_def parse_int_itoa file_fits_def del: as_interface.simps(1,2))
qed

interpretation files_wire: codec "from_map file_json" "to_map read_file" "\<lambda>m. sort_key fst (map (apsnd id) m)"
    "\<lambda>m. wf_map m \<and> (\<forall>e \<in> set m. file_fits (snd e))"
  by (rule file_wire.map_codec)

section \<open>Members\<close>

definition status_text :: "Status \<Rightarrow> string" where
  "status_text st = (case st of StatusAlive \<Rightarrow> ''alive'' | StatusSuspect \<Rightarrow> ''suspect'' | StatusDead \<Rightarrow> ''dead''
     | StatusVoluntaryLeave \<Rightarrow> ''voluntary_leave'' | StatusOther s \<Rightarrow> s)"

definition read_status :: "string \<Rightarrow> Status" where
  "read_status s =
     (if s = ''alive'' then StatusAlive else if s = ''suspect'' then StatusSuspect
      else if s = ''dead'' then StatusDead else if s = ''voluntary_leave'' then StatusVoluntaryLeave
      else StatusOther s)"

definition to_time :: "json \<Rightarrow> instant option" where
  "to_time j = (case j of JStr s \<Rightarrow> read_time s | JNull \<Rightarrow> Some zero_time | _ \<Rightarrow> None)"

text \<open>\<open>zone\<close> is the offset of local time, in minutes.\<close>

definition member_json :: "(instant \<Rightarrow> int) \<Rightarrow> Member \<Rightarrow> json" where
  "member_json zone m = JObj
     [(''Address'', JStr (Address m)),
      (''NodeCreationTimestamp'', JStr (time_text (zone (NodeCreationTimestamp m)) (NodeCreationTimestamp m))),
      (''Status'', JStr (status_text (Status m))), (''Heartbeat'', JNum (uint (Heartbeat m))),
      (''Incarnation'', JNum (uint (Incarnation m))),
      (''LastUpdated'', JStr (time_text (zone (LastUpdated m)) (LastUpdated m))), (''Hash'', JNum (Hash m))]"

definition read_member :: "json \<Rightarrow> Member option" where
  "read_member = struct (\<lambda>es. do {
     a \<leftarrow> to_string (field ''Address'' es); t \<leftarrow> to_time (field ''NodeCreationTimestamp'' es);
     st \<leftarrow> to_string (field ''Status'' es); hb \<leftarrow> to_uint64 (field ''Heartbeat'' es);
     inc \<leftarrow> to_uint64 (field ''Incarnation'' es); u \<leftarrow> to_time (field ''LastUpdated'' es);
     h \<leftarrow> to_big (field ''Hash'' es);
     Some \<lparr>Address = a, NodeCreationTimestamp = t, Status = read_status st, Heartbeat = hb, Incarnation = inc,
       LastUpdated = u, Hash = h\<rparr> })"

definition member_fits :: "(instant \<Rightarrow> int) \<Rightarrow> Member \<Rightarrow> bool" where
  "member_fits zone m \<longleftrightarrow> read_status (status_text (Status m)) = Status m \<and>
     time_fits (zone (NodeCreationTimestamp m)) (NodeCreationTimestamp m) \<and>
     time_fits (zone (LastUpdated m)) (LastUpdated m) \<and>
     uint (Heartbeat m) \<le> 2 ^ 53 \<and> uint (Incarnation m) \<le> 2 ^ 53 \<and> \<bar>Hash m\<bar> \<le> 2 ^ 53"

lemma member_keys: "distinct (map to_lower
    [''Address'', ''NodeCreationTimestamp'', ''Status'', ''Heartbeat'', ''Incarnation'', ''LastUpdated'', ''Hash''])"
  by code_simp

interpretation member_wire: codec "member_json zone" read_member id "member_fits zone" for zone
proof
  fix m :: Member
  assume m: "member_fits zone m"
  then show "exact (member_json zone m)" by (simp add: member_json_def member_fits_def)
  show "read_member (as_interface (member_json zone m)) = Some (id m)"
    using m by (simp add: member_json_def read_member_def as_interface_JObj field_interface [OF member_keys]
        member_fits_def to_time_def read_time_text del: as_interface.simps(1,2))
qed

interpretation members_wire: codec "\<lambda>ms. JArr (map (member_json zone) ms)" "to_slice read_member" "map id"
    "\<lambda>ms. \<forall>m \<in> set ms. member_fits zone m" for zone
  by (rule member_wire.slice_codec)

section \<open>Requests\<close>

definition protocol_text :: "ProtocolType \<Rightarrow> string" where
  "protocol_text p = (case p of GossipProtocol \<Rightarrow> ''gossip'' | PingAckProtocol \<Rightarrow> ''ping'' | ProtocolOther s \<Rightarrow> s)"

definition read_protocol :: "string \<Rightarrow> ProtocolType" where
  "read_protocol s = (case map_of ProtocolMap s of None \<Rightarrow> ProtocolOther s | Some p \<Rightarrow> p)"

definition suspicion_text :: "SuspicionType \<Rightarrow> string" where
  "suspicion_text x = (case x of Suspect \<Rightarrow> ''suspect'' | NoSuspect \<Rightarrow> ''nosuspect'' | SuspicionOther s \<Rightarrow> s)"

definition read_suspicion :: "string \<Rightarrow> SuspicionType" where
  "read_suspicion s = (case map_of SuspicionMap s of None \<Rightarrow> SuspicionOther s | Some x \<Rightarrow> x)"

definition method_name :: "RpcRequest \<Rightarrow> string" where
  "method_name req =
     (case req of
        JoinReq _ \<Rightarrow> ''Join'' | GossipReq _ _ \<Rightarrow> ''Gossip'' | PingReq _ _ \<Rightarrow> ''Ping''
      | ProtocolSwitchReq _ _ \<Rightarrow> ''ProtocolSwitch'' | GetFilesMetadataReq _ _ \<Rightarrow> ''GetFilesMetadata''
      | GetFileMetadataReq _ \<Rightarrow> ''GetFileMetadata'' | MultiAppendReq _ _ \<Rightarrow> ''MultiAppend''
      | UpdateAppendOrderReq _ _ \<Rightarrow> ''UpdateAppendOrder'' | MergeReq _ \<Rightarrow> ''Merge''
      | ExecuteCommandReq _ \<Rightarrow> ''ExecuteCommand'' | InvalidRequest \<Rightarrow> '''')"

text \<open>The fields of the request structs. The bounds of a key range travel under the names of other requests.\<close>

definition params_entries :: "(instant \<Rightarrow> int) \<Rightarrow> string \<Rightarrow> RpcRequest \<Rightarrow> (string \<times> json) list" where
  "params_entries zone self req =
     (case req of
        JoinReq m \<Rightarrow> [(''member'', member_json zone m)]
      | GossipReq sender ms \<Rightarrow> [(''sender_address'', JStr sender), (''membership_list'', JArr (map (member_json zone) ms))]
      | PingReq sender ms \<Rightarrow> [(''sender_address'', JStr sender), (''membership_list'', JArr (map (member_json zone) ms))]
      | ProtocolSwitchReq p x \<Rightarrow> [(''sender_address'', JStr self), (''protocol'', JStr (protocol_text p)),
          (''suspicion'', JStr (suspicion_text x))]
      | GetFilesMetadataReq a b \<Rightarrow> [(''sender_address'', JNum a), (''protocol'', JNum b)]
      | GetFileMetadataReq f \<Rightarrow> [(''Filename'', JStr f)]
      | MultiAppendReq f l \<Rightarrow> [(''hydfs_filename'', JStr f), (''local_filename'', JStr l)]
      | UpdateAppendOrderReq f as \<Rightarrow> [(''file_name'', JStr f), (''appends'', JArr (map append_json as))]
      | MergeReq f \<Rightarrow> [(''hydfs_filename'', JStr f)]
      | ExecuteCommandReq cmd \<Rightarrow> [(''Command'', JStr cmd)]
      | InvalidRequest \<Rightarrow> [])"

definition read_params :: "string \<Rightarrow> json \<Rightarrow> RpcRequest option" where
  "read_params meth = struct (\<lambda>es.
     if meth = ''Join'' then map_option JoinReq (read_member (field ''member'' es))
     else if meth = ''Gossip'' \<or> meth = ''Ping'' then do {
       s \<leftarrow> to_string (field ''sender_address'' es);
       ms \<leftarrow> to_slice read_member (field ''membership_list'' es);
       Some ((if meth = ''Gossip'' then GossipReq else PingReq) s ms) }
     else if meth = ''ProtocolSwitch'' then do {
       s \<leftarrow> to_string (field ''sender_address'' es);
       p \<leftarrow> to_string (field ''protocol'' es); x \<leftarrow> to_string (field ''suspicion'' es);
       Some (ProtocolSwitchReq (read_protocol p) (read_suspicion x)) }
     else if meth = ''GetFilesMetadata'' then do {
       a \<leftarrow> to_big (field ''sender_address'' es); b \<leftarrow> to_big (field ''protocol'' es);
       Some (GetFilesMetadataReq a b) }
     else if meth = ''GetFileMetadata'' then map_option GetFileMetadataReq (to_string (field ''Filename'' es))
     else if meth = ''MultiAppend'' then do {
       f \<leftarrow> to_string (field ''hydfs_filename'' es); l \<leftarrow> to_string (field ''local_filename'' es);
       Some (MultiAppendReq f l) }
     else if meth = ''UpdateAppendOrder'' then do {
       f \<leftarrow> to_string (field ''file_name'' es); as \<leftarrow> to_slice read_append (field ''appends'' es);
       Some (UpdateAppendOrderReq f as) }
     else if meth = ''Merge'' then map_option MergeReq (to_string (field ''hydfs_filename'' es))
     else if meth = ''ExecuteCommand'' then map_option ExecuteCommandReq (to_string (field ''Command'' es))
     else None)"

definition request_fits :: "(instant \<Rightarrow> int) \<Rightarrow> RpcRequest \<Rightarrow> bool" where
  "request_fits zone req =
     (case req of
        JoinReq m \<Rightarrow> member_fits zone m
      | GossipReq _ ms \<Rightarrow> (\<forall>m \<in> set ms. member_fits zone m)
      | PingReq _ ms \<Rightarrow> (\<forall>m \<in> set ms. member_fits zone m)
      | ProtocolSwitchReq p x \<Rightarrow>
          read_protocol (protocol_text p) = p \<and> read_suspicion (suspicion_text x) = x
      | GetFilesMetadataReq a b \<Rightarrow> \<bar>a\<bar> \<le> 2 ^ 53 \<and> \<bar>b\<bar> \<le> 2 ^ 53
      | UpdateAppendOrderReq _ as \<Rightarrow> (\<forall>a \<in> set as. \<bar>Size a\<bar> \<le> 2 ^ 53)
      | InvalidRequest \<Rightarrow> False
      | _ \<Rightarrow> True)"

lemma params_keys:
  "distinct (map to_lower [''member''])"
  "distinct (map to_lower [''sender_address'', ''membership_list''])"
  "distinct (map to_lower [''sender_address'', ''protocol'', ''suspicion''])"
  "distinct (map to_lower [''sender_address'', ''protocol''])"
  "distinct (map to_lower [''Filename''])"
  "distinct (map to_lower [''hydfs_filename'', ''local_filename''])"
  "distinct (map to_lower [''file_name'', ''appends''])"
  "distinct (map to_lower [''hydfs_filename''])"
  "distinct (map to_lower [''Command''])"
  by code_simp+

interpretation request_wire: codec "\<lambda>req. JObj (params_entries zone self req)" "read_params meth" id
    "\<lambda>req. method_name req = meth \<and> request_fits zone req" for zone self meth
proof
  fix req
  assume req: "method_name req = meth \<and> request_fits zone req"
  show "exact (JObj (params_entries zone self req))"
    using req members_wire.exact_encode [of _ zone] appends_wire.exact_encode member_wire.exact_encode [of zone]
    by (cases req) (auto simp: params_entries_def request_fits_def)
  show "read_params meth (as_interface (JObj (params_entries zone self req))) = Some (id req)"
    using req [THEN conjunct2] unfolding req [THEN conjunct1, symmetric]
    by (cases req) (simp_all add: params_entries_def request_fits_def method_name_def read_params_def
        as_interface_JObj params_keys [THEN field_interface] member_wire.decode_encode members_wire.decode_encode
        appends_wire.decode_encode del: as_interface.simps(1,2))
qed

section \<open>Answers\<close>

text \<open>Both metadata answers have the shape of \<^verbatim>\<open>GetFileMetadataResponse\<close>.\<close>

definition metadata_entries :: "bool \<Rightarrow> FileMetadata go_map \<Rightarrow> (string \<times> json) list" where
  "metadata_entries b files =
     [(''success'', JBool b), (''Metadata'', JObj [(''Files'', from_map file_json files)])]"

definition result_entries :: "(instant \<Rightarrow> int) \<Rightarrow> string \<Rightarrow> string \<Rightarrow> RpcResponse \<Rightarrow> (string \<times> json) list" where
  "result_entries zone meth msg resp =
     (case resp of
        JoinResp r \<Rightarrow> [(''success'', JBool (JoinSuccess r)), (''message'', JStr msg),
          (''membership_list'', JArr (map (member_json zone) (JoinMembershipList r))),
          (''protocol_type'', JStr (protocol_text (JoinProtocol r))),
          (''suspicion_type'', JStr (suspicion_text (JoinSuspicion r))), (''introducer_id'', JStr (JoinIntroducerID r))]
      | GossipResp b \<Rightarrow> [(''success'', JBool b)]
      | PingResp sender ms \<Rightarrow>
          [(''sender_address'', JStr sender), (''membership_list'', JArr (map (member_json zone) ms))]
      | SwitchResp b \<Rightarrow> [(''success'', JBool b)]
      | FilesResp files \<Rightarrow> metadata_entries True files
      | FileResp b files \<Rightarrow> metadata_entries b files
      | DoneResp b \<Rightarrow>
          (if meth = ''ExecuteCommand'' then [(''Success'', JBool b), (''Message'', JStr msg)]
           else [(''success'', JBool b), (''message'', JStr msg)])
      | ErrorResp \<Rightarrow> [])"

definition read_metadata :: "(string \<times> json) list \<Rightarrow> (bool \<times> FileMetadata go_map) option" where
  "read_metadata es = do {
     b \<leftarrow> to_bool (field ''success'' es);
     files \<leftarrow> struct (\<lambda>es. to_map read_file (field ''Files'' es)) (field ''Metadata'' es);
     Some (b, files) }"

definition read_result :: "string \<Rightarrow> json \<Rightarrow> RpcResponse option" where
  "read_result meth = struct (\<lambda>es.
     if meth = ''Join'' then do {
       b \<leftarrow> to_bool (field ''success'' es); msg \<leftarrow> to_string (field ''message'' es);
       ms \<leftarrow> to_slice read_member (field ''membership_list'' es);
       p \<leftarrow> to_string (field ''protocol_type'' es); x \<leftarrow> to_string (field ''suspicion_type'' es);
       i \<leftarrow> to_string (field ''introducer_id'' es);
       Some (JoinResp \<lparr>JoinSuccess = b, JoinMembershipList = ms, JoinProtocol = read_protocol p,
         JoinSuspicion = read_suspicion x, JoinIntroducerID = i\<rparr>) }
     else if meth = ''Gossip'' then map_option GossipResp (to_bool (field ''success'' es))
     else if meth = ''Ping'' then do {
       s \<leftarrow> to_string (field ''sender_address'' es);
       ms \<leftarrow> to_slice read_member (field ''membership_list'' es);
       Some (PingResp s ms) }
     else if meth = ''ProtocolSwitch'' then map_option SwitchResp (to_bool (field ''success'' es))
     else if meth = ''GetFilesMetadata'' then map_option (\<lambda>(b, files). FilesResp files) (read_metadata es)
     else if meth = ''GetFileMetadata'' then map_option (\<lambda>(b, files). FileResp b files) (read_metadata es)
     else do {
       b \<leftarrow> to_bool (field ''success'' es); msg \<leftarrow> to_string (field ''message'' es);
       Some (DoneResp b) })"

text \<open>Which answers a request has, which of them travel, and that a map of files comes back in order.\<close>

definition answers :: "RpcResponse \<Rightarrow> string \<Rightarrow> bool" where
  "answers resp meth =
     (case resp of
        JoinResp _ \<Rightarrow> meth = ''Join'' | GossipResp _ \<Rightarrow> meth = ''Gossip'' | PingResp _ _ \<Rightarrow> meth = ''Ping''
      | SwitchResp _ \<Rightarrow> meth = ''ProtocolSwitch'' | FilesResp _ \<Rightarrow> meth = ''GetFilesMetadata''
      | FileResp _ _ \<Rightarrow> meth = ''GetFileMetadata''
      | DoneResp _ \<Rightarrow> meth \<in> {''MultiAppend'', ''UpdateAppendOrder'', ''Merge'', ''ExecuteCommand''}
      | ErrorResp \<Rightarrow> False)"

definition files_fit :: "FileMetadata go_map \<Rightarrow> bool" where
  "files_fit files \<longleftrightarrow> wf_map files \<and> (\<forall>e \<in> set files. file_fits (snd e))"

definition answer_fits :: "(instant \<Rightarrow> int) \<Rightarrow> RpcResponse \<Rightarrow> bool" where
  "answer_fits zone resp =
     (case resp of
        JoinResp r \<Rightarrow> (\<forall>m \<in> set (JoinMembershipList r). member_fits zone m) \<and>
          read_protocol (protocol_text (JoinProtocol r)) = JoinProtocol r \<and>
          read_suspicion (suspicion_text (JoinSuspicion r)) = JoinSuspicion r
      | PingResp _ ms \<Rightarrow> (\<forall>m \<in> set ms. member_fits zone m)
      | FilesResp files \<Rightarrow> files_fit files
      | FileResp _ files \<Rightarrow> files_fit files
      | _ \<Rightarrow> True)"

definition in_order :: "RpcResponse \<Rightarrow> RpcResponse" where
  "in_order resp =
     (case resp of FilesResp files \<Rightarrow> FilesResp (sort_key fst files)
      | FileResp b files \<Rightarrow> FileResp b (sort_key fst files) | _ \<Rightarrow> resp)"

lemma result_keys:
  "distinct (map to_lower [''success'', ''message'', ''membership_list'', ''protocol_type'', ''suspicion_type'',
     ''introducer_id''])"
  "distinct (map to_lower [''success''])"
  "distinct (map to_lower [''sender_address'', ''membership_list''])"
  "distinct (map to_lower [''success'', ''Metadata''])"
  "distinct (map to_lower [''success'', ''message''])"
  "distinct (map to_lower [''Files''])"
  by code_simp+

lemma read_metadata_entries:
  assumes "files_fit files"
  shows "read_metadata (interface_entries (metadata_entries b files)) = Some (b, sort_key fst files)"
  using assms files_wire.decode_encode [of files]
  by (simp add: metadata_entries_def read_metadata_def result_keys [THEN field_interface] as_interface_JObj files_fit_def
      map_idI del: as_interface.simps(1,2))

lemma field_case: "to_lower k = to_lower k' \<Longrightarrow> field k es = field k' es"
  by (simp add: field_def)

lemma command_fields:
  "field ''success'' (interface_entries [(''Success'', b), (''Message'', m)]) = as_interface b"
  "field ''message'' (interface_entries [(''Success'', b), (''Message'', m)]) = as_interface m"
proof -
  have keys: "distinct (map to_lower [''Success'', ''Message''])" "to_lower ''success'' = to_lower ''Success''"
    "to_lower ''message'' = to_lower ''Message''"
    by code_simp+
  show "field ''success'' (interface_entries [(''Success'', b), (''Message'', m)]) = as_interface b"
    "field ''message'' (interface_entries [(''Success'', b), (''Message'', m)]) = as_interface m"
    unfolding field_case [OF keys(2)] field_case [OF keys(3)] by (simp_all add: field_interface [OF keys(1)])
qed

interpretation result_wire: codec "\<lambda>resp. JObj (result_entries zone meth msg resp)" "read_result meth" in_order
    "\<lambda>resp. answers resp meth \<and> answer_fits zone resp" for zone meth msg
proof
  fix resp
  assume resp: "answers resp meth \<and> answer_fits zone resp"
  show "exact (JObj (result_entries zone meth msg resp))"
    using resp members_wire.exact_encode [of _ zone] files_wire.exact_encode
    by (cases resp) (auto simp: result_entries_def answer_fits_def metadata_entries_def files_fit_def)
  show "read_result meth (as_interface (JObj (result_entries zone meth msg resp))) = Some (in_order resp)"
    using resp
    by (cases resp) (auto simp: result_entries_def answer_fits_def answers_def read_result_def in_order_def
        as_interface_JObj result_keys [THEN field_interface] members_wire.decode_encode read_metadata_entries
        command_fields simp del: as_interface.simps(1,2))
qed

section \<open>Datagrams\<close>

text \<open>
  \<^verbatim>\<open>makeRPCCall\<close> marshals the request; \<^verbatim>\<open>handleRPCRequest\<close> reads it, and
  answers with \<^verbatim>\<open>sendRPCResponse\<close> or \<^verbatim>\<open>sendRPCError\<close>; the caller
  reads the answer. Both sides read into a buffer of 4096 bytes, and the rest of a longer datagram is lost.
\<close>

definition buffer_size :: nat where
  "buffer_size = 4096"

definition request_text :: "(instant \<Rightarrow> int) \<Rightarrow> string \<Rightarrow> int \<Rightarrow> RpcRequest \<Rightarrow> string" where
  "request_text zone self rpc_id req = Marshal (JObj
     [(''method'', JStr (method_name req)), (''params'', JObj (params_entries zone self req)), (''id'', JNum rpc_id)])"

definition read_request :: "string \<Rightarrow> u64 \<times> RpcRequest" where
  "read_request datagram =
     (case do {
        j \<leftarrow> Unmarshal datagram;
        struct (\<lambda>es. do {
          meth \<leftarrow> to_string (field ''method'' es); rpc_id \<leftarrow> to_uint64 (field ''id'' es);
          Some (meth, field ''params'' es, rpc_id) }) j } of
        None \<Rightarrow> (0, InvalidRequest)
      | Some (meth, params, rpc_id) \<Rightarrow>
          (case do { j \<leftarrow> convertParams params; read_params meth j } of
             None \<Rightarrow> (rpc_id, InvalidRequest)
           | Some req \<Rightarrow> (rpc_id, req)))"

definition answer_text :: "(instant \<Rightarrow> int) \<Rightarrow> u64 \<Rightarrow> string \<Rightarrow> string \<Rightarrow> RpcResponse \<Rightarrow> string" where
  "answer_text zone rpc_id meth msg resp = Marshal (JObj
     (if resp = ErrorResp then
        (''result'', JNull) # (if msg = [] then [] else [(''error'', JStr msg)]) @ [(''id'', JNum (uint rpc_id))]
      else [(''result'', JObj (result_entries zone meth msg resp)), (''id'', JNum (uint rpc_id))]))"

text \<open>\<open>None\<close> is an error of the call.\<close>

definition read_answer :: "string \<Rightarrow> string \<Rightarrow> RpcResponse option" where
  "read_answer meth datagram = do {
     j \<leftarrow> Unmarshal datagram;
     (result, err, rpc_id) \<leftarrow> struct (\<lambda>es. do {
       err \<leftarrow> to_string (field ''error'' es); rpc_id \<leftarrow> to_uint64 (field ''id'' es);
       Some (field ''result'' es, err, rpc_id) }) j;
     if err \<noteq> [] then None
     else do { j \<leftarrow> convertParams result; read_result meth j } }"

lemma envelope_keys:
  "distinct (map to_lower [''method'', ''params'', ''id''])"
  "distinct (map to_lower [''result'', ''id''])"
  "distinct (map to_lower [''result'', ''error'', ''id''])"
  by code_simp+

text \<open>A request that fits and its answer arrive; cut-off ones do not.\<close>

lemma read_request_text:
  assumes "request_fits zone req" and "0 \<le> rpc_id" "rpc_id < 2 ^ 64"
  shows "read_request (request_text zone self rpc_id req) = (of_int rpc_id, req)"
proof -
  have "do { j \<leftarrow> convertParams (JObj (params_entries zone self req)); read_params (method_name req) j } = Some req"
    using request_wire.over_wire [of req "method_name req" zone] assms(1) by simp
  then show ?thesis using assms(2,3)
    by (simp add: read_request_def request_text_def Unmarshal_Marshal envelope_keys [THEN field_plain] to_uint64_def
        del: Marshal.simps)
qed

lemma read_request_cut:
  assumes "length (request_text zone self rpc_id req) > buffer_size"
  shows "read_request (take buffer_size (request_text zone self rpc_id req)) = (0, InvalidRequest)"
proof -
  have "Unmarshal (take buffer_size (request_text zone self rpc_id req)) = None"
    using assms unfolding request_text_def by (rule Unmarshal_cut)
  then show ?thesis by (simp add: read_request_def)
qed

lemma field_absent:
  assumes "\<forall>e \<in> set es. to_lower (fst e) \<noteq> to_lower k"
  shows "field k es = JNull"
proof -
  have "filter (\<lambda>e. to_lower (fst e) = to_lower k \<and> snd e \<noteq> JNull) es = []"
    using assms by (auto simp: filter_empty_conv)
  then show ?thesis by (simp add: field_def)
qed

lemma no_error_field: "field ''error'' [(''result'', r), (''id'', i)] = JNull"
proof -
  have "to_lower ''result'' \<noteq> to_lower ''error''" "to_lower ''id'' \<noteq> to_lower ''error''" by code_simp+
  then show ?thesis by (simp add: field_absent)
qed

lemma read_answer_text:
  assumes "answers resp meth" and "answer_fits zone resp"
  shows "read_answer meth (answer_text zone rpc_id meth msg resp) = Some (in_order resp)"
proof -
  have "resp \<noteq> ErrorResp" using assms(1) by (auto simp: answers_def)
  moreover have "do { j \<leftarrow> convertParams (JObj (result_entries zone meth msg resp)); read_result meth j } =
      Some (in_order resp)"
    using result_wire.over_wire [of resp meth zone msg] assms by simp
  ultimately show ?thesis
    by (simp add: read_answer_def answer_text_def Unmarshal_Marshal envelope_keys [THEN field_plain] no_error_field
        to_string_def del: Marshal.simps)
qed

lemma read_answer_error:
  assumes "msg \<noteq> []"
  shows "read_answer meth (answer_text zone rpc_id m msg ErrorResp) = None"
  using assms
  by (simp add: read_answer_def answer_text_def Unmarshal_Marshal envelope_keys [THEN field_plain]
      del: Marshal.simps)

lemma read_answer_cut:
  assumes "length (answer_text zone rpc_id m msg resp) > buffer_size"
  shows "read_answer meth (take buffer_size (answer_text zone rpc_id m msg resp)) = None"
proof -
  have "Unmarshal (take buffer_size (answer_text zone rpc_id m msg resp)) = None"
    using assms unfolding answer_text_def by (rule Unmarshal_cut)
  then show ?thesis by (simp add: read_answer_def)
qed

end
