(* ===== verification/Wire.thy ===== *)
theory Wire
  imports Wire_Format Cluster_Properties
begin

text \<open>
  A control call as it goes over the wire, datagram by datagram, and that it is the call of
  \<open>Cluster\<close>: \<open>makeRPCCall\<close> with the outcome that the lengths of the two datagrams decide. Then the
  calls that are too long for the buffers.
\<close>

definition wire_call ::
    "Env \<Rightarrow> (instant \<Rightarrow> int) \<Rightarrow> string \<Rightarrow> int \<Rightarrow> string \<Rightarrow> string \<Rightarrow> RpcRequest \<Rightarrow> Cluster \<Rightarrow> RpcResponse option \<times> Cluster" where
  "wire_call env zone msg rpc_id self target req c =
     (case read_request (take buffer_size (request_text zone self rpc_id req)) of
        (rid, req') \<Rightarrow>
          (case handleRPCRequest env target req' c of
             (resp, c') \<Rightarrow>
               (read_answer (method_name req)
                  (take buffer_size (answer_text zone rid (method_name req') msg resp)), c')))"

text \<open>What the lengths of the datagrams make of a call.\<close>

definition wire_link :: "(instant \<Rightarrow> int) \<Rightarrow> string \<Rightarrow> int \<Rightarrow> string \<Rightarrow> RpcRequest \<Rightarrow> RpcResponse \<Rightarrow> link" where
  "wire_link zone msg rpc_id self req resp =
     (if length (request_text zone self rpc_id req) > buffer_size then Unreachable
      else if length (answer_text zone (of_int rpc_id) (method_name req) msg resp) > buffer_size then Late
      else Up)"

section \<open>Calls over the wire are the calls of the cluster\<close>

lemma handle_answers:
  assumes "node target c \<noteq> None" and "req \<noteq> InvalidRequest"
  shows "answers (fst (handleRPCRequest env target req c)) (method_name req)"
  using assms by (cases req) (auto simp: handleRPCRequest_def at_node_def answers_def method_name_def split: prod.splits)

lemma wire_call_cut:
  assumes "length (request_text zone self rpc_id req) > buffer_size" and "msg \<noteq> []"
  shows "wire_call env zone msg rpc_id self target req c = (None, c)"
proof -
  have "read_answer meth (take buffer_size (answer_text zone 0 m msg ErrorResp)) = None" for meth m
    using read_answer_cut [of zone 0 m msg ErrorResp meth] read_answer_error [OF assms(2), of meth zone 0 m]
    by (cases "length (answer_text zone 0 m msg ErrorResp) > buffer_size") auto
  then show ?thesis by (simp add: wire_call_def read_request_cut [OF assms(1)] handleRPCRequest_def)
qed

lemma wire_call_arrives:
  assumes "request_fits zone req" and "0 \<le> rpc_id" "rpc_id < 2 ^ 64"
    and "length (request_text zone self rpc_id req) \<le> buffer_size"
    and "handleRPCRequest env target req c = (resp, c')" and "answers resp (method_name req)" and "answer_fits zone resp"
  shows "wire_call env zone msg rpc_id self target req c =
    (if length (answer_text zone (of_int rpc_id) (method_name req) msg resp) > buffer_size then None
     else Some (in_order resp), c')"
  using assms read_request_text [OF assms(1-3), of self] read_answer_text [OF assms(6,7), of "of_int rpc_id" msg]
  by (auto simp: wire_call_def read_answer_cut)

text \<open>
  C10. The control calls are faithful to the wire: a request is marshalled, cut to the receiver's buffer,
  read, dispatched, and its answer marshalled, cut and read in turn. For a request that a node serves
  from its own state, and whose values JSON carries exactly, this is \<open>makeRPCCall\<close> of that handler under
  the outcome that the two lengths decide: nothing happens if the request is too long, the caller sees
  an error after the handler has run if the answer is, and otherwise the caller gets the handler's
  result, a map of files in the order of its keys.
\<close>

theorem wire_call_is_rpc_call:
  assumes "request_fits zone req" and "0 \<le> rpc_id" "rpc_id < 2 ^ 64" and "msg \<noteq> []"
    and "node target c = Some s" and "Network c = []"
    and h: "handleRPCRequest env target req c = at_node target wrap handler c"
    and "answer_fits zone (wrap (fst (handler s)))"
  shows "wire_call env zone msg rpc_id self target req c =
    (case makeRPCCall target handler
        (c\<lparr>Network := [wire_link zone msg rpc_id self req (wrap (fst (handler s)))]\<rparr>) of
       (r, c') \<Rightarrow> (map_option (in_order \<circ> wrap) r, c'))"
proof -
  obtain r s' where hs: "handler s = (r, s')" by fastforce
  have c: "c\<lparr>Network := []\<rparr> = c" using assms(6) by simp
  have call: "makeRPCCall target handler (c\<lparr>Network := [l]\<rparr>) =
      (if l = Unreachable then (None, c) else (if l = Up then Some r else None, put_node target s' c))" for l
  proof -
    have "next_link (c\<lparr>Network := [l]\<rparr>) = (l, c)" by (simp add: next_link_def c)
    then show ?thesis by (simp add: makeRPCCall_def assms(5) hs)
  qed
  have handle: "handleRPCRequest env target req c = (wrap r, put_node target s' c)"
    by (simp add: h at_node_def assms(5) hs)
  have "req \<noteq> InvalidRequest" using assms(1) by (auto simp: request_fits_def)
  then have "answers (wrap r) (method_name req)"
    using handle_answers [of target c req env] assms(5) handle by simp
  moreover have "answer_fits zone (wrap r)" using assms(8) hs by simp
  ultimately show ?thesis
    using wire_call_cut [OF _ assms(4), of zone self rpc_id req env target c]
      wire_call_arrives [OF assms(1-3) _ handle, of self msg]
    by (auto simp: call hs wire_link_def)
qed

definition wire_cluster :: Cluster where
  "wire_cluster = \<lparr>Nodes = [(''127.0.0.1:5000'', example_server)], Network = [], Os = \<lambda>_. no_faults, Ord = id\<rparr>"

theorem wire_call_is_rpc_call_witness:
  "wire_call example_env (\<lambda>_. 0) ''failed'' 7 ''127.0.0.1:5001'' ''127.0.0.1:5000''
      (GetFileMetadataReq ''f'') wire_cluster =
    (case makeRPCCall ''127.0.0.1:5000'' (\<lambda>s. (GetFileMetadata ''f'' s, s))
        (wire_cluster\<lparr>Network := [wire_link (\<lambda>_. 0) ''failed'' 7 ''127.0.0.1:5001'' (GetFileMetadataReq ''f'')
          (FileResp False [])]\<rparr>) of
       (r, c') \<Rightarrow> (map_option (in_order \<circ> (\<lambda>(x, y). FileResp x y)) r, c'))"
proof -
  have s: "node ''127.0.0.1:5000'' wire_cluster = Some example_server" "GetFileMetadata ''f'' example_server = (False, [])"
    by (simp_all add: wire_cluster_def node_def GetFileMetadata_def)
  show ?thesis
    using wire_call_is_rpc_call [of "\<lambda>_. 0" "GetFileMetadataReq ''f''" 7 "''failed''" "''127.0.0.1:5000''" wire_cluster
        example_server example_env "\<lambda>(x, y). FileResp x y" "\<lambda>s. (GetFileMetadata ''f'' s, s)" "''127.0.0.1:5001''"] s
    by (simp add: request_fits_def wire_cluster_def handleRPCRequest_def answer_fits_def files_fit_def wf_map_def)
qed

section \<open>Calls that do not fit\<close>

lemma Marshal_values: "2 \<le> length (Marshal (JStr s))" "1 \<le> length (Marshal (JNum i))"
  "2 \<le> length (Marshal (JArr vs))"
  using length_quote [of s] length_itoa [of i] by simp_all

lemma length_append_json: "89 \<le> length (Marshal (append_json a))"
proof -
  have "89 \<le> sum_list (map (\<lambda>(k, v). length k + 4 + length (Marshal v))
      [(''FileName'', JStr (AppFileName a)), (''AppendID'', JStr (AppendID a)), (''ClientID'', JStr (ClientID a)),
       (''ClientTimestamp'', JStr (ClientTimestamp a)), (''AppendHash'', JStr (AppendHash a)),
       (''Size'', JNum (Size a))]) + 1"
    using Marshal_values(1) [of "AppFileName a"] Marshal_values(1) [of "AppendID a"] Marshal_values(1) [of "ClientID a"]
      Marshal_values(1) [of "ClientTimestamp a"] Marshal_values(1) [of "AppendHash a"] Marshal_values(2) [of "Size a"]
    by (simp del: Marshal.simps)
  also have "\<dots> \<le> length (Marshal (append_json a))" unfolding append_json_def by (rule length_JObj_ge)
  finally show ?thesis .
qed

lemma length_file_json: "92 \<le> length (Marshal (file_json fm))"
proof -
  let ?h = "itoa (FileNameHash fm)"
  have "92 \<le> sum_list (map (\<lambda>(k, v). length k + 4 + length (Marshal v))
      [(''file_name'', JStr (FileName fm)), (''file_content_hash'', JStr (FileContentHash fm)),
       (''file_name_hash'', JStr ?h), (''creation_time'', JStr (CreationTime fm)),
       (''appends'', JArr (map append_json (Appends fm)))]) + 1"
    using Marshal_values(1) [of "FileName fm"] Marshal_values(1) [of "FileContentHash fm"] length_quote [of ?h]
      length_itoa [of "FileNameHash fm"] Marshal_values(1) [of "CreationTime fm"]
      Marshal_values(3) [of "map append_json (Appends fm)"]
    by (simp del: Marshal.simps add: Marshal.simps(4) [of ?h])
  also have "\<dots> \<le> length (Marshal (file_json fm))"
    unfolding file_json_def MarshalJSON_def Let_def FileMetadataJSON.simps by (rule length_JObj_ge)
  finally show ?thesis .
qed

lemma length_pad_append: "k \<le> length r \<Longrightarrow> w + k \<le> length (pad w n @ r)"
  by (simp add: pad_def)

lemma length_char_append: "k \<le> length r \<Longrightarrow> 1 + k \<le> length ([x] @ r)"
  by simp

lemma length_time_text: "19 \<le> length (time_text zone t)"
proof -
  have parts: "4 + (1 + (2 + (1 + (2 + (1 + (2 + (1 + (2 + (1 + (2 + 0)))))))))) \<le> length (pad 4 y @ ''-'' @ pad 2 m @ ''-'' @
      pad 2 d @ ''T'' @ pad 2 h @ '':'' @ pad 2 mi @ '':'' @ pad 2 s @ r)" for y m d h mi s r
    by (intro length_pad_append length_char_append) simp
  show ?thesis
    unfolding time_text_def Let_def by (simp only: split: prod.split) (intro allI impI order_trans [OF _ parts], simp)
qed

lemma length_member_json: "147 \<le> length (Marshal (member_json zone m))"
proof -
  have "147 \<le> sum_list (map (\<lambda>(k, v). length k + 4 + length (Marshal v))
     [(''Address'', JStr (Address m)),
      (''NodeCreationTimestamp'', JStr (time_text (zone (NodeCreationTimestamp m)) (NodeCreationTimestamp m))),
      (''Status'', JStr (status_text (Status m))), (''Heartbeat'', JNum (uint (Heartbeat m))),
      (''Incarnation'', JNum (uint (Incarnation m))),
      (''LastUpdated'', JStr (time_text (zone (LastUpdated m)) (LastUpdated m))), (''Hash'', JNum (Hash m))]) + 1"
    using Marshal_values(1) [of "Address m"] length_quote [of "time_text (zone (LastUpdated m)) (LastUpdated m)"]
      length_quote [of "time_text (zone (NodeCreationTimestamp m)) (NodeCreationTimestamp m)"]
      length_time_text [of "zone (LastUpdated m)" "LastUpdated m"]
      length_time_text [of "zone (NodeCreationTimestamp m)" "NodeCreationTimestamp m"]
      Marshal_values(1) [of "status_text (Status m)"] Marshal_values(2) [of "uint (Heartbeat m)"]
      Marshal_values(2) [of "uint (Incarnation m)"] Marshal_values(2) [of "Hash m"]
    by (simp del: Marshal.simps(3) add: Marshal.simps(4))
  also have "\<dots> \<le> length (Marshal (member_json zone m))" unfolding member_json_def by (rule length_JObj_ge)
  finally show ?thesis .
qed

lemma length_value: "(k, v) \<in> set es \<Longrightarrow> length (Marshal v) \<le> length (Marshal (JObj es))"
proof -
  assume "(k, v) \<in> set es"
  then have "length k + 4 + length (Marshal v) \<le> sum_list (map (\<lambda>(k, v). length k + 4 + length (Marshal v)) es)"
    by (intro member_le_sum_list) force+
  then show ?thesis using length_JObj_ge [of es] by linarith
qed

lemma length_params: "(k, v) \<in> set (params_entries zone self req) \<Longrightarrow>
    length (Marshal v) \<le> length (request_text zone self rpc_id req)"
  unfolding request_text_def
  by (rule order_trans [OF length_value [of k v "params_entries zone self req"] length_value [of "''params''"]]) simp_all

lemma length_gossip: "148 * length ms < length (request_text zone self rpc_id (GossipReq sender ms))"
proof -
  have "148 * length ms < length (Marshal (JArr (map (member_json zone) ms)))"
    using length_JArr_ge [of "map (member_json zone) ms" 147] length_member_json by simp
  also have "\<dots> \<le> length (request_text zone self rpc_id (GossipReq sender ms))"
    by (rule length_params [of "''membership_list''"]) (simp add: params_entries_def)
  finally show ?thesis .
qed

lemma length_update: "90 * length as < length (request_text zone self rpc_id (UpdateAppendOrderReq f as))"
proof -
  have "90 * length as < length (Marshal (JArr (map append_json as)))"
    using length_JArr_ge [of "map append_json as" 89] length_append_json by simp
  also have "\<dots> \<le> length (request_text zone self rpc_id (UpdateAppendOrderReq f as))"
    by (rule length_params [of "''appends''"]) (simp add: params_entries_def)
  finally show ?thesis .
qed

lemma length_files: "96 * length files < length (answer_text zone rid meth msg (FilesResp files))"
proof -
  have "96 * length files \<le> sum_list (map (\<lambda>(k, v). length k + 4 + length (Marshal v)) (map (apsnd file_json) fs))"
    if "length fs = length files" for fs :: "FileMetadata go_map"
    using that
  proof (induction fs arbitrary: files)
    case (Cons x fs)
    then obtain y ys where "files = y # ys" "length fs = length ys" by (cases files) auto
    with Cons.IH [of ys] length_file_json [of "snd x"] show ?case by (cases x) simp
  qed simp
  then have "96 * length files < length (Marshal (from_map file_json files))"
    using length_JObj_ge [of "sort_key fst (map (apsnd file_json) files)"]
    by (simp add: from_map_def sort_key_values del: Marshal.simps) (meson Suc_le_lessD le_trans length_sort not_less_eq_eq)
  also have "\<dots> \<le> length (Marshal (JObj [(''Files'', from_map file_json files)]))" by (rule length_value) simp
  also have "\<dots> \<le> length (Marshal (JObj (metadata_entries True files)))"
    by (rule length_value) (simp add: metadata_entries_def)
  also have "\<dots> \<le> length (answer_text zone rid meth msg (FilesResp files))"
    unfolding answer_text_def by (rule length_value) (simp add: result_entries_def)
  finally show ?thesis .
qed

text \<open>
  C34. Calls that do not fit are lost: gossip of 28 or more members, entries of departed ones included,
  and a new order of 46 or more appends never reach the other node, whatever it and the network do; and
  a node with 43 or more files in a key range cannot tell another node about them. Names, addresses and
  times count with their least lengths.
\<close>

theorem oversized_calls_fail:
  assumes "msg \<noteq> []" and "0 \<le> rpc_id" "rpc_id < 2 ^ 64" and ord: "\<And>xs. mset (Ord c xs) = mset xs"
  shows "(28 \<le> length ms \<longrightarrow> wire_call env zone msg rpc_id self target (GossipReq sender ms) c = (None, c)) \<and>
    (46 \<le> length as \<longrightarrow> wire_call env zone msg rpc_id self target (UpdateAppendOrderReq f as) c = (None, c)) \<and>
    (\<forall>s. node target c = Some s \<and> \<bar>a\<bar> \<le> 2 ^ 53 \<and> \<bar>b\<bar> \<le> 2 ^ 53 \<and>
        43 \<le> card {g. \<exists>m. GetFile (Meta s) g = Some m \<and> IsHashInRange (FileNameHash m) a b} \<longrightarrow>
      fst (wire_call env zone msg rpc_id self target (GetFilesMetadataReq a b) c) = None)"
proof (intro conjI allI impI)
  assume "28 \<le> length ms"
  then show "wire_call env zone msg rpc_id self target (GossipReq sender ms) c = (None, c)"
    using length_gossip [of ms zone self rpc_id sender] by (intro wire_call_cut assms) (simp add: buffer_size_def)
next
  assume "46 \<le> length as"
  then show "wire_call env zone msg rpc_id self target (UpdateAppendOrderReq f as) c = (None, c)"
    using length_update [of as zone self rpc_id f] by (intro wire_call_cut assms) (simp add: buffer_size_def)
next
  fix s
  assume "node target c = Some s \<and> \<bar>a\<bar> \<le> 2 ^ 53 \<and> \<bar>b\<bar> \<le> 2 ^ 53 \<and>
    43 \<le> card {g. \<exists>m. GetFile (Meta s) g = Some m \<and> IsHashInRange (FileNameHash m) a b}"
  then have s: "node target c = Some s" and ab: "\<bar>a\<bar> \<le> 2 ^ 53" "\<bar>b\<bar> \<le> 2 ^ 53"
    and many: "43 \<le> card {g. \<exists>m. GetFile (Meta s) g = Some m \<and> IsHashInRange (FileNameHash m) a b}"
    by blast+
  let ?files = "GetFilesMetadata (Ord c) a b s"
  have "{g. \<exists>m. GetFile (Meta s) g = Some m \<and> IsHashInRange (FileNameHash m) a b} = dom (map_of ?files)"
    by (auto simp: dom_def GetFilesMetadata_lookup [OF ord] split: option.splits if_splits)
  also have "card \<dots> \<le> length ?files"
    by (metis card_length dom_map_of_conv_image_fst length_map list.set_map)
  finally have "43 \<le> length ?files" using many by simp
  then have long: "length (answer_text zone rid m msg (FilesResp ?files)) > buffer_size" for rid m
    using length_files [of ?files zone rid m msg] by (simp add: buffer_size_def)
  show "fst (wire_call env zone msg rpc_id self target (GetFilesMetadataReq a b) c) = None"
  proof (cases "length (request_text zone self rpc_id (GetFilesMetadataReq a b)) > buffer_size")
    case True
    then show ?thesis by (simp add: wire_call_cut assms)
  next
    case False
    have "request_fits zone (GetFilesMetadataReq a b)" using ab by (simp add: request_fits_def)
    then show ?thesis
      using False read_request_text [OF _ assms(2,3), of zone "GetFilesMetadataReq a b" self]
      by (simp add: wire_call_def handleRPCRequest_def at_node_def s read_answer_cut [OF long])
  qed
qed

text \<open>A node with 43 files.\<close>

definition crowded_server :: Server where
  "crowded_server = example_server\<lparr>Meta := \<lparr>Files = map (\<lambda>i. (itoa (int i), example_file (itoa (int i)) 5)) [0..<43],
     locks = Some (map (\<lambda>i. itoa (int i)) [0..<43])\<rparr>\<rparr>"

lemma crowded_files:
  "{g. \<exists>m. GetFile (Meta crowded_server) g = Some m \<and> IsHashInRange (FileNameHash m) 0 10} =
    (\<lambda>i. itoa (int i)) ` {0..<43}"
proof -
  let ?fs = "map (\<lambda>i. (itoa (int i), example_file (itoa (int i)) 5)) [0..<43]"
  have "IsHashInRange (FileNameHash m) 0 10" if "map_of ?fs g = Some m" for g m
    using map_of_SomeD [OF that] by (auto simp: example_file_def IsHashInRange_def)
  then have "{g. \<exists>m. GetFile (Meta crowded_server) g = Some m \<and> IsHashInRange (FileNameHash m) 0 10} = dom (map_of ?fs)"
    by (auto simp: crowded_server_def GetFile_def)
  also have "\<dots> = (\<lambda>i. itoa (int i)) ` {0..<43}"
    unfolding dom_map_of_conv_image_fst list.set_map set_upt image_image by simp
  finally show ?thesis .
qed

definition crowded_cluster :: Cluster where
  "crowded_cluster = \<lparr>Nodes = [(''127.0.0.1:5000'', crowded_server)], Network = [], Os = \<lambda>_. no_faults, Ord = id\<rparr>"

theorem oversized_calls_fail_witness:
  "wire_call example_env (\<lambda>_. 0) ''failed'' 7 ''127.0.0.1:5001'' ''127.0.0.1:5000''
      (GossipReq ''n'' (replicate 28 zero_Member)) crowded_cluster = (None, crowded_cluster) \<and>
   wire_call example_env (\<lambda>_. 0) ''failed'' 7 ''127.0.0.1:5001'' ''127.0.0.1:5000''
      (UpdateAppendOrderReq ''f'' (replicate 46 (new_append 0 example_server ''f'' [1]))) crowded_cluster =
     (None, crowded_cluster) \<and>
   fst (wire_call example_env (\<lambda>_. 0) ''failed'' 7 ''127.0.0.1:5001'' ''127.0.0.1:5000''
      (GetFilesMetadataReq 0 10) crowded_cluster) = None"
proof -
  have "inj_on (\<lambda>i. itoa (int i)) {0..<43}" by (simp add: inj_on_def)
  then have "43 \<le> card {g. \<exists>m. GetFile (Meta crowded_server) g = Some m \<and> IsHashInRange (FileNameHash m) 0 10}"
    by (simp add: crowded_files card_image)
  moreover have "node ''127.0.0.1:5000'' crowded_cluster = Some crowded_server" "\<And>xs. mset (Ord crowded_cluster xs) = mset xs"
    by (simp_all add: crowded_cluster_def node_def)
  ultimately show ?thesis
    using oversized_calls_fail [of "''failed''" 7 crowded_cluster "replicate 28 zero_Member" example_env "\<lambda>_. 0"
        "''127.0.0.1:5001''" "''127.0.0.1:5000''" "''n''"
        "replicate 46 (new_append 0 example_server ''f'' [1])" "''f''" 0 10]
    by simp
qed

end
