(* ===== verification/Traffic.thy ===== *)
theory Traffic
  imports Wire
begin

text \<open>
  The traffic counters of a control call: what \<open>makeRPCCall\<close>, \<open>listenForMessages\<close> and
  \<open>sendRPCResponse\<close> add to the bytes sent and received at the two ends, with the limit of UDP on a
  datagram, and that counting is all they add to the call of \<open>Wire\<close>.
\<close>

definition count_at :: "(BandwidthStats \<Rightarrow> BandwidthStats) \<Rightarrow> string \<Rightarrow> Cluster \<Rightarrow> Cluster" where
  "count_at f a = update_node a (\<lambda>s. s\<lparr>Bandwidth := f (Bandwidth s)\<rparr>)"

text \<open>The longest payload of a UDP datagram over IPv4; a longer one is an error of the write.\<close>

definition datagram_limit :: nat where
  "datagram_limit = 65507"

text \<open>
  A control call of \<open>caller\<close> that the network delivers; \<open>r\<close> is the random number with which the
  receiver may drop it. An answer beyond the limit is not sent, and the caller times out.
\<close>

definition metered_call ::
    "Env \<Rightarrow> (instant \<Rightarrow> int) \<Rightarrow> string \<Rightarrow> int \<Rightarrow> float64 \<Rightarrow> string \<Rightarrow> string \<Rightarrow> string \<Rightarrow> RpcRequest \<Rightarrow> Cluster \<Rightarrow>
      RpcResponse option \<times> Cluster" where
  "metered_call env zone msg rpc_id r self caller target req c =
     (let data = request_text zone self rpc_id req
      in if length data > datagram_limit then (None, c)
         else let c1 = count_at (AddSent (of_nat (length data))) caller c
           in case node target c1 of
                None \<Rightarrow> (None, c1)
              | Some s \<Rightarrow>
                  let datagram = take buffer_size data;
                      c2 = count_at (AddReceived (of_nat (length datagram))) target c1
                  in if drops (Config s) r then (None, c2)
                     else case read_request datagram of (rid, req') \<Rightarrow>
                       (case handleRPCRequest env target req' c2 of
                          (resp, c3) \<Rightarrow>
                            let reply = answer_text zone rid (method_name req') msg resp
                            in if length reply > datagram_limit then (None, count_at (AddSent 0) target c3)
                               else let c4 = count_at (AddSent (of_nat (length reply))) target c3;
                                   got = take buffer_size reply
                                 in (read_answer (method_name req) got,
                                     count_at (AddReceived (of_nat (length got))) caller c4)))"

section \<open>Counting commutes with the handlers\<close>

lemma update_commute:
  assumes "a \<noteq> b" and "map_of xs a \<noteq> None" and "map_of xs b \<noteq> None"
  shows "AList.update a x (AList.update b y xs) = AList.update b y (AList.update a x xs)"
  using assms
proof (induction xs)
  case (Cons z zs)
  then show ?case by (cases z) auto
qed simp

lemma put_node_commute:
  assumes "a \<noteq> b" and "node a c \<noteq> None" and "node b c \<noteq> None"
  shows "put_node a x (put_node b y c) = put_node b y (put_node a x c)"
  using assms update_commute [of a b "Nodes c" x y] by (simp add: put_node_def node_def)

lemma put_put [simp]: "put_node a x (put_node a y c) = put_node a x c"
  by (simp add: put_node_def)

abbreviation with_Bandwidth :: "BandwidthStats \<Rightarrow> Server \<Rightarrow> Server" where
  "with_Bandwidth b s \<equiv> s\<lparr>Bandwidth := b\<rparr>"

lemma stabilization_Bandwidth:
  "handleDeadNode m (with_Bandwidth b s) = with_Bandwidth b (handleDeadNode m s)"
  "handleNewlyJoinedNode m (with_Bandwidth b s) = with_Bandwidth b (handleNewlyJoinedNode m s)"
  "set_member m (with_Bandwidth b s) = with_Bandwidth b (set_member m s)"
  by (simp_all add: handleDeadNode_def handleNewlyJoinedNode_def set_member_def)

lemma merge_decisions_Bandwidth:
  "handleSuspicionMerge now l m sid (with_Bandwidth b s) = apfst (with_Bandwidth b) (handleSuspicionMerge now l m sid s)"
  "handleNoSuspicionMerge now l m sid (with_Bandwidth b s) = handleNoSuspicionMerge now l m sid s"
  by (simp_all add: handleSuspicionMerge_def handleNoSuspicionMerge_def stabilization_Bandwidth split: ProtocolType.split)

lemma merge_one_Bandwidth:
  "merge_one now snap sid m (with_Bandwidth b s) = with_Bandwidth b (merge_one now snap sid m s)"
proof -
  have known: "merge_one now snap sid m (with_Bandwidth b s) = with_Bandwidth b (merge_one now snap sid m s)"
    if "map_of snap (ID m) = Some l" for l
  proof -
    define dies where "dies \<longleftrightarrow> (Status l = StatusAlive \<or> Status l = StatusSuspect) \<and>
      (Status m = StatusDead \<or> Status m = StatusVoluntaryLeave)"
    define t where "t = (if dies then handleDeadNode m s else s)"
    have t: "(if dies then handleDeadNode m (with_Bandwidth b s) else with_Bandwidth b s) = with_Bandwidth b t"
      by (simp add: t_def stabilization_Bandwidth)
    have sid: "ServerID (with_Bandwidth b u) = ServerID u" for u by (simp add: ServerID_def)
    have inc: "with_Bandwidth b u\<lparr>IncarnationNumber := i\<rparr> = with_Bandwidth b (u\<lparr>IncarnationNumber := i\<rparr>)" for u :: Server and i
      by simp
    show ?thesis
      unfolding merge_one_def that option.case dies_def [symmetric] t t_def [symmetric] Let_def sid
        merge_decisions_Bandwidth
      by (simp add: stabilization_Bandwidth inc apfst_def split: SuspicionType.split prod.split)
  qed
  show ?thesis
  proof (cases "map_of snap (ID m)")
    case None
    then show ?thesis by (simp add: merge_one_def stabilization_Bandwidth Let_def)
  qed (rule known)
qed

lemma merge_loop_Bandwidth:
  "merge_loop clk snap sid ms (with_Bandwidth b s) = with_Bandwidth b (merge_loop clk snap sid ms s)"
  by (induction ms arbitrary: clk s) (simp_all add: merge_one_Bandwidth)

text \<open>A handler that neither reads nor moves the counters.\<close>

locale uncounted =
  fixes handler :: "Server \<Rightarrow> 'r \<times> Server"
  assumes blind: "handler (with_Bandwidth b s) = apsnd (with_Bandwidth b) (handler s)"
begin

lemma Bandwidth_kept: "Bandwidth (snd (handler s)) = Bandwidth s"
proof -
  have "handler s = apsnd (with_Bandwidth (Bandwidth s)) (handler s)" using blind [of "Bandwidth s" s] by simp
  then have "snd (handler s) = with_Bandwidth (Bandwidth s) (snd (handler s))" by (metis snd_apsnd)
  then have "Bandwidth (snd (handler s)) = Bandwidth (with_Bandwidth (Bandwidth s) (snd (handler s)))" by (rule arg_cong)
  then show ?thesis by simp
qed

lemma at_node_count:
  assumes "node a c \<noteq> None" and "node target c \<noteq> None"
  shows "at_node target wrap handler (count_at f a c) = apsnd (count_at f a) (at_node target wrap handler c)"
proof -
  obtain s x where s: "node target c = Some s" and x: "node a c = Some x" using assms by auto
  obtain r s' where h: "handler s = (r, s')" by fastforce
  have "Bandwidth s' = Bandwidth s" using Bandwidth_kept [of s] h by simp
  moreover have "handler (with_Bandwidth b s) = (r, with_Bandwidth b s')" for b by (simp add: blind h)
  ultimately show ?thesis
    using put_node_commute [of target a c s' "with_Bandwidth (f (Bandwidth x)) x"] s x h
    by (cases "a = target") (auto simp: at_node_def count_at_def update_node_def)
qed

end

interpretation join: uncounted "Join now m"
  by unfold_locales (simp add: Join_def Let_def ServerID_def)

interpretation gossip: uncounted "Gossip clk sid ms"
  by unfold_locales (simp add: Gossip_def mergeMembership_def merge_loop_Bandwidth)

interpretation ping: uncounted "Ping clk sid ms"
  by unfold_locales (simp add: Ping_def mergeMembership_def merge_loop_Bandwidth Let_def ServerID_def)

interpretation switch: uncounted "ProtocolSwitch p x"
  by unfold_locales (simp add: ProtocolSwitch_def)

interpretation range_read: uncounted "\<lambda>s. (GetFilesMetadata ord a b s, s)"
  by unfold_locales (simp add: GetFilesMetadata_def split: sum.split)

interpretation file_read: uncounted "\<lambda>s. (GetFileMetadata f s, s)"
  by unfold_locales (simp add: GetFileMetadata_def)

interpretation order_update: uncounted "UpdateAppendOrder f as"
  by unfold_locales (simp add: UpdateAppendOrder_def split: option.split)

interpretation command: uncounted "ExecuteCommand cmd"
  by unfold_locales (simp add: ExecuteCommand_def)

text \<open>The requests that a node serves from its own state.\<close>

fun served_locally :: "RpcRequest \<Rightarrow> bool" where
  "served_locally (MultiAppendReq f l) = False"
| "served_locally (MergeReq f) = False"
| "served_locally req = True"

lemma Ord_count [simp]: "Ord (count_at f a c) = Ord c"
  by (simp add: count_at_def update_node_def put_node_def split: option.split)

lemma node_count: "node b (count_at f a c) =
    (if a = b then map_option (\<lambda>s. with_Bandwidth (f (Bandwidth s)) s) (node b c) else node b c)"
  by (simp add: count_at_def update_node_def split: option.split)

lemmas at_node_counts = join.at_node_count gossip.at_node_count ping.at_node_count switch.at_node_count
  range_read.at_node_count file_read.at_node_count order_update.at_node_count command.at_node_count

lemma handle_count:
  assumes "served_locally req" and "node a c \<noteq> None" and "node target c \<noteq> None"
  shows "handleRPCRequest env target req (count_at f a c) = apsnd (count_at f a) (handleRPCRequest env target req c)"
  using assms(1) at_node_counts [OF assms(2,3)] by (cases req) (simp_all add: handleRPCRequest_def)

lemma handle_nodes:
  assumes "served_locally req"
  shows "node a (snd (handleRPCRequest env target req c)) = None \<longleftrightarrow> node a c = None"
  using assms by (cases req) (auto simp: handleRPCRequest_def at_node_def split: option.split prod.split)

lemma count_swap:
  assumes "a \<noteq> b" and "node a c \<noteq> None" and "node b c \<noteq> None"
  shows "count_at f a (count_at g b c) = count_at g b (count_at f a c)"
  using assms put_node_commute [OF assms] by (auto simp: count_at_def update_node_def)

lemma count_count: "count_at f a (count_at g a c) = count_at (f \<circ> g) a c"
  by (simp add: count_at_def update_node_def split: option.split)

lemma count_both_ends:
  assumes "a \<noteq> b" and "node a c \<noteq> None" and "node b c \<noteq> None"
  shows "count_at f a (count_at g b (count_at h b (count_at k a c))) = count_at (f \<circ> k) a (count_at (g \<circ> h) b c)"
  using count_swap [OF assms, of k "g \<circ> h"]
  by (simp only: count_count [of g b h] count_count [of f a k, symmetric])

section \<open>What a call adds to the counters\<close>

text \<open>
  The counters of a call that the receiver's buffer holds: the caller has sent the request and received
  what its own buffer holds of the answer, the receiver has received the request and sent the answer.
  Nothing else differs from the call without counters.
\<close>

theorem metered_call_counts:
  assumes "request_fits zone req" and "0 \<le> rpc_id" "rpc_id < 2 ^ 64" and "served_locally req"
    and "caller \<noteq> target" and "node caller c \<noteq> None" and "node target c = Some s" and "\<not> drops (Config s) r"
    and fits: "length (request_text zone self rpc_id req) \<le> buffer_size"
    and "wire_call env zone msg rpc_id self target req c = (result, c')"
    and reply: "reply = answer_text zone (of_int rpc_id) (method_name req) msg (fst (handleRPCRequest env target req c))"
    and "length reply \<le> datagram_limit"
  shows "metered_call env zone msg rpc_id r self caller target req c =
    (result,
     count_at (AddReceived (of_nat (min (length reply) buffer_size)) \<circ>
         AddSent (of_nat (length (request_text zone self rpc_id req)))) caller
       (count_at (AddSent (of_nat (length reply)) \<circ>
           AddReceived (of_nat (length (request_text zone self rpc_id req)))) target c'))"
proof -
  let ?data = "request_text zone self rpc_id req"
  let ?n = "of_nat (length ?data) :: u64"
  let ?c1 = "count_at (AddSent ?n) caller c"
  let ?c2 = "count_at (AddReceived ?n) target ?c1"
  obtain resp d where h: "handleRPCRequest env target req c = (resp, d)" by fastforce
  have taken: "take buffer_size ?data = ?data" "\<not> length ?data > datagram_limit"
    using fits by (simp_all add: buffer_size_def datagram_limit_def)
  have parsed: "read_request ?data = (of_int rpc_id, req)" using assms(1-3) by (rule read_request_text)
  have r: "result = read_answer (method_name req) (take buffer_size reply)" "c' = d"
    using assms(10) by (simp_all add: wire_call_def taken parsed h reply)
  have nodes: "node caller ?c1 \<noteq> None" "node target ?c1 = Some s" "node target ?c1 \<noteq> None"
    using assms(5-7) by (auto simp: node_count)
  have "handleRPCRequest env target req ?c2 = (resp, count_at (AddReceived ?n) target (count_at (AddSent ?n) caller d))"
    using handle_count [OF assms(4) nodes(3,3), of env] handle_count [OF assms(4,6), of target env] assms(7) h by simp
  moreover have "node caller d \<noteq> None" "node target d \<noteq> None"
    using handle_nodes [OF assms(4), of _ env target c] assms(6,7) h by auto
  ultimately show ?thesis
    using assms(5,8,12) nodes(2) taken parsed r h reply
    using count_both_ends [of caller target d] by (simp add: metered_call_def Let_def)
qed

end
