(* ===== verification/Fault_Tolerance.thy ===== *)
theory Fault_Tolerance
  imports Cluster_Properties
begin

text \<open>
  Reading and creating under failures: any outcome of the calls, nodes that are gone, disks that
  fail. A get that reports success has the contents that the answering target serves, and it succeeds
  if a single target can be reached; a create counts only targets that have the file.
\<close>

section \<open>Reading from whichever target answers\<close>

text \<open>
  The node at \<open>a\<close> streams the file without an error, as \<open>d\<close>. What a node stores; and the outcome of the
  \<open>i\<close>-th call from now on.
\<close>

definition serves :: "Cluster \<Rightarrow> string \<Rightarrow> string \<Rightarrow> bytes \<Rightarrow> bool" where
  "serves c a f d \<longleftrightarrow> (\<exists>t all. node a c = Some t \<and> fst (HyDFS_GetFile (Os c a) f t) = (all, None) \<and> stream_data all = d)"

definition storage :: "string \<Rightarrow> Cluster \<Rightarrow> (Metadata \<times> directory) option" where
  "storage a c = map_option (\<lambda>s. (Meta s, FileDirectory s)) (node a c)"

definition link_at :: "nat \<Rightarrow> Cluster \<Rightarrow> link" where
  "link_at i c = (if i < length (Network c) then Network c ! i else Up)"

lemma node_Network: "node a (c\<lparr>Network := n\<rparr>) = node a c"
  by (simp add: node_def)

lemma next_link_eq: "next_link c = (link_at 0 c, c\<lparr>Network := tl (Network c)\<rparr>)"
  by (cases "Network c") (simp_all add: next_link_def link_at_def)

lemma storage_put [simp]:
  "storage a (put_node b s c) = (if a = b then Some (Meta s, FileDirectory s) else storage a c)"
  by (simp add: storage_def)

lemma storage_Network [simp]: "storage a (c\<lparr>Network := n\<rparr>) = storage a c"
  by (simp add: storage_def node_def)

lemma storage_node: "node a c = Some s \<Longrightarrow> storage a c = Some (Meta s, FileDirectory s)"
  by (simp add: storage_def)

lemma served_stream:
  "fst (HyDFS_GetFile os f s) = (case GetFile (Meta s) f of None \<Rightarrow> ([], Some NotInMetadata)
     | Some m \<Rightarrow> get_loop os (FileDirectory s) f (FileName m # map AppendID (Appends m)))"
  by (simp add: HyDFS_GetFile_def Let_def split: option.split del: get_loop.simps)

lemma served_state: "Meta (snd (HyDFS_GetFile os f s)) = Meta s" "FileDirectory (snd (HyDFS_GetFile os f s)) = FileDirectory s"
  by (simp_all add: HyDFS_GetFile_def Let_def split: option.split del: get_loop.simps)

lemma storage_None: "storage a c = None \<longleftrightarrow> node a c = None"
  by (simp add: storage_def)

lemma serves_storage:
  "serves c a f d \<longleftrightarrow> (\<exists>m dir. storage a c = Some (m, dir) \<and>
     (\<exists>meta all. GetFile m f = Some meta \<and>
        get_loop (Os c a) dir f (FileName meta # map AppendID (Appends meta)) = (all, None) \<and> stream_data all = d))"
  by (cases "node a c") (auto simp: serves_def storage_def served_stream split: option.splits)

lemma serves_cong: "storage a c = storage a c' \<Longrightarrow> Os c = Os c' \<Longrightarrow> serves c a f d \<longleftrightarrow> serves c' a f d"
  by (simp only: serves_storage)

lemma receive_loop_works:
  assumes "WriteFails os name = None"
  shows "fst (receive_loop os name chunks failed w dir bw) \<longleftrightarrow> \<not> failed"
  using assms by (induction chunks arbitrary: w dir bw) (simp_all add: Let_def)

lemma receive_file_works:
  assumes "disk_works os (Base lf)" and "receive_file os (Some (chunks, failed)) lf dir bw = (ok, dir', bw')"
  shows "(ok \<longleftrightarrow> \<not> failed) \<and> (ok \<longrightarrow> map_of dir' (Base lf) = Some (stream_data chunks))"
proof -
  have w: "WriteFails os (Base lf) = None" using assms(1) by (simp add: disk_works_def)
  have loop: "receive_loop os (Base lf) chunks failed [] (AList.update (Base lf) [] dir) bw = (ok, dir', bw')"
    using assms by (simp add: receive_file_def disk_works_def Let_def)
  then have "ok \<longleftrightarrow> \<not> failed" using receive_loop_works [OF w, of chunks failed "[]"] by (metis fst_conv)
  moreover have "map_of dir' (Base lf) = Some (stream_data chunks)" if "\<not> failed"
    using loop that receive_loop_ok [of os "Base lf" "AList.update (Base lf) [] dir" "[]" chunks bw] w by simp
  ultimately show ?thesis by blast
qed

lemma receive_any:
  assumes y: "node self c = Some y" and os: "disk_works (Os c self) (Base lf)"
    and recv: "ReceiveFileFromNode self t f False lf c = (ok, c1)"
  shows "Os c1 = Os c \<and> Network c1 = tl (Network c) \<and> (\<forall>a. storage a c1 = storage a c) \<and>
    (ok \<longrightarrow> (\<exists>d y1. serves c t f d \<and> node self c1 = Some y1 \<and> map_of (LocalDirectory y1) (Base lf) = Some d)) \<and>
    (link_at 0 c = Up \<and> (\<exists>d. serves c t f d) \<longrightarrow> ok)"
proof (cases "node t c = None \<or> link_at 0 c = Unreachable")
  case True
  then have "ReceiveFileFromNode self t f False lf c = (False, c\<lparr>Network := tl (Network c)\<rparr>)"
    by (auto simp: ReceiveFileFromNode_def next_link_eq node_def)
  then show ?thesis using recv True by (auto simp: serves_def)
next
  case False
  then obtain x where x: "node t c = Some x" by auto
  define l where "l = link_at 0 c"
  obtain all e x' where g: "HyDFS_GetFile (Os c t) f x = ((all, e), x')" by (metis surj_pair)
  have x': "Meta x' = Meta x" "FileDirectory x' = FileDirectory x"
    using served_state [of "Os c t" f x] by (simp_all add: g)
  define s where "s = (if self = t then x' else y)"
  define str where "str = arriving l all e"
  obtain ok' dir bw where rf: "receive_file (Os c self) (Some str) lf (LocalDirectory s) (Bandwidth s) = (ok', dir, bw)"
    by (metis surj_pair)
  have works: "(ok' \<longleftrightarrow> \<not> snd str) \<and> (ok' \<longrightarrow> map_of dir (Base lf) = Some (stream_data (fst str)))"
    using receive_file_works [OF os, of "fst str" "snd str"] rf by simp
  let ?s = "s\<lparr>LocalDirectory := dir, Downloads := unlink dir (Downloads s), Bandwidth := bw\<rparr>"
  have "ReceiveFileFromNode self t f False lf c = (ok',
      put_node self ?s (put_node t x' (c\<lparr>Network := tl (Network c)\<rparr>)))"
    using False x y g rf
    by (simp add: ReceiveFileFromNode_def next_link_eq Let_def s_def str_def l_def node_def put_node_def update_conv' split: if_splits)
  then have r: "ok = ok'"
    "c1 = put_node self ?s (put_node t x' (c\<lparr>Network := tl (Network c)\<rparr>))"
    using recv by simp_all
  have serve: "serves c t f d \<longleftrightarrow> e = None \<and> stream_data all = d" for d
    using x g by (simp add: serves_def)
  have "storage a c1 = storage a c" for a
    using x y x' by (cases "self = t") (simp_all add: r(2) s_def storage_node)
  moreover have "Os c1 = Os c" "Network c1 = tl (Network c)" by (simp_all add: r(2) put_node_def)
  moreover have "ok \<longrightarrow> serves c t f (stream_data all) \<and> map_of dir (Base lf) = Some (stream_data all)"
    using works by (auto simp: r(1) serve str_def arriving_def split: link.splits option.splits)
  moreover have "node self c1 = Some ?s" by (simp add: r(2))
  moreover have "link_at 0 c = Up \<and> (\<exists>d. serves c t f d) \<longrightarrow> ok"
    using works by (auto simp: r(1) serve str_def arriving_def l_def)
  ultimately show ?thesis by fastforce
qed

text \<open>A download that takes its time, and any attempt.\<close>

lemma slow_any:
  assumes y: "node self c = Some y" and slow: "slow_download self t f lf l sched c = (ok, c1)"
  shows "Os c1 = Os c \<and> Network c1 = Network c \<and> (\<forall>a. storage a c1 = storage a c) \<and> (sched = [] \<longrightarrow> \<not> ok)"
proof (cases "node t c")
  case (Some x)
  obtain all e x' where g: "HyDFS_GetFile (Os c t) f x = ((all, e), x')" by (metis surj_pair)
  have x': "Meta x' = Meta x" "FileDirectory x' = FileDirectory x"
    using served_state [of "Os c t" f x] by (simp_all add: g)
  define s where "s = (if self = t then x' else y)"
  define new where "new = s\<lparr>Downloads := Downloads s @ [new_download lf (arriving l all e)]\<rparr>"
  define picks where "picks = map ((-) (length (Downloads s))) sched"
  obtain r s' where run: "run_until (Os c self) (length (Downloads s)) picks new = (r, s')" by fastforce
  have s': "Meta s' = Meta s" "FileDirectory s' = FileDirectory s"
    using moves_run [of new "Os c self" "length (Downloads s)" picks] unfolding run by (auto simp: moves_def new_def)
  have "slow_download self t f lf l sched c = (r = Some True, put_node self s' (put_node t x' c))"
    using y Some g run by (simp add: slow_download_def Let_def s_def new_def picks_def split: if_splits)
  then have r: "ok = (r = Some True)" "c1 = put_node self s' (put_node t x' c)" using slow by simp_all
  have "storage a c1 = storage a c" for a
    using Some y x' s' by (cases "self = t") (simp_all add: r(2) s_def storage_node)
  moreover have "sched = [] \<longrightarrow> \<not> ok" using run by (auto simp: picks_def r(1))
  ultimately show ?thesis by (simp add: r(2) put_node_def)
qed (use slow in \<open>auto simp: slow_download_def y\<close>)

lemma attempt_any:
  assumes y: "node self c = Some y" and os: "disk_works (Os c self) (Base lf)"
    and att: "download_attempt self t f lf c = (ok, c1)"
  shows "Os c1 = Os c \<and> Network c1 = tl (Network c) \<and> (\<forall>a. storage a c1 = storage a c) \<and>
    (ok \<longrightarrow> (\<exists>b sched. link_at 0 c = Slow b sched) \<or>
      (\<exists>d y1. serves c t f d \<and> node self c1 = Some y1 \<and> map_of (LocalDirectory y1) (Base lf) = Some d)) \<and>
    (link_at 0 c = Up \<and> (\<exists>d. serves c t f d) \<longrightarrow> ok)"
proof -
  let ?c = "c\<lparr>Network := tl (Network c)\<rparr>"
  have slow: "Os c1 = Os c \<and> Network c1 = tl (Network c) \<and> (\<forall>a. storage a c1 = storage a c) \<and> (sched = [] \<longrightarrow> \<not> ok)"
    if "slow_download self t f lf l sched ?c = (ok, c1)" for l sched
    using slow_any [of self ?c y t f lf l sched ok c1] that y by (simp add: node_Network)
  show ?thesis
  proof (cases "link_at 0 c")
    case Late
    then show ?thesis using att slow [of Late "[]"] by (simp add: download_attempt_def next_link_eq)
  next
    case (Slow b sched)
    then show ?thesis using att slow [of "Slow b sched" sched] by (simp add: download_attempt_def next_link_eq)
  qed (use att receive_any [OF y os, of t f ok c1] in \<open>simp_all add: download_attempt_def next_link_eq\<close>)
qed

lemma link_at_tl: "Network c1 = tl (Network c) \<Longrightarrow> link_at i c1 = link_at (Suc i) c"
  by (cases "Network c") (simp_all add: link_at_def)

text \<open>The \<open>i\<close>-th attempt has answered with what its target serves, or it was slow.\<close>

definition answered :: "string \<Rightarrow> string \<Rightarrow> string \<Rightarrow> string list \<Rightarrow> Cluster \<Rightarrow> string \<Rightarrow> Cluster \<Rightarrow> bool" where
  "answered self f lf as c a c' \<longleftrightarrow> (\<exists>i < length as. as ! i = a \<and> ((\<exists>b sched. link_at i c = Slow b sched) \<or>
     (\<exists>d y. serves c a f d \<and> node self c' = Some y \<and> map_of (LocalDirectory y) (Base lf) = Some d)))"

lemma answered_map: "answered self f lf (map Address ts) c a c' \<longleftrightarrow> (\<exists>i < length ts. Address (ts ! i) = a \<and>
    ((\<exists>b sched. link_at i c = Slow b sched) \<or>
     (\<exists>d y. serves c a f d \<and> node self c' = Some y \<and> map_of (LocalDirectory y) (Base lf) = Some d)))"
  by (simp add: answered_def cong: conj_cong)

lemma try_targets_any:
  assumes "node self c \<noteq> None" and "disk_works (Os c self) (Base lf)" and "try_targets self f lf as c = (src, c')"
  shows "(\<forall>a. storage a c' = storage a c) \<and>
    (\<forall>a. src = Some a \<longrightarrow> answered self f lf as c a c') \<and>
    ((\<exists>i < length as. link_at i c = Up \<and> (\<exists>d. serves c (as ! i) f d)) \<longrightarrow> src \<noteq> None)"
  using assms
proof (induction as arbitrary: c)
  case (Cons t as)
  obtain y where y: "node self c = Some y" using Cons.prems(1) by auto
  obtain ok c1 where att: "download_attempt self t f lf c = (ok, c1)" by fastforce
  note any = attempt_any [OF y Cons.prems(2) att]
  show ?case
  proof (cases ok)
    case True
    then have "src = Some t" "c' = c1" using Cons.prems(3) att by simp_all
    then show ?thesis using any True by (auto simp: answered_def intro!: exI [of _ 0])
  next
    case False
    then have rest: "try_targets self f lf as c1 = (src, c')" using Cons.prems(3) att by simp
    have "storage self c1 = storage self c" using any by blast
    then have "node self c1 \<noteq> None" using y storage_None [of self c] storage_None [of self c1] by auto
    moreover have "disk_works (Os c1 self) (Base lf)" using any Cons.prems(2) by simp
    ultimately have IH: "(\<forall>a. storage a c' = storage a c1) \<and>
        (\<forall>a. src = Some a \<longrightarrow> answered self f lf as c1 a c') \<and>
        ((\<exists>i < length as. link_at i c1 = Up \<and> (\<exists>d. serves c1 (as ! i) f d)) \<longrightarrow> src \<noteq> None)"
      using rest by (intro Cons.IH)
    have same: "serves c1 a f d \<longleftrightarrow> serves c a f d" for a d using any by (intro serves_cong) simp_all
    have links: "link_at i c1 = link_at (Suc i) c" for i using any link_at_tl by blast
    have found: "src \<noteq> None" if i: "i < Suc (length as)" "link_at i c = Up" "serves c ((t # as) ! i) f d" for i d
    proof (cases i)
      case 0
      then have ok using any i by auto
      then show ?thesis using False by simp
    next
      case (Suc j)
      then have "link_at j c1 = Up" "j < length as" "serves c1 (as ! j) f d" using i links same by simp_all
      then show ?thesis using IH [THEN conjunct2, THEN conjunct2] by blast
    qed
    have "\<forall>a. storage a c' = storage a c" using IH any by simp
    moreover have "answered self f lf (t # as) c a c'" if "src = Some a" for a
      using IH [THEN conjunct2, THEN conjunct1, rule_format, OF that] links same
      by (force simp: answered_def)
    moreover have "(\<exists>i < length (t # as). link_at i c = Up \<and> (\<exists>d. serves c ((t # as) ! i) f d)) \<longrightarrow> src \<noteq> None"
    proof
      assume "\<exists>i < length (t # as). link_at i c = Up \<and> (\<exists>d. serves c ((t # as) ! i) f d)"
      then obtain i d where "i < Suc (length as)" "link_at i c = Up" "serves c ((t # as) ! i) f d" by auto
      then show "src \<noteq> None" by (rule found)
    qed
    ultimately show ?thesis by blast
  qed
qed simp

lemma read_any:
  assumes "node self c = Some s" and "disk_works (Os c self) (Base lf)"
    and ts: "findTargetNodes (Members s) (file_hash s f) (ReplicationFactor (Config s)) = Inr ts"
    and get: "handleGet self f lf c = (src, c')"
  shows "(\<forall>a. src = Some a \<longrightarrow> answered self f lf (map Address ts) c a c') \<and>
    ((\<exists>i < length ts. link_at i c = Up \<and> (\<exists>d. serves c (Address (ts ! i)) f d)) \<longrightarrow> src \<noteq> None) \<and>
    (\<forall>a. storage a c' = storage a c)"
proof -
  have "try_targets self f lf (map Address ts) c = (src, c')"
    using assms by (simp add: handleGet_def GetAll_def file_hash_def)
  from try_targets_any [OF _ assms(2) this] assms(1) show ?thesis by (auto simp: nth_map)
qed

text \<open>
  C6. Reads survive failures: let a \<open>handleGet\<close> report success, whatever became of the calls and of the
  targets' disks, and whatever downloads of earlier attempts are still running. If no other download of
  the node moved while the answering one ran, the local file has exactly the contents, appends included,
  that the answering target serves (a \<open>Slow\<close> download is one during which others move, or whose time
  runs out; what becomes of those is in \<open>Slow_Reads\<close>). The get succeeds as soon
  as one target serves the file and the call to it, counted in the order of the targets, gets through
  in time; and it changes no stored file and no metadata of any node.
\<close>

theorem reads_survive_failures:
  assumes "node self c = Some s" and "disk_works (Os c self) (Base lf)"
    and ts: "findTargetNodes (Members s) (file_hash s f) (ReplicationFactor (Config s)) = Inr ts"
    and get: "handleGet self f lf c = (src, c')"
  shows "(\<forall>a. src = Some a \<longrightarrow> (\<exists>i < length ts. Address (ts ! i) = a \<and>
      ((\<exists>b sched. link_at i c = Slow b sched) \<or>
       (\<exists>d y. serves c a f d \<and> node self c' = Some y \<and> map_of (LocalDirectory y) (Base lf) = Some d)))) \<and>
    ((\<exists>i < length ts. link_at i c = Up \<and> (\<exists>d. serves c (Address (ts ! i)) f d)) \<longrightarrow> src \<noteq> None) \<and>
    (\<forall>a. storage a c' = storage a c)"
  using read_any [OF assms] unfolding answered_map .

lemma stocked_serves:
  assumes "t \<in> set trio"
  shows "serves (stocked_cluster\<lparr>Network := n\<rparr>) (Address t) ''f'' d \<longleftrightarrow> d = [9]"
proof -
  have "node (Address t) (stocked_cluster\<lparr>Network := n\<rparr>) = Some (stocked_server (Address t))"
    using assms by (auto simp: node_Network trio_def)
  moreover have "Os (stocked_cluster\<lparr>Network := n\<rparr>) = (\<lambda>_. no_faults)"
    using stocked_simps(7) by (simp add: calm_def)
  moreover have "get_loop no_faults [(''f'', [9])] ''f'' [''f''] = (map (data_chunk ''f'') (chunks_of [9]), None)"
    by (simp add: no_faults_def Let_def)
  ultimately show ?thesis
    by (auto simp: serves_def served_stream example_file_def stream_data_chunks simp del: get_loop.simps)
qed

theorem reads_survive_failures_witness:
  "\<exists>src c'. handleGet ''127.0.0.1:5001'' ''f'' ''b.txt'' (stocked_cluster\<lparr>Network := [Unreachable, Late]\<rparr>) = (src, c') \<and>
    src \<noteq> None \<and> (\<exists>y. node ''127.0.0.1:5001'' c' = Some y \<and> map_of (LocalDirectory y) ''b.txt'' = Some [9])"
proof -
  let ?c = "stocked_cluster\<lparr>Network := [Unreachable, Late]\<rparr>" and ?s = "stocked_server ''127.0.0.1:5001''"
  obtain ts where ts: "findTargetNodes trio (file_hash ?s ''f'') 3 = Inr ts" "set ts \<subseteq> set trio" "length ts = 3"
    using trio_targets by blast
  obtain src c' where get: "handleGet ''127.0.0.1:5001'' ''f'' ''b.txt'' ?c = (src, c')" by fastforce
  have os: "Os ?c = (\<lambda>_. no_faults)" using stocked_simps(7) by (simp add: calm_def)
  have "node ''127.0.0.1:5001'' ?c = Some ?s" by (simp add: node_Network)
  moreover have "disk_works (Os ?c ''127.0.0.1:5001'') (Base ''b.txt'')" by (simp add: os disk_works_def no_faults_def)
  moreover have "findTargetNodes (Members ?s) (file_hash ?s ''f'') (ReplicationFactor (Config ?s)) = Inr ts"
    using ts(1) by simp
  ultimately have read: "(\<forall>a. src = Some a \<longrightarrow> (\<exists>i < length ts. Address (ts ! i) = a \<and> ((\<exists>b sched. link_at i ?c = Slow b sched) \<or>
      (\<exists>d y. serves ?c a ''f'' d \<and> node ''127.0.0.1:5001'' c' = Some y \<and> map_of (LocalDirectory y) (Base ''b.txt'') = Some d)))) \<and>
    ((\<exists>i < length ts. link_at i ?c = Up \<and> (\<exists>d. serves ?c (Address (ts ! i)) ''f'' d)) \<longrightarrow> src \<noteq> None) \<and>
    (\<forall>a. storage a c' = storage a ?c)"
    using get by (rule reads_survive_failures)
  have "ts ! 2 \<in> set trio" using ts(2,3) nth_mem [of 2 ts] by auto
  then have "link_at 2 ?c = Up \<and> serves ?c (Address (ts ! 2)) ''f'' [9]" by (simp add: stocked_serves link_at_def)
  then have some: "src \<noteq> None" using read ts(3) by (auto intro!: exI [of _ 2])
  have "link_at i ?c \<noteq> Slow b sched" for i b sched
    by (cases i; cases "i - 1") (simp_all add: link_at_def)
  with read [THEN conjunct1] some obtain i d y where "i < length ts" "serves ?c (Address (ts ! i)) ''f'' d" "node ''127.0.0.1:5001'' c' = Some y"
    "map_of (LocalDirectory y) (Base ''b.txt'') = Some d"
    by auto
  moreover have "ts ! i \<in> set trio" using ts(2) nth_mem [OF \<open>i < length ts\<close>] by blast
  ultimately show ?thesis using get some by (auto simp: stocked_serves Base_def)
qed

section \<open>Creates that were acknowledged\<close>

text \<open>
  The node has no file of that name; it has it with this metadata and these contents; and a node whose
  other files, and the file itself if it was there, are as before.
\<close>

definition fresh :: "string \<Rightarrow> string \<Rightarrow> Cluster \<Rightarrow> bool" where
  "fresh a f c \<longleftrightarrow> (\<exists>M dir. storage a c = Some (M, dir) \<and> GetFile M f = None)"

definition stores :: "Cluster \<Rightarrow> string \<Rightarrow> FileMetadata \<Rightarrow> bytes \<Rightarrow> bool" where
  "stores c a m d \<longleftrightarrow> (\<exists>M dir. storage a c = Some (M, dir) \<and> GetFile M (FileName m) = Some m \<and>
     map_of dir (FileName m) = Some d)"

definition only_file :: "string \<Rightarrow> string \<Rightarrow> Cluster \<Rightarrow> Cluster \<Rightarrow> bool" where
  "only_file f a c c' \<longleftrightarrow>
     (case (storage a c, storage a c') of
        (None, None) \<Rightarrow> True
      | (Some (M, dir), Some (M', dir')) \<Rightarrow>
          (\<forall>g. g \<noteq> f \<longrightarrow> GetFile M' g = GetFile M g \<and> map_of dir' g = map_of dir g) \<and>
          (GetFile M f \<noteq> None \<longrightarrow> M' = M \<and> dir' = dir)
      | _ \<Rightarrow> False)"

lemma only_file_same: "storage a c' = storage a c \<Longrightarrow> only_file f a c c'"
  by (auto simp: only_file_def split: option.split)

lemma only_file_trans: "only_file f a c c1 \<Longrightarrow> only_file f a c1 c2 \<Longrightarrow> only_file f a c c2"
  by (cases "storage a c"; cases "storage a c1"; cases "storage a c2") (simp_all add: only_file_def case_prod_beta)

lemma only_file_None: "only_file f a c c' \<Longrightarrow> storage a c = None \<Longrightarrow> storage a c' = None"
  by (auto simp: only_file_def split: option.splits)

lemma only_file_fresh: "only_file f a c c' \<Longrightarrow> fresh a f c' \<Longrightarrow> fresh a f c"
  by (auto simp: only_file_def fresh_def split: option.splits)

lemma only_file_stores: "only_file (FileName m) a c c' \<Longrightarrow> stores c a m d \<Longrightarrow> stores c' a m d"
  by (auto simp: only_file_def stores_def split: option.splits)

lemma stores_not_fresh: "stores c a m d \<Longrightarrow> \<not> fresh a (FileName m) c"
  by (auto simp: stores_def fresh_def)

lemma storage_add_sent [simp]: "storage a (add_sent self ds c) = storage a c"
  by (auto simp: add_sent_def storage_node split: option.split)

text \<open>One upload, whatever becomes of it.\<close>

lemma transfer_any:
  assumes "data \<noteq> []" "FileName m \<noteq> ''''" "FileContentHash m \<noteq> ''''"
    and chunks: "\<not> broken \<Longrightarrow> chunks = file_chunks data m"
  obtains status x' where "FileTransfer os chunks broken x = Inr (status, x')"
    "\<And>g. g \<noteq> FileName m \<Longrightarrow> GetFile (Meta x') g = GetFile (Meta x) g \<and> map_of (FileDirectory x') g = map_of (FileDirectory x) g"
    "GetFile (Meta x) (FileName m) \<noteq> None \<Longrightarrow> Meta x' = Meta x \<and> FileDirectory x' = FileDirectory x"
    "status = UploadOk \<Longrightarrow> GetFile (Meta x) (FileName m) = None \<and>
       GetFile (Meta x') (FileName m) = Some (m\<lparr>FileNameHash := to_int32 (FileNameHash m), Appends := []\<rparr>) \<and>
       map_of (FileDirectory x') (FileName m) = Some data"
    "status \<noteq> UploadOk \<Longrightarrow> Meta x' = Meta x"
proof (cases broken)
  case True
  obtain r where "recv_file chunks '''' [] None (Bandwidth x) = r" by blast
  then show ?thesis using True that [of "UploadFailed ReceiveError" "x\<lparr>Bandwidth := snd (snd (snd r))\<rparr>"]
    by (cases r) (simp add: FileTransfer_def Let_def)
next
  case False
  let ?m = "m\<lparr>FileNameHash := to_int32 (FileNameHash m), Appends := []\<rparr>"
  let ?x = "x\<lparr>Bandwidth := fold (\<lambda>b. AddReceived (chunk_bytes b)) (chunks_of data) (Bandwidth x)\<rparr>"
  note recv = recv_file_chunks [OF assms(1-3), of "Bandwidth x", folded chunks [OF False]]
  obtain ok dir where w: "WriteFile os (FileName m) data (FileDirectory x) = (ok, dir)" by fastforce
  have other: "map_of dir g = map_of (FileDirectory x) g" if "g \<noteq> FileName m" for g
    using WriteFile_other [OF that, of os data "FileDirectory x"] by (simp add: w)
  consider "GetFile (Meta x) (FileName m) \<noteq> None" | "GetFile (Meta x) (FileName m) = None" "MkdirFails os"
    | "GetFile (Meta x) (FileName m) = None" "\<not> MkdirFails os" "\<not> ok"
    | "GetFile (Meta x) (FileName m) = None" "\<not> MkdirFails os" "ok" by blast
  then show ?thesis
  proof cases
    case 1
    then show ?thesis using False recv that [of "UploadFailed FileExists" ?x] by (simp add: FileTransfer_def Let_def)
  next
    case 2
    then show ?thesis using False recv that [of "UploadFailed MkdirError" ?x]
      by (simp add: FileTransfer_def Let_def saveFile_def)
  next
    case 3
    then show ?thesis using False recv w other that [of "UploadFailed WriteError" "?x\<lparr>FileDirectory := dir\<rparr>"]
      by (simp add: FileTransfer_def Let_def saveFile_def)
  next
    case 4
    then have "map_of dir (FileName m) = Some data"
      using w by (auto simp: WriteFile_def split: if_splits option.splits)
    then show ?thesis using 4 False recv w other that [of UploadOk "?x\<lparr>FileDirectory := dir, Meta := AddFile ?m (Meta x)\<rparr>"]
      by (simp add: FileTransfer_def Let_def saveFile_def GetFile_AddFile)
  qed
qed

definition stored_form :: "FileMetadata \<Rightarrow> FileMetadata" where
  "stored_form m = m\<lparr>FileNameHash := to_int32 (FileNameHash m), Appends := []\<rparr>"

lemma send_any:
  assumes "data \<noteq> []" "FileName m \<noteq> ''''" "FileContentHash m \<noteq> ''''"
    and send: "SendFileToNode self t data m c = (ok, c1)"
  shows "(\<forall>a. a \<noteq> t \<longrightarrow> storage a c1 = storage a c) \<and> only_file (FileName m) t c c1 \<and>
    (ok \<longrightarrow> fresh t (FileName m) c \<and> stores c1 t (stored_form m) data) \<and>
    (fresh t (FileName m) c \<longrightarrow> fresh t (FileName m) c1 \<or> stores c1 t (stored_form m) data)"
proof (cases "node self c = None \<or> node t c = None \<or> link_at 0 c = Unreachable")
  case True
  then have "(ok, c1) = (False, c\<lparr>Network := tl (Network c)\<rparr>)"
    using send by (auto simp: SendFileToNode_def next_link_eq node_def)
  then show ?thesis by (simp add: only_file_same fresh_def)
next
  case False
  define l where "l = link_at 0 c"
  have up: "node self c \<noteq> None" "node t c \<noteq> None" "l \<noteq> Unreachable" using False by (simp_all add: l_def)
  define broken where "broken = (case l of Broken n \<Rightarrow> True | _ \<Rightarrow> False)"
  define chunks where "chunks = (case l of Broken n \<Rightarrow> take n (file_chunks data m) | _ \<Rightarrow> file_chunks data m)"
  define c2 where "c2 = add_sent self (map Data chunks) (c\<lparr>Network := tl (Network c)\<rparr>)"
  have same: "storage a c2 = storage a c" for a by (simp add: c2_def)
  then obtain x where x: "node t c2 = Some x" using False storage_None by (metis option.exhaust)
  then have xs: "storage t c = Some (Meta x, FileDirectory x)" using same [of t] by (simp add: storage_node)
  have chunks: "\<not> broken \<Longrightarrow> chunks = file_chunks data m"
    by (cases l) (simp_all add: broken_def chunks_def)
  obtain status x' where ft: "FileTransfer (Os c t) chunks broken x = Inr (status, x')"
    and x': "\<And>g. g \<noteq> FileName m \<Longrightarrow> GetFile (Meta x') g = GetFile (Meta x) g \<and> map_of (FileDirectory x') g = map_of (FileDirectory x) g"
      "GetFile (Meta x) (FileName m) \<noteq> None \<Longrightarrow> Meta x' = Meta x \<and> FileDirectory x' = FileDirectory x"
      "status = UploadOk \<Longrightarrow> GetFile (Meta x) (FileName m) = None \<and>
         GetFile (Meta x') (FileName m) = Some (m\<lparr>FileNameHash := to_int32 (FileNameHash m), Appends := []\<rparr>) \<and>
         map_of (FileDirectory x') (FileName m) = Some data"
      "status \<noteq> UploadOk \<Longrightarrow> Meta x' = Meta x"
    by (rule transfer_any [OF assms(1-3), where broken = broken and chunks = chunks and os = "Os c t" and x = x])
      (rule chunks, assumption, rule that, assumption+)
  have r: "ok = (l = Up \<and> status = UploadOk)" "c1 = put_node t x' c2"
    using send up x ft
    by (simp_all add: SendFileToNode_def next_link_eq node_Network Let_def flip: l_def broken_def chunks_def c2_def)
  have "only_file (FileName m) t c c1" using x' xs by (simp add: only_file_def r(2) same)
  moreover have "ok \<longrightarrow> fresh t (FileName m) c \<and> stores c1 t (stored_form m) data"
    using x'(3) xs by (auto simp: r fresh_def stores_def stored_form_def)
  moreover have "fresh t (FileName m) c \<longrightarrow> fresh t (FileName m) c1 \<or> stores c1 t (stored_form m) data"
    using x'(3,4) xs by (cases "status = UploadOk") (auto simp: r fresh_def stores_def stored_form_def)
  ultimately show ?thesis by (simp add: r(2) same)
qed

lemma send_all_any:
  assumes "data \<noteq> []" "FileName m \<noteq> ''''" "FileContentHash m \<noteq> ''''"
    and "send_all (\<lambda>a. SendFileToNode self a data m) as c = (n, c1)"
  shows "(\<forall>a. a \<notin> set as \<longrightarrow> storage a c1 = storage a c) \<and> (\<forall>a. only_file (FileName m) a c c1) \<and>
    n \<le> card {a \<in> set as. fresh a (FileName m) c \<and> stores c1 a (stored_form m) data} \<and>
    (\<forall>a. fresh a (FileName m) c \<longrightarrow> fresh a (FileName m) c1 \<or> stores c1 a (stored_form m) data)"
  using assms(4)
proof (induction as arbitrary: c n)
  case Nil
  then show ?case by (simp add: only_file_same fresh_def)
next
  case (Cons t as)
  let ?f = "FileName m" and ?m = "stored_form m"
  obtain ok c2 where send: "SendFileToNode self t data m c = (ok, c2)" by fastforce
  obtain k where rest: "send_all (\<lambda>a. SendFileToNode self a data m) as c2 = (k, c1)" "n = (if ok then Suc k else k)"
    using Cons.prems send by (auto split: prod.splits)
  note one = send_any [OF assms(1-3) send] and IH = Cons.IH [OF rest(1)]
  have only: "only_file ?f a c c2" for a using one by (cases "a = t") (simp_all add: only_file_same)
  let ?S = "{a \<in> set as. fresh a ?f c2 \<and> stores c1 a ?m data}"
  let ?T = "{a \<in> set (t # as). fresh a ?f c \<and> stores c1 a ?m data}"
  have "?S \<subseteq> ?T" using only_file_fresh [OF only] by auto
  moreover have "t \<in> ?T - ?S" if ok
  proof -
    have t: "fresh t ?f c" "stores c2 t ?m data" using one that by simp_all
    then have "stores c1 t ?m data" using IH only_file_stores [of ?m t c2 c1 data] by (simp add: stored_form_def)
    moreover have "\<not> fresh t ?f c2" using stores_not_fresh [OF t(2)] by (simp add: stored_form_def)
    ultimately show ?thesis using t(1) by simp
  qed
  moreover have "finite ?T" by simp
  ultimately have "n \<le> card ?T" using IH rest(2) card_mono [of ?T ?S] psubset_card_mono [of ?T ?S]
    by (cases ok) fastforce+
  moreover have "only_file ?f a c c1" for a by (rule only_file_trans [OF only]) (use IH in blast)
  moreover have "fresh a ?f c1 \<or> stores c1 a ?m data" if "fresh a ?f c" for a
  proof -
    have "storage a c2 = storage a c" if "a \<noteq> t" using one that by simp
    then have "fresh a ?f c2 \<or> stores c2 a ?m data" using one that by (cases "a = t") (simp_all add: fresh_def)
    then show ?thesis using IH only_file_stores [of ?m a c2 c1 data] by (auto simp: stored_form_def)
  qed
  ultimately show ?case using IH one by simp
qed

lemma create_any:
  assumes s: "node self c = Some s" and f: "f \<noteq> ''''" and bits: "HashBits (Config s) \<le> 31"
    and ts: "findTargetNodes (Members s) (file_hash s f) (ReplicationFactor (Config s)) = Inr ts"
    and data: "map_of (LocalDirectory s) (Base lf) = Some data" "data \<noteq> []"
    and sched: "\<And>xs. mset (sched xs) = mset xs"
    and create: "handleCreate self sched now lf f c = (Completed n k, c1)"
  shows "k = length ts \<and>
    n \<le> card {a \<in> Address ` set ts. fresh a f c \<and> stores c1 a (new_file now s f data) data} \<and>
    (\<forall>a. only_file f a c c1) \<and> (\<forall>a. a \<notin> Address ` set ts \<longrightarrow> storage a c1 = storage a c) \<and>
    (\<forall>a. fresh a f c \<longrightarrow> fresh a f c1 \<or> stores c1 a (new_file now s f data) data)"
proof -
  let ?m = "new_file now s f data" and ?as = "sched (map Address ts)"
  have m: "FileName ?m = f" "FileContentHash ?m \<noteq> ''''" "Appends ?m = []" "FileNameHash ?m = file_hash s f"
    by (simp_all add: new_file_def contentHash_nonempty)
  have "0 \<le> file_hash s f \<and> file_hash s f < 2 ^ HashBits (Config s)"
    unfolding file_hash_def using HashToMbits_range by blast
  moreover have "(2 :: int) ^ HashBits (Config s) \<le> 2 ^ 31" using bits by (intro power_increasing) simp_all
  ultimately have "to_int32 (FileNameHash ?m) = FileNameHash ?m" unfolding m(4) by (intro to_int32_small) linarith+
  then have form: "stored_form ?m = ?m" using m by (simp add: stored_form_def)
  have as: "set ?as = Address ` set ts" using same_mset [OF sched [of "map Address ts"]] by simp
  have "send_all (\<lambda>a. SendFileToNode self a data ?m) ?as c = (n, c1) \<and> k = length ts"
    using create s ts data(1)
    by (auto simp: handleCreate_def GetAll_def ReadFile_def split: prod.splits option.splits if_splits)
  then show ?thesis using send_all_any [of data ?m self ?as c n c1] f data(2) m by (simp add: form as)
qed

text \<open>The first two of three uploads are lost.\<close>

definition lossy_cluster :: Cluster where
  "lossy_cluster = trio_cluster\<lparr>Network := [Unreachable, Unreachable]\<rparr>"

lemma send_lost:
  "node self c \<noteq> None \<Longrightarrow> Network c = Unreachable # n \<Longrightarrow> SendFileToNode self t d m c = (False, c\<lparr>Network := n\<rparr>)"
  by (auto simp: SendFileToNode_def next_link_def)

lemma lossy_create:
  "\<exists>ts c1. findTargetNodes trio (file_hash (trio_server ''127.0.0.1:5000'') ''f'') 3 = Inr ts \<and>
    length ts = 3 \<and> distinct (map Address ts) \<and> set ts \<subseteq> set trio \<and>
    handleCreate ''127.0.0.1:5000'' id 0 ''a.txt'' ''f'' lossy_cluster = (Completed 1 3, c1) \<and>
    calm c1 \<and> (\<exists>s. node ''127.0.0.1:5001'' c1 = Some s \<and> Members s = trio \<and> Config s = example_config)"
proof -
  let ?self = "''127.0.0.1:5000''" and ?s = "trio_server ''127.0.0.1:5000''"
  let ?m = "new_file 0 ?s ''f'' [1, 2, 3]"
  obtain ts where ts: "findTargetNodes trio (file_hash ?s ''f'') 3 = Inr ts" "distinct (map Address ts)" "set ts \<subseteq> set trio"
    "length ts = 3" using trio_targets by blast
  then obtain a b t where abt: "ts = [a, b, t]" by (auto simp: length_Suc_conv eval_nat_numeral)
  obtain ok c1 where send: "SendFileToNode ?self (Address t) [1, 2, 3] ?m trio_cluster = (ok, c1)" by fastforce
  have m: "FileName ?m = ''f''" "FileContentHash ?m \<noteq> ''''" "FileNameHash ?m = file_hash ?s ''f''"
    by (simp_all add: new_file_def contentHash_nonempty)
  have "0 \<le> file_hash ?s ''f'' \<and> file_hash ?s ''f'' < 2 ^ HashBits (Config ?s)"
    unfolding file_hash_def using HashToMbits_range by blast
  moreover have "(2 :: int) ^ HashBits (Config ?s) \<le> 2 ^ 31" by (intro power_increasing) simp_all
  ultimately have h: "- (2 ^ 31) \<le> FileNameHash ?m" "FileNameHash ?m < 2 ^ 31" unfolding m(3) by linarith+
  have "node (Address t) trio_cluster = Some (trio_server (Address t))" using ts(3) abt by (intro trio_nodes) simp
  then have view: "view (Address t) trio_cluster = Some (trio_server (Address t)\<lparr>Bandwidth := \<lparr>BytesSent = 0, BytesReceived = 0\<rparr>\<rparr>)"
    by (simp add: view_def)
  have calm: "calm trio_cluster" by (simp add: calm_def)
  note up = send_up [OF calm _ view, of ?self ?m "[1, 2, 3]", unfolded send]
  have fresh: "GetFile new_Metadata g = None" for g by (simp add: GetFile_def new_Metadata_def)
  have ok: ok using up(1) m h by (simp add: fresh)
  have c1: "becomes (Address t) (store_file (?m\<lparr>Appends := []\<rparr>) [1, 2, 3]
      (trio_server (Address t)\<lparr>Bandwidth := \<lparr>BytesSent = 0, BytesReceived = 0\<rparr>\<rparr>)) trio_cluster c1"
    using up(2) m h by (simp add: fresh)
  have "node ?self lossy_cluster = Some ?s" by (simp add: lossy_cluster_def node_Network)
  moreover have same: "trio_cluster\<lparr>Network := []\<rparr> = trio_cluster" by (simp add: trio_cluster_def)
  ultimately have "handleCreate ?self id 0 ''a.txt'' ''f'' lossy_cluster = (Completed 1 3, c1)"
    using ts(1) send ok
    by (simp add: handleCreate_def abt GetAll_def lossy_cluster_def send_lost node_Network ReadFile_def Base_def
        no_faults_def same eval_nat_numeral)
  moreover have "\<exists>s. node ''127.0.0.1:5001'' c1 = Some s \<and> Members s = trio \<and> Config s = example_config"
  proof -
    have "\<exists>x. view ''127.0.0.1:5001'' c1 = Some x \<and> Members x = trio \<and> Config x = example_config"
      using c1 by (auto simp: becomes_def view_def store_file_def)
    then show ?thesis by (auto simp: view_def)
  qed
  ultimately show ?thesis using ts c1 by (auto simp: becomes_def)
qed

text \<open>
  C7. What a create counts is stored: whatever becomes of the calls and of the targets' disks, if
  \<open>handleCreate\<close> reports \<open>n\<close> successes, then at least \<open>n\<close> targets that had no such file now have it, with
  its metadata and contents; every other file of every node, and every file of that name that was there
  before, is untouched; and nodes that are not targets store what they stored.
\<close>

theorem acknowledged_creates_are_stored:
  assumes "node self c = Some s" and "f \<noteq> ''''" and "HashBits (Config s) \<le> 31"
    and "findTargetNodes (Members s) (file_hash s f) (ReplicationFactor (Config s)) = Inr ts"
    and "map_of (LocalDirectory s) (Base lf) = Some data" "data \<noteq> []"
    and "\<And>xs. mset (sched xs) = mset xs"
    and "handleCreate self sched now lf f c = (Completed n k, c1)"
  shows "k = length ts \<and>
    n \<le> card {a \<in> Address ` set ts. fresh a f c \<and> stores c1 a (new_file now s f data) data} \<and>
    (\<forall>a. only_file f a c c1) \<and> (\<forall>a. a \<notin> Address ` set ts \<longrightarrow> storage a c1 = storage a c)"
  using create_any [OF assms] by blast

theorem acknowledged_creates_are_stored_witness:
  "\<exists>c1 ts. handleCreate ''127.0.0.1:5000'' id 0 ''a.txt'' ''f'' lossy_cluster = (Completed 1 3, c1) \<and>
    findTargetNodes trio (file_hash (trio_server ''127.0.0.1:5000'') ''f'') 3 = Inr ts \<and>
    (\<exists>t \<in> set ts. stores c1 (Address t) (new_file 0 (trio_server ''127.0.0.1:5000'') ''f'' [1, 2, 3]) [1, 2, 3])"
proof -
  let ?self = "''127.0.0.1:5000''" and ?s = "trio_server ''127.0.0.1:5000''"
  obtain ts c1 where ts: "findTargetNodes trio (file_hash ?s ''f'') 3 = Inr ts" "length ts = 3"
    and create: "handleCreate ?self id 0 ''a.txt'' ''f'' lossy_cluster = (Completed 1 3, c1)"
    using lossy_create by blast
  have "1 \<le> card {a \<in> Address ` set ts. fresh a ''f'' lossy_cluster \<and> stores c1 a (new_file 0 ?s ''f'' [1, 2, 3]) [1, 2, 3]}"
    using acknowledged_creates_are_stored [of ?self lossy_cluster ?s "''f''" ts "''a.txt''" "[1, 2, 3]" id 0 1 3 c1] ts create
    by (simp add: lossy_cluster_def node_Network Base_def)
  then have "\<exists>a \<in> Address ` set ts. stores c1 a (new_file 0 ?s ''f'' [1, 2, 3]) [1, 2, 3]"
    by (metis (no_types, lifting) card.empty empty_Collect_eq not_one_le_zero)
  then show ?thesis using ts(1) create by blast
qed

lemma stores_serves:
  assumes "stores c a m d" and "Appends m = []" and "\<not> OpenFails (Os c a) (FileName m)"
  shows "serves c a (FileName m) d' \<Longrightarrow> d' = d"
    and "ReadFails (Os c a) (FileName m) = None \<Longrightarrow> serves c a (FileName m) d"
proof -
  obtain M dir where st: "storage a c = Some (M, dir)" "GetFile M (FileName m) = Some m" "map_of dir (FileName m) = Some d"
    using assms(1) by (auto simp: stores_def)
  then have "serves c a (FileName m) e \<longleftrightarrow>
      (\<exists>all. get_loop (Os c a) dir (FileName m) [FileName m] = (all, None) \<and> stream_data all = e)" for e
    using assms(2) by (simp add: serves_storage del: get_loop.simps)
  moreover have "get_loop (Os c a) dir (FileName m) [FileName m] =
      (case ReadFails (Os c a) (FileName m) of
         Some n \<Rightarrow> (take n (map (data_chunk (FileName m)) (chunks_of d)), Some ReadError)
       | None \<Rightarrow> (map (data_chunk (FileName m)) (chunks_of d), None))"
    using st(3) assms(3) by (simp add: Let_def split: option.split)
  ultimately show "serves c a (FileName m) d' \<Longrightarrow> d' = d"
    and "ReadFails (Os c a) (FileName m) = None \<Longrightarrow> serves c a (FileName m) d"
    by (auto simp: stream_data_chunks split: option.splits)
qed

lemma fresh_serves: "fresh a f c \<Longrightarrow> \<not> serves c a f d"
  by (auto simp: fresh_def serves_storage)

lemma none_serves: "storage a c = None \<Longrightarrow> \<not> serves c a f d"
  by (simp add: serves_storage)

text \<open>
  C5. An acknowledged create can be read under failures: let \<open>handleCreate\<close> of a file that no target has
  report at least one success, whatever became of the other uploads. Then as long as the stored files
  stay and can be opened, a \<open>handleGet\<close> at any node with the same view of the ring, during whose downloads
  no other download of that node moves and which are lost, break off, never begin, or end in time, leaves
  exactly the created contents in the local file whenever it reports success; and it does if the calls to
  the targets get through, although any number of targets may be down. (Downloads that overlap are the
  subject of \<open>Slow_Reads\<close>.)
\<close>

theorem acknowledged_create_is_readable:
  assumes "node self c = Some s" and "f \<noteq> ''''" and "HashBits (Config s) \<le> 31"
    and ts: "findTargetNodes (Members s) (file_hash s f) (ReplicationFactor (Config s)) = Inr ts"
    and "map_of (LocalDirectory s) (Base lf) = Some data" "data \<noteq> []"
    and "\<And>xs. mset (sched xs) = mset xs"
    and "handleCreate self sched now lf f c = (Completed n k, c1)"
    and new: "\<forall>t \<in> set ts. fresh (Address t) f c \<or> node (Address t) c = None" and n: "1 \<le> n"
    and later: "\<forall>a. storage a c2 = storage a c1" "\<forall>t \<in> set ts. \<not> OpenFails (Os c2 (Address t)) f"
    and r: "node r c2 = Some sr" "Members sr = Members s" "Config sr = Config s" "disk_works (Os c2 r) (Base lf')"
    and prompt: "\<forall>i < length ts. \<forall>b sched. link_at i c2 \<noteq> Slow b sched"
    and get: "handleGet r f lf' c2 = (src, c3)"
  shows "(src \<noteq> None \<longrightarrow> (\<exists>y. node r c3 = Some y \<and> map_of (LocalDirectory y) (Base lf') = Some data)) \<and>
    ((\<forall>i < length ts. link_at i c2 = Up \<and> ReadFails (Os c2 (Address (ts ! i))) f = None) \<longrightarrow> src \<noteq> None)"
proof -
  let ?m = "new_file now s f data"
  note made = create_any [OF assms(1-8)]
  have m: "FileName ?m = f" "Appends ?m = []" by (simp_all add: new_file_def)
  have later1: "stores c2 a ?m data \<longleftrightarrow> stores c1 a ?m data" "fresh a f c2 \<longleftrightarrow> fresh a f c1" for a
    using later(1) by (simp_all add: stores_def fresh_def)
  have "findTargetNodes (Members sr) (file_hash sr f) (ReplicationFactor (Config sr)) = Inr ts"
    using ts r(2,3) by (simp add: file_hash_def)
  note read = read_any [OF r(1,4) this get]
  have at: "fresh (Address t) f c1 \<or> stores c1 (Address t) ?m data \<or> storage (Address t) c1 = None" if "t \<in> set ts" for t
  proof (cases "fresh (Address t) f c")
    case True
    then show ?thesis using made by blast
  next
    case False
    then have "storage (Address t) c = None" using new that unfolding storage_None by blast
    moreover have "only_file f (Address t) c c1" using made by blast
    ultimately show ?thesis by (simp add: only_file_None)
  qed
  have right: "d = data" if d: "serves c2 (Address t) f d" and t: "t \<in> set ts" for t d
  proof -
    have "stores c2 (Address t) ?m data"
      using at [OF t] d fresh_serves [of "Address t" f c2 d] none_serves [of "Address t" c2 f d] later(1) by (auto simp: later1)
    then show ?thesis by (rule stores_serves(1) [OF _ m(2)]) (use later(2) d t m in simp_all)
  qed
  have "\<exists>y. node r c3 = Some y \<and> map_of (LocalDirectory y) (Base lf') = Some data" if src: "src = Some a" for a
  proof -
    obtain i d y where i: "i < length ts" "serves c2 (Address (ts ! i)) f d" and y: "node r c3 = Some y" "map_of (LocalDirectory y) (Base lf') = Some d"
      using read [THEN conjunct1, rule_format, OF src] prompt unfolding answered_map by blast
    have "d = data" using right [OF i(2) nth_mem [OF i(1)]] .
    then show ?thesis using y by simp
  qed
  then have "src \<noteq> None \<longrightarrow> (\<exists>y. node r c3 = Some y \<and> map_of (LocalDirectory y) (Base lf') = Some data)" by auto
  moreover have "src \<noteq> None" if up: "\<forall>i < length ts. link_at i c2 = Up \<and> ReadFails (Os c2 (Address (ts ! i))) f = None"
  proof -
    have "{a \<in> Address ` set ts. fresh a f c \<and> stores c1 a ?m data} \<noteq> {}"
      using made n by (metis card.empty not_one_le_zero order_trans)
    then obtain t where t: "t \<in> set ts" "stores c2 (Address t) ?m data" by (auto simp: later1)
    then obtain i where i: "i < length ts" "ts ! i = t" by (metis in_set_conv_nth)
    have "serves c2 (Address t) (FileName ?m) data"
      by (rule stores_serves(2) [OF t(2) m(2)]) (use later(2) t(1) up i m in auto)
    then have "link_at i c2 = Up \<and> (\<exists>d. serves c2 (Address (ts ! i)) f d)" using up i m by auto
    then show ?thesis using read i(1) by blast
  qed
  ultimately show ?thesis by blast
qed

theorem acknowledged_create_is_readable_witness:
  "\<exists>c1 a c2 y. handleCreate ''127.0.0.1:5000'' id 0 ''a.txt'' ''f'' lossy_cluster = (Completed 1 3, c1) \<and>
    handleGet ''127.0.0.1:5001'' ''f'' ''b.txt'' c1 = (Some a, c2) \<and>
    node ''127.0.0.1:5001'' c2 = Some y \<and> map_of (LocalDirectory y) ''b.txt'' = Some [1, 2, 3]"
proof -
  let ?self = "''127.0.0.1:5000''" and ?s = "trio_server ''127.0.0.1:5000''" and ?r = "''127.0.0.1:5001''"
  obtain ts c1 sr where ts: "findTargetNodes trio (file_hash ?s ''f'') 3 = Inr ts" "set ts \<subseteq> set trio" "length ts = 3"
    and create: "handleCreate ?self id 0 ''a.txt'' ''f'' lossy_cluster = (Completed 1 3, c1)"
    and calm: "calm c1" and r: "node ?r c1 = Some sr" "Members sr = trio" "Config sr = example_config"
    using lossy_create by blast
  obtain src c2 where get: "handleGet ?r ''f'' ''b.txt'' c1 = (src, c2)" by fastforce
  have os: "Os c1 = (\<lambda>_. no_faults)" "link_at i c1 = Up" for i using calm by (simp_all add: calm_def link_at_def)
  have "fresh (Address t) ''f'' lossy_cluster" if "t \<in> set ts" for t
    using trio_nodes [OF subsetD [OF ts(2) that]]
    by (simp add: fresh_def storage_def lossy_cluster_def node_Network GetFile_def new_Metadata_def)
  then have "(src \<noteq> None \<longrightarrow> (\<exists>y. node ?r c2 = Some y \<and> map_of (LocalDirectory y) (Base ''b.txt'') = Some [1, 2, 3])) \<and>
    ((\<forall>i < length ts. link_at i c1 = Up \<and> ReadFails (Os c1 (Address (ts ! i))) ''f'' = None) \<longrightarrow> src \<noteq> None)"
    using ts(1) r by (intro acknowledged_create_is_readable [OF _ _ _ _ _ _ _ create _ _ _ _ r(1) _ _ _ _ get, where s = ?s])
      (simp_all add: lossy_cluster_def node_Network Base_def os disk_works_def no_faults_def)
  then show ?thesis using create get by (auto simp: os no_faults_def Base_def)
qed

end
