(* ===== verification/Fault_Appends.thy ===== *)
theory Fault_Appends
  imports Fault_Tolerance
begin

text \<open>
  Appending under failures: whatever becomes of the calls and of the targets' disks, a target that is
  counted lists the append and has its data, and nothing else of any node changes.
\<close>

text \<open>
  The node lists an append with this identifier under the file, and has the data. What an append may
  make of the metadata of its file, and of the storage of a node.
\<close>

definition has_append :: "string \<Rightarrow> AppendInfo \<Rightarrow> bytes \<Rightarrow> Cluster \<Rightarrow> bool" where
  "has_append t a d c \<longleftrightarrow> (\<exists>M dir m. storage t c = Some (M, dir) \<and> GetFile M (AppFileName a) = Some m \<and>
     AppendID a \<in> AppendID ` set (Appends m) \<and> map_of dir (AppendID a) = Some d)"

definition grown :: "AppendInfo \<Rightarrow> FileMetadata option \<Rightarrow> FileMetadata option \<Rightarrow> bool" where
  "grown a o1 o2 \<longleftrightarrow> o2 = o1 \<or> (\<exists>m. o1 = Some m \<and> AppendID a \<notin> AppendID ` set (Appends m) \<and> o2 = Some (insertAppend a m))"

definition only_append :: "AppendInfo \<Rightarrow> string \<Rightarrow> Cluster \<Rightarrow> Cluster \<Rightarrow> bool" where
  "only_append a t c c' \<longleftrightarrow>
     (case (storage t c, storage t c') of
        (None, None) \<Rightarrow> True
      | (Some (M, dir), Some (M', dir')) \<Rightarrow>
          (\<forall>g. g \<noteq> AppendID a \<longrightarrow> map_of dir' g = map_of dir g) \<and>
          (\<forall>g. g \<noteq> AppFileName a \<longrightarrow> GetFile M' g = GetFile M g) \<and>
          grown a (GetFile M (AppFileName a)) (GetFile M' (AppFileName a)) \<and>
          (GetFile M (AppFileName a) = None \<longrightarrow> M' = M \<and> dir' = dir)
      | _ \<Rightarrow> False)"

lemma listed_insertAppend: "AppendID a \<in> AppendID ` set (Appends (insertAppend a m))"
  by (simp add: set_insert_append)

lemma grown_trans: "grown a x y \<Longrightarrow> grown a y z \<Longrightarrow> grown a x z"
  unfolding grown_def using listed_insertAppend [of a] by auto

lemma grown_None: "grown a None x \<longleftrightarrow> x = None"
  by (simp add: grown_def)

lemma only_append_same: "storage t c' = storage t c \<Longrightarrow> only_append a t c c'"
  by (auto simp: only_append_def grown_def split: option.split)

lemma only_append_trans:
  assumes "only_append a t c c1" and "only_append a t c1 c2"
  shows "only_append a t c c2"
  using assms
  by (cases "storage t c"; cases "storage t c1"; cases "storage t c2")
    (auto simp: only_append_def case_prod_beta intro: grown_trans)

lemma has_append_cong: "storage t c' = storage t c \<Longrightarrow> has_append t a d c' \<longleftrightarrow> has_append t a d c"
  by (simp add: has_append_def)

lemma append_receive_any:
  assumes "data \<noteq> []" and "Size a = int (length data)" and chunks: "\<not> broken \<Longrightarrow> chunks = append_chunks data a"
  obtains status x' where "AppendTransfer os chunks broken x = (status, x')"
    "\<And>g. g \<noteq> AppendID a \<Longrightarrow> map_of (FileDirectory x') g = map_of (FileDirectory x) g"
    "\<And>g. g \<noteq> AppFileName a \<Longrightarrow> GetFile (Meta x') g = GetFile (Meta x) g"
    "grown a (GetFile (Meta x) (AppFileName a)) (GetFile (Meta x') (AppFileName a))"
    "GetFile (Meta x) (AppFileName a) = None \<Longrightarrow> Meta x' = Meta x \<and> FileDirectory x' = FileDirectory x"
    "status = UploadOk \<Longrightarrow> map_of (FileDirectory x') (AppendID a) = Some data \<and>
       (\<exists>m. GetFile (Meta x') (AppFileName a) = Some m \<and> AppendID a \<in> AppendID ` set (Appends m))"
proof (cases broken)
  case True
  obtain r where "recv_append chunks None [] (Bandwidth x) = r" by blast
  then show ?thesis
    using True that [of "UploadFailed ReceiveError" "x\<lparr>Bandwidth := snd (snd r)\<rparr>"]
    by (cases r) (simp add: AppendTransfer_def Let_def grown_def)
next
  case False
  let ?x = "x\<lparr>Bandwidth := fold (\<lambda>b. AddReceived (chunk_bytes b)) (chunks_of data) (Bandwidth x)\<rparr>"
  obtain b where b: "recv_append chunks None [] (Bandwidth x) =
      (Some \<lparr>AppendFilename = AppFileName a, AppendData = b, AppendContentHash = AppendHash a,
         AppendId = AppendID a, ClientId = ClientID a, ClientTime = ClientTimestamp a\<rparr>, data,
       fold (\<lambda>b. AddReceived (chunk_bytes b)) (chunks_of data) (Bandwidth x))"
    using recv_append_chunks [OF assms(1), of a "Bandwidth x"] chunks [OF False] by blast
  have info: "\<lparr>AppFileName = AppFileName a, AppendID = AppendID a, ClientID = ClientID a, ClientTimestamp = ClientTimestamp a,
      AppendHash = AppendHash a, Size = int (length data)\<rparr> = a"
    using assms(2) by (cases a) simp
  obtain ok dir where w: "WriteFile os (AppendID a) data (FileDirectory x) = (ok, dir)" by fastforce
  have other: "map_of dir g = map_of (FileDirectory x) g" if "g \<noteq> AppendID a" for g
    using WriteFile_other [OF that, of os data "FileDirectory x"] by (simp add: w)
  have written: "map_of dir (AppendID a) = Some data" if ok
    using w that by (auto simp: WriteFile_def split: if_splits option.splits)
  note eq = AppendTransfer_def b Let_def w info False
  show ?thesis
  proof (cases "GetFile (Meta x) (AppFileName a)")
    case None
    then show ?thesis using that [of "UploadFailed NoSuchFile" ?x] by (simp add: eq grown_def)
  next
    case (Some m)
    consider "MkdirFails os" | "\<not> MkdirFails os" "\<not> ok" | "\<not> MkdirFails os" ok "\<not> getFileLock (Meta x) (AppFileName a)"
      | "\<not> MkdirFails os" ok "getFileLock (Meta x) (AppFileName a)" by blast
    then show ?thesis
    proof cases
      case 1
      then show ?thesis using Some that [of "UploadFailed MkdirError" ?x] by (simp add: eq grown_def)
    next
      case 2
      then show ?thesis using Some other that [of "UploadFailed WriteError" "?x\<lparr>FileDirectory := dir\<rparr>"]
        by (simp add: eq grown_def)
    next
      case 3
      then show ?thesis using Some other that [of "UploadFailed MetadataError" "?x\<lparr>FileDirectory := dir\<rparr>"]
        by (simp add: eq grown_def AppendToFile_missing)
    next
      case 4
      let ?r = "AppendToFile (AppFileName a) a (Meta x)"
      have r: "fst ?r = None \<and> (\<forall>g. g \<noteq> AppFileName a \<longrightarrow> GetFile (snd ?r) g = GetFile (Meta x) g) \<and>
          grown a (Some m) (GetFile (snd ?r) (AppFileName a)) \<and>
          (\<exists>m'. GetFile (snd ?r) (AppFileName a) = Some m' \<and> AppendID a \<in> AppendID ` set (Appends m'))"
      proof (cases "AppendID a \<in> AppendID ` set (Appends m)")
        case True
        then show ?thesis using 4 Some by (simp add: AppendToFile_known grown_def)
      next
        case new: False
        then show ?thesis
          using 4(3) Some AppendToFile_fresh [OF 4(3) Some new] listed_insertAppend [of a m] by (auto simp: grown_def)
      qed
      then show ?thesis using 4 Some other written that [of UploadOk "?x\<lparr>FileDirectory := dir, Meta := snd ?r\<rparr>"]
        by (cases ?r) (simp add: eq)
    qed
  qed
qed

lemma append_send_any:
  assumes "data \<noteq> []" and "Size a = int (length data)" and send: "SendAppendToNode self t data a c = (ok, c1)"
  shows "(\<forall>b. b \<noteq> t \<longrightarrow> storage b c1 = storage b c) \<and> only_append a t c c1 \<and> (ok \<longrightarrow> has_append t a data c1)"
proof (cases "node self c = None \<or> node t c = None \<or> link_at 0 c = Unreachable")
  case True
  then have "(ok, c1) = (False, c\<lparr>Network := tl (Network c)\<rparr>)"
    using send by (auto simp: SendAppendToNode_def next_link_eq node_def)
  then show ?thesis by (simp add: only_append_same)
next
  case False
  define l where "l = link_at 0 c"
  have up: "node self c \<noteq> None" "node t c \<noteq> None" "l \<noteq> Unreachable" using False by (simp_all add: l_def)
  define broken where "broken = (case l of Broken n \<Rightarrow> True | _ \<Rightarrow> False)"
  define chunks where "chunks = (case l of Broken n \<Rightarrow> take n (append_chunks data a) | _ \<Rightarrow> append_chunks data a)"
  define c2 where "c2 = add_sent self (map AppendData chunks) (c\<lparr>Network := tl (Network c)\<rparr>)"
  have same: "storage b c2 = storage b c" for b by (simp add: c2_def)
  then obtain x where x: "node t c2 = Some x" using False storage_None by (metis option.exhaust)
  then have xs: "storage t c = Some (Meta x, FileDirectory x)" using same [of t] by (simp add: storage_node)
  have chunks: "\<not> broken \<Longrightarrow> chunks = append_chunks data a"
    by (cases l) (simp_all add: broken_def chunks_def)
  obtain status x' where at: "AppendTransfer (Os c t) chunks broken x = (status, x')"
    and x': "\<And>g. g \<noteq> AppendID a \<Longrightarrow> map_of (FileDirectory x') g = map_of (FileDirectory x) g"
      "\<And>g. g \<noteq> AppFileName a \<Longrightarrow> GetFile (Meta x') g = GetFile (Meta x) g"
      "grown a (GetFile (Meta x) (AppFileName a)) (GetFile (Meta x') (AppFileName a))"
      "GetFile (Meta x) (AppFileName a) = None \<Longrightarrow> Meta x' = Meta x \<and> FileDirectory x' = FileDirectory x"
      "status = UploadOk \<Longrightarrow> map_of (FileDirectory x') (AppendID a) = Some data \<and>
         (\<exists>m. GetFile (Meta x') (AppFileName a) = Some m \<and> AppendID a \<in> AppendID ` set (Appends m))"
    by (rule append_receive_any [OF assms(1,2), where broken = broken and chunks = chunks and os = "Os c t" and x = x])
      (rule chunks, assumption, rule that, assumption+)
  have r: "ok = (l = Up \<and> status = UploadOk)" "c1 = put_node t x' c2"
    using send up x at
    by (simp_all add: SendAppendToNode_def next_link_eq node_Network Let_def flip: l_def broken_def chunks_def c2_def)
  have "only_append a t c c1" using x' xs by (simp add: only_append_def r(2) same)
  moreover have "ok \<longrightarrow> has_append t a data c1" using x'(5) by (auto simp: r has_append_def)
  ultimately show ?thesis by (simp add: r(2) same)
qed

lemma append_all_any:
  assumes "data \<noteq> []" and "Size a = int (length data)"
    and "send_all (\<lambda>t. SendAppendToNode self t data a) as c = (n, c1)" and "distinct as"
  shows "(\<forall>t. t \<notin> set as \<longrightarrow> storage t c1 = storage t c) \<and> (\<forall>t. only_append a t c c1) \<and>
    n \<le> card {t \<in> set as. has_append t a data c1}"
  using assms(3,4)
proof (induction as arbitrary: c n)
  case Nil
  then show ?case by (simp add: only_append_same)
next
  case (Cons t as)
  obtain ok c2 where send: "SendAppendToNode self t data a c = (ok, c2)" by fastforce
  obtain k where rest: "send_all (\<lambda>t. SendAppendToNode self t data a) as c2 = (k, c1)" "n = (if ok then Suc k else k)"
    using Cons.prems send by (auto split: prod.splits)
  have t: "t \<notin> set as" "distinct as" using Cons.prems(2) by simp_all
  note one = append_send_any [OF assms(1,2) send] and IH = Cons.IH [OF rest(1) t(2)]
  have "only_append a b c c2" for b using one by (cases "b = t") (simp_all add: only_append_same)
  then have "\<forall>b. only_append a b c c1" using IH only_append_trans by blast
  moreover have "\<forall>b. b \<notin> set (t # as) \<longrightarrow> storage b c1 = storage b c" using IH one by simp
  moreover have "n \<le> card {b \<in> set (t # as). has_append b a data c1}"
  proof -
    have "has_append t a data c1 \<longleftrightarrow> has_append t a data c2" using IH t(1) by (intro has_append_cong) simp
    then have "{b \<in> set (t # as). has_append b a data c1} =
        (if has_append t a data c2 then insert t {b \<in> set as. has_append b a data c1} else {b \<in> set as. has_append b a data c1})"
      by auto
    then show ?thesis using IH one rest(2) t(1) by auto
  qed
  ultimately show ?case by blast
qed

lemma get_loop_includes:
  assumes "get_loop os dir f paths = (all, None)" and "p \<in> set paths" and "map_of dir p = Some d" and "\<not> OpenFails os p"
  shows "\<exists>pre post. stream_data all = pre @ d @ post"
  using assms(1,2)
proof (induction paths arbitrary: all)
  case (Cons q paths)
  let ?q = "if OpenFails os q then None else map_of dir q"
  show ?case
  proof (cases ?q)
    case None
    then have "get_loop os dir f paths = (all, None)" using Cons.prems(1) by simp
    moreover have "p \<in> set paths" using Cons.prems(2) None assms(3,4) by auto
    ultimately show ?thesis by (rule Cons.IH)
  next
    case (Some content)
    let ?sep = "if paths = [] then [] else [data_chunk f [10]]"
    obtain later where later: "get_loop os dir f paths = (later, None)"
      "all = map (data_chunk f) (chunks_of content) @ ?sep @ later"
      using Cons.prems(1) Some by (auto simp: Let_def split: option.splits prod.splits)
    then have all: "stream_data all = content @ stream_data ?sep @ stream_data later"
      using stream_data_chunks [of f content] by (simp add: stream_data_def)
    show ?thesis
    proof (cases "p = q")
      case True
      then have "stream_data all = [] @ d @ stream_data ?sep @ stream_data later" using all Some assms(3,4) by simp
      then show ?thesis by blast
    next
      case False
      then obtain pre post where "stream_data later = pre @ d @ post" using Cons.IH [OF later(1)] Cons.prems(2) by auto
      then have "stream_data all = (content @ stream_data ?sep @ pre) @ d @ post" using all by simp
      then show ?thesis by blast
    qed
  qed
qed simp

text \<open>
  C8. What an append counts is stored: whatever becomes of the calls and of the targets' disks, if
  \<open>handleAppend\<close> reports \<open>n\<close> successes, then at least \<open>n\<close> targets list the append under the file and have
  its data, so that every complete download from one of them contains the data; on every node, all other
  files and all other data are as before, the metadata of the file is as before or has this append
  inserted, and a node that does not know the file stores nothing.
\<close>

theorem acknowledged_appends_are_stored:
  assumes s: "node self c = Some s"
    and ts: "findTargetNodes (Members s) (file_hash s f) (ReplicationFactor (Config s)) = Inr ts" "distinct (map Address ts)"
    and data: "map_of (LocalDirectory s) (Base lf) = Some data" "data \<noteq> []"
    and sched: "\<And>xs. mset (sched xs) = mset xs"
    and append: "handleAppend self sched now lf f c = (Completed n k, c1)"
  shows "k = length ts \<and> n \<le> card {t \<in> Address ` set ts. has_append t (new_append now s f data) data c1} \<and>
    (\<forall>t d. has_append t (new_append now s f data) data c1 \<and> \<not> OpenFails (Os c1 t) (AppendID (new_append now s f data)) \<and>
      serves c1 t f d \<longrightarrow> (\<exists>pre post. d = pre @ data @ post)) \<and>
    (\<forall>t. only_append (new_append now s f data) t c c1) \<and> (\<forall>t. t \<notin> Address ` set ts \<longrightarrow> storage t c1 = storage t c)"
proof -
  let ?a = "new_append now s f data" and ?as = "sched (map Address ts)"
  have a: "AppFileName ?a = f" "Size ?a = int (length data)" by (simp_all add: new_append_def Let_def)
  have as: "set ?as = Address ` set ts" "distinct ?as" using same_mset [OF sched [of "map Address ts"]] ts(2) by simp_all
  have all: "send_all (\<lambda>t. SendAppendToNode self t data ?a) ?as c = (n, c1)" "k = length ts"
    using append s ts(1) data(1)
    by (auto simp: handleAppend_def GetAll_def ReadFile_def split: prod.splits option.splits if_splits)
  then have "k = length ts" and sent: "(\<forall>t. t \<notin> set ?as \<longrightarrow> storage t c1 = storage t c) \<and>
      (\<forall>t. only_append ?a t c c1) \<and> n \<le> card {t \<in> set ?as. has_append t ?a data c1}"
    using append_all_any [OF data(2) a(2) all(1) as(2)] by simp_all
  moreover have "\<exists>pre post. d = pre @ data @ post"
    if has: "has_append t ?a data c1" and opens: "\<not> OpenFails (Os c1 t) (AppendID ?a)"
      and d: "serves c1 t f d" for t d
  proof -
    obtain M dir m where m: "storage t c1 = Some (M, dir)" "GetFile M f = Some m" "AppendID ?a \<in> AppendID ` set (Appends m)"
      "map_of dir (AppendID ?a) = Some data"
      using has by (auto simp: has_append_def a(1))
    then obtain all where "get_loop (Os c1 t) dir f (FileName m # map AppendID (Appends m)) = (all, None)" "stream_data all = d"
      using d by (auto simp: serves_storage simp del: get_loop.simps)
    moreover have "AppendID ?a \<in> set (FileName m # map AppendID (Appends m))" using m(3) by simp
    ultimately show ?thesis using get_loop_includes m(4) opens by blast
  qed
  ultimately show ?thesis unfolding as(1) by blast
qed

text \<open>The first two of three appends are lost.\<close>

lemma lossy_append:
  "\<exists>ts c1. findTargetNodes trio (file_hash (stocked_server ''127.0.0.1:5000'') ''f'') 3 = Inr ts \<and> distinct (map Address ts) \<and>
    handleAppend ''127.0.0.1:5000'' id 0 ''a.txt'' ''f'' (stocked_cluster\<lparr>Network := [Unreachable, Unreachable]\<rparr>) = (Completed 1 3, c1)"
proof -
  let ?c = "stocked_cluster\<lparr>Network := [Unreachable, Unreachable]\<rparr>" and ?self = "''127.0.0.1:5000''"
  let ?s = "stocked_server ?self"
  let ?a = "new_append 0 ?s ''f'' [1, 2, 3]"
  obtain ts where ts: "findTargetNodes trio (file_hash ?s ''f'') 3 = Inr ts" "distinct (map Address ts)" "set ts \<subseteq> set trio"
    "length ts = 3" using trio_targets by blast
  then obtain a b t where abt: "ts = [a, b, t]" by (auto simp: length_Suc_conv eval_nat_numeral)
  obtain ok c1 where send: "SendAppendToNode ?self (Address t) [1, 2, 3] ?a stocked_cluster = (ok, c1)" by fastforce
  have calm: "calm stocked_cluster" by (rule stocked_simps)
  have "t \<in> set trio" using ts(3) abt by simp
  then have "node (Address t) stocked_cluster = Some (stocked_server (Address t))" by (auto simp: trio_def)
  then have view: "view (Address t) stocked_cluster =
      Some (stocked_server (Address t)\<lparr>Bandwidth := \<lparr>BytesSent = 0, BytesReceived = 0\<rparr>\<rparr>)"
    by (simp add: view_def)
  have "fst (SendAppendToNode ?self (Address t) [1, 2, 3] ?a stocked_cluster)"
    by (rule append_up(1) [OF calm _ view]) (simp_all add: new_append_def Let_def)
  then have ok: ok using send by simp
  have s: "node ?self ?c = Some ?s" and os: "Os ?c = (\<lambda>_. no_faults)"
    using calm by (simp_all add: node_Network calm_def)
  have same: "stocked_cluster\<lparr>Network := []\<rparr> = stocked_cluster" by (simp add: stocked_cluster_def trio_cluster_def)
  have lost: "SendAppendToNode ?self u d m (stocked_cluster\<lparr>Network := Unreachable # n\<rparr>) = (False, stocked_cluster\<lparr>Network := n\<rparr>)"
    for u d m n
    by (auto simp: SendAppendToNode_def next_link_def)
  have "handleAppend ?self id 0 ''a.txt'' ''f'' ?c = (Completed 1 3, c1)"
    using ts(1) send ok s
    by (simp add: handleAppend_def abt GetAll_def lost ReadFile_def os Base_def same eval_nat_numeral)
  then show ?thesis using ts by blast
qed

theorem acknowledged_appends_are_stored_witness:
  "\<exists>ts c1. handleAppend ''127.0.0.1:5000'' id 0 ''a.txt'' ''f'' (stocked_cluster\<lparr>Network := [Unreachable, Unreachable]\<rparr>) =
      (Completed 1 3, c1) \<and> findTargetNodes trio (file_hash (stocked_server ''127.0.0.1:5000'') ''f'') 3 = Inr ts \<and>
    (\<exists>t \<in> Address ` set ts. has_append t (new_append 0 (stocked_server ''127.0.0.1:5000'') ''f'' [1, 2, 3]) [1, 2, 3] c1)"
proof -
  let ?c = "stocked_cluster\<lparr>Network := [Unreachable, Unreachable]\<rparr>" and ?self = "''127.0.0.1:5000''"
  let ?s = "stocked_server ?self"
  obtain ts c1 where ts: "findTargetNodes trio (file_hash ?s ''f'') 3 = Inr ts" "distinct (map Address ts)"
    and append: "handleAppend ?self id 0 ''a.txt'' ''f'' ?c = (Completed 1 3, c1)"
    using lossy_append by blast
  have s: "node ?self ?c = Some ?s" by (simp add: node_Network)
  have "1 \<le> card {t \<in> Address ` set ts. has_append t (new_append 0 ?s ''f'' [1, 2, 3]) [1, 2, 3] c1}"
    using acknowledged_appends_are_stored [OF s _ ts(2) _ _ _ append, of "[1, 2, 3]"] ts(1) by (simp add: Base_def)
  then have "\<exists>t \<in> Address ` set ts. has_append t (new_append 0 ?s ''f'' [1, 2, 3]) [1, 2, 3] c1"
    by (metis (no_types, lifting) card.empty empty_Collect_eq not_one_le_zero)
  then show ?thesis using append ts(1) by blast
qed

end
