(* ===== verification/Slow_Reads.thy ===== *)
theory Slow_Reads
  imports Fault_Tolerance
begin

text \<open>
  Gets whose downloads outlast their time and run on beside the next ones: when the local file is right
  all the same, and how a download that was given up undoes a get that has succeeded.
\<close>

section \<open>Downloads as events\<close>

lemma download_events:
  "node self (Sys y) = Some s \<Longrightarrow>
    node self (Sys (fold event_step (map (\<lambda>i. (env, DownloadStep self i)) is) y)) =
      Some (fold (download_step (Os (Sys y) self)) is s)"
proof (induction "is" arbitrary: y s)
  case (Cons i "is")
  let ?y = "event_step (env, DownloadStep self i) y"
  have "node self (Sys ?y) = Some (download_step (Os (Sys y) self) i s)" "Os (Sys ?y) = Os (Sys y)"
    using Cons.prems by (simp_all add: event_step_def update_node_def put_node_def node_def update_conv')
  then show ?case using Cons.IH [of ?y] by simp
qed simp

section \<open>Downloads that deliver the same\<close>


lemma receive_downloads:
  assumes y: "node self c = Some y" and recv: "ReceiveFileFromNode self t f False lf c = (ok, c1)"
  shows "\<exists>y1 dir. node self c1 = Some y1 \<and> Downloads y1 \<in> {Downloads y, unlink dir (Downloads y)}"
proof -
  have same: "Downloads (snd (HyDFS_GetFile os f s)) = Downloads s" for os s
    by (simp add: HyDFS_GetFile_def Let_def split: option.split del: get_loop.simps)
  have "node self (c\<lparr>Network := tl (Network c)\<rparr>) = Some y" using y by (simp add: node_Network)
  then show ?thesis using recv same
    by (auto simp: ReceiveFileFromNode_def next_link_eq Let_def split: if_splits option.splits prod.splits) (metis snd_conv)+
qed










section \<open>A download that was given up\<close>

lemma slow_idle:
  assumes "node self c = Some y" and "node t c = Some x"
  shows "\<exists>all y1. slow_download self t f lf (Slow (Some m) []) [] c =
      (False, put_node self y1 (put_node t (snd (HyDFS_GetFile (Os c t) f x)) c)) \<and>
    Downloads y1 = Downloads y @ [new_download lf (take m all, True)]"
proof -
  obtain all e x' where g: "HyDFS_GetFile (Os c t) f x = ((all, e), x')" by (metis surj_pair)
  then have "Downloads x' = Downloads x"
    by (auto simp: HyDFS_GetFile_def Let_def split: option.splits simp del: get_loop.simps)
  then show ?thesis using assms g
    by (intro exI [of _ all]) (auto simp: slow_download_def arriving_def Let_def)
qed

text \<open>
  C24. A download that was given up undoes a successful get: let the first target take so long that
  nothing of the file has been done when its time is up, and break off later, and let the second serve
  the file in time. Then \<open>handleGet\<close> reports success, with the file in place; and when the first
  download goes on, it truncates the file and in the end removes it, so that nothing is left of what was
  delivered.
\<close>

theorem timed_out_download_undoes_get:
  assumes s: "node self c = Some s" and os: "disk_works (Os c self) (Base lf)" "\<not> RemoveFails (Os c self) (Base lf)"
    and ts: "findTargetNodes (Members s) (file_hash s f) (ReplicationFactor (Config s)) = Inr (t0 # t1 # ts)"
    and first: "node (Address t0) c \<noteq> None" "link_at 0 c = Slow (Some m) []"
    and second: "link_at 1 c = Up" "serves c (Address t1) f d"
    and get: "handleGet self f lf c = (src, c')"
  shows "src = Some (Address t1) \<and> (\<exists>y. node self c' = Some y \<and> map_of (LocalDirectory y) (Base lf) = Some d) \<and>
    (\<exists>i k. \<forall>env rr. \<exists>z. node self (Sys (fold event_step (map (\<lambda>i. (env, DownloadStep self i)) (replicate k i)) \<lparr>Sys = c', Robin = rr\<rparr>)) = Some z \<and>
      map_of (LocalDirectory z) (Base lf) = None)"
proof -
  let ?c = "c\<lparr>Network := tl (Network c)\<rparr>" and ?k = "length (Downloads s)"
  obtain x where x: "node (Address t0) c = Some x" using first(1) by auto
  obtain all y1 c1 where slow: "slow_download self (Address t0) f lf (Slow (Some m) []) [] ?c = (False, c1)"
    and c1: "c1 = put_node self y1 (put_node (Address t0) (snd (HyDFS_GetFile (Os c (Address t0)) f x)) ?c)"
    and y1: "Downloads y1 = Downloads s @ [new_download lf (take m all, True)]"
    using slow_idle [of self ?c s "Address t0" x f lf m] s x by (auto simp: node_Network)
  have att: "download_attempt self (Address t0) f lf c = (False, c1)"
    using first(2) slow by (simp add: download_attempt_def next_link_eq)
  note any = attempt_any [OF s os(1) att]
  obtain ok c2 where recv: "ReceiveFileFromNode self (Address t1) f False lf c1 = (ok, c2)" by fastforce
  have up: "link_at 0 c1 = Up" using any link_at_tl [of c1 c 0] second(1) by simp
  have serve: "serves c1 (Address t1) f e \<longleftrightarrow> serves c (Address t1) f e" for e using any by (intro serves_cong) simp_all
  have n1: "node self c1 = Some y1" by (simp add: c1)
  have os1: "disk_works (Os c1 self) (Base lf)" using any os(1) by simp
  note got = receive_any [OF n1 os1 recv]
  have ok using got up second(2) serve by blast
  then have "download_attempt self (Address t1) f lf c1 = (True, c2)"
    using recv up by (simp add: download_attempt_def next_link_eq)
  then have src: "src = Some (Address t1)" "c' = c2"
    using get s ts att by (simp_all add: handleGet_def GetAll_def file_hash_def)
  obtain y dir where y: "node self c2 = Some y" "Downloads y \<in> {Downloads y1, unlink dir (Downloads y1)}"
    using receive_downloads [OF n1 recv] by blast
  have delivered: "map_of (LocalDirectory y) (Base lf) = Some d"
    using got \<open>ok\<close> y(1) serve second(2) by (auto simp: serves_def)
  have "Downloads y ! ?k = new_download lf (take m all, True) \<and> ?k < length (Downloads y)"
    using y(2) by (auto simp: y1 unlink_append new_download_def)
  then have k: "?k < length (Downloads y)" "DlFails (Downloads y ! ?k)" "DlName (Downloads y ! ?k) = Base lf"
    "still_running (Downloads y ! ?k)" by (simp_all add: new_download_def still_running_def)
  have os2: "Os c2 = Os c" using got any by simp
  define picks where "picks = replicate (steps_left (Downloads y ! ?k)) ?k"
  have "map_of (LocalDirectory (fold (download_step (Os c2 self)) picks y)) (Base lf) = None"
    unfolding picks_def os2 using os by (intro failing_steps [OF k]) (simp_all add: disk_works_def)
  moreover have "node self (Sys (fold event_step (map (\<lambda>i. (env, DownloadStep self i)) picks) \<lparr>Sys = c2, Robin = rr\<rparr>)) =
      Some (fold (download_step (Os c2 self)) picks y)" for env rr
    using download_events [of self "\<lparr>Sys = c2, Robin = rr\<rparr>" y env picks] y(1) by simp
  ultimately show ?thesis using src delivered y(1) unfolding picks_def by blast
qed

definition stuck_cluster :: Cluster where
  "stuck_cluster = stocked_cluster\<lparr>Network := [Slow (Some 0) []]\<rparr>"

lemma stuck_simps:
  "node ''127.0.0.1:5001'' stuck_cluster = Some (stocked_server ''127.0.0.1:5001'')"
  "disk_works (Os stuck_cluster a) n" "\<not> RemoveFails (Os stuck_cluster a) n"
  "link_at i stuck_cluster = (if i = 0 then Slow (Some 0) [] else Up)"
  using stocked_simps(7)
  by (simp_all add: stuck_cluster_def node_Network calm_def disk_works_def no_faults_def link_at_def)

theorem timed_out_download_undoes_get_witness:
  "\<exists>a c' y i k z. handleGet ''127.0.0.1:5001'' ''f'' ''b.txt'' stuck_cluster = (Some a, c') \<and> node ''127.0.0.1:5001'' c' = Some y \<and>
    map_of (LocalDirectory y) ''b.txt'' = Some [9] \<and>
    node ''127.0.0.1:5001'' (Sys (fold event_step (map (\<lambda>i. (example_env, DownloadStep ''127.0.0.1:5001'' i)) (replicate k i))
      \<lparr>Sys = c', Robin = \<lambda>_. initial_round_robin\<rparr>)) = Some z \<and> map_of (LocalDirectory z) ''b.txt'' = None"
proof -
  let ?r = "''127.0.0.1:5001''" and ?s = "stocked_server ''127.0.0.1:5001''"
  obtain ts where ts: "findTargetNodes trio (file_hash ?s ''f'') 3 = Inr ts" "set ts \<subseteq> set trio" "length ts = 3"
    using trio_targets by blast
  then obtain t0 t1 t2 where t: "ts = [t0, t1, t2]" by (auto simp: length_Suc_conv eval_nat_numeral)
  have found: "findTargetNodes (Members ?s) (file_hash ?s ''f'') (ReplicationFactor (Config ?s)) = Inr (t0 # t1 # [t2])"
    using ts(1) by (simp add: t)
  have serve: "serves stuck_cluster (Address u) ''f'' d \<longleftrightarrow> d = [9]" if "u \<in> set ts" for u d
    using that ts(2) stocked_serves by (auto simp: stuck_cluster_def)
  then have "node (Address t0) stuck_cluster \<noteq> None" using serves_def [of stuck_cluster "Address t0" "''f''" "[9]"] by (auto simp: t)
  moreover obtain src c' where get: "handleGet ?r ''f'' ''b.txt'' stuck_cluster = (src, c')" by fastforce
  ultimately have gone: "src = Some (Address t1) \<and> (\<exists>y. node ?r c' = Some y \<and> map_of (LocalDirectory y) (Base ''b.txt'') = Some [9]) \<and>
    (\<exists>i k. \<forall>env rr. \<exists>z. node ?r (Sys (fold event_step (map (\<lambda>i. (env, DownloadStep ?r i)) (replicate k i)) \<lparr>Sys = c', Robin = rr\<rparr>)) = Some z \<and>
      map_of (LocalDirectory z) (Base ''b.txt'') = None)"
    by (intro timed_out_download_undoes_get [OF stuck_simps(1,2,3) found _ _ _ _ get]) (simp_all add: stuck_simps serve t)
  have "Base ''b.txt'' = ''b.txt''" by (simp add: Base_def)
  then show ?thesis using get gone by metis
qed

end
