(* ===== verification/Data_Laws.thy ===== *)
theory Data_Laws
  imports Node_Laws
begin

text \<open>
  What the operations of the system keep of the files of every node, for any property that depends on
  which names they write: \<open>K\<close> holds of the names of appends, \<open>N\<close> of the names of files. Compared with
  \<open>Node_Laws\<close>, a directory may change only at names that are harmless or not listed, and nothing is
  deleted. The garbage collector and the start of a node are not among the operations.
\<close>

named_theorems data_intros

definition good_meta :: "(string \<Rightarrow> bool) \<Rightarrow> (string \<Rightarrow> bool) \<Rightarrow> FileMetadata \<Rightarrow> bool" where
  "good_meta K N m \<longleftrightarrow> N (FileName m) \<and> (\<forall>ap \<in> set (Appends m). K (AppendID ap))"

definition good_files :: "(string \<Rightarrow> bool) \<Rightarrow> (string \<Rightarrow> bool) \<Rightarrow> FileMetadata go_map \<Rightarrow> bool" where
  "good_files K N files \<longleftrightarrow> (\<forall>g m. map_of files g = Some m \<longrightarrow> FileName m = g \<and> good_meta K N m)"

definition good_step :: "(string \<Rightarrow> bool) \<Rightarrow> (string \<Rightarrow> bool) \<Rightarrow> Metadata \<Rightarrow> Metadata \<Rightarrow> bool" where
  "good_step K N m m' \<longleftrightarrow> (\<exists>f. m' = AddFile f m \<and> good_meta K N f) \<or>
     (\<exists>g ap. m' = snd (AppendToFile g ap m) \<and> K (AppendID ap))"

lemma good_step_intros:
  "good_meta K N f \<Longrightarrow> good_step K N m (AddFile f m)"
  "K (AppendID ap) \<Longrightarrow> good_step K N m (snd (AppendToFile g ap m))"
  by (auto simp: good_step_def)

lemma good_files_empty [simp]: "good_files K N []"
  by (simp add: good_files_def)

locale data_law =
  fixes P :: "string \<Rightarrow> Server \<Rightarrow> bool" and K :: "string \<Rightarrow> bool" and N :: "string \<Rightarrow> bool"
  assumes listed: "P a s \<Longrightarrow> good_files K N (Files (Meta s))"
    and P_Bandwidth [data_intros]: "P a s \<Longrightarrow> P a (s\<lparr>Bandwidth := b\<rparr>)"
    and P_LocalDirectory [data_intros]: "P a s \<Longrightarrow> P a (s\<lparr>LocalDirectory := d\<rparr>)"
    and P_Downloads [data_intros]: "P a s \<Longrightarrow> P a (s\<lparr>Downloads := ds\<rparr>)"
    and P_write: "P a s \<Longrightarrow> (\<And>g. GetFile (Meta s) g \<noteq> None \<Longrightarrow> \<not> K g \<Longrightarrow> map_of d g = map_of (FileDirectory s) g) \<Longrightarrow>
      P a (s\<lparr>FileDirectory := d\<rparr>)"
    and P_Meta: "P a s \<Longrightarrow> good_step K N (Meta s) m \<Longrightarrow> P a (s\<lparr>Meta := m\<rparr>)"
    and K_Base: "K x \<Longrightarrow> K (Base x)"
    and N_Base: "N x \<Longrightarrow> Base x = x \<or> K (Base x)"
    and K_new: "K (AppendID (new_append now s' h c))"
begin

lemma listed_meta: "P a s \<Longrightarrow> GetFile (Meta s) g = Some m \<Longrightarrow> FileName m = g \<and> good_meta K N m"
  using listed by (simp add: good_files_def GetFile_def)

text \<open>Uploads.\<close>

lemma recv_rest:
  "\<forall>ch \<in> set chunks. ChunkFilename ch = '''' \<and> ChunkContentHash ch = '''' \<Longrightarrow>
    \<exists>d' bw'. recv_file chunks f d m bw = (f, d', m, bw')"
  by (induction chunks arbitrary: f d m bw) (auto simp: Let_def)

lemma rest_chunks:
  "ch \<in> set (file_chunks_from False m bs) \<Longrightarrow> ChunkFilename ch = '''' \<and> ChunkContentHash ch = ''''"
  by (induction bs) auto

lemma recv_prefix:
  assumes "recv_file (take n (file_chunks data m)) '''' [] None bw = (f, d, r, bw')"
  shows "\<forall>x. r = Some x \<longrightarrow> FileName x = f \<and> f = FileName m \<and> Appends x = []"
proof -
  consider "take n (file_chunks data m) = []"
    | b bs k where "take n (file_chunks data m) = hd (file_chunks_from True m [b]) # take k (file_chunks_from False m bs)"
    by (cases n; cases "chunks_of data") (auto simp: file_chunks_def)
  then show ?thesis
  proof cases
    case 1
    show ?thesis using assms unfolding 1 by simp
  next
    case 2
    have "\<forall>ch \<in> set (take k (file_chunks_from False m bs)). ChunkFilename ch = '''' \<and> ChunkContentHash ch = ''''"
      using rest_chunks by (meson in_set_takeD)
    note rest = recv_rest [OF this]
    obtain d' bw'' where "recv_file (take k (file_chunks_from False m bs)) (FileName m) b
        (if FileContentHash m = '''' then None else Some \<lparr>FileName = FileName m, FileContentHash = FileContentHash m,
           FileNameHash = to_int32 (FileNameHash m), CreationTime = CreationTime m, Appends = []\<rparr>)
        (AddReceived (chunk_bytes b) bw) = (FileName m, d', (if FileContentHash m = '''' then None else
           Some \<lparr>FileName = FileName m, FileContentHash = FileContentHash m,
           FileNameHash = to_int32 (FileNameHash m), CreationTime = CreationTime m, Appends = []\<rparr>), bw'')"
      using rest by blast
    then show ?thesis using assms unfolding 2 by (auto simp: Let_def split: if_splits)
  qed
qed

lemma data_FileTransfer:
  assumes "P a s" and "N (FileName m)" and ft: "FileTransfer os (take n (file_chunks data m)) broken s = Inr (st, s')"
  shows "P a s'"
proof -
  obtain f d r bw where recv: "recv_file (take n (file_chunks data m)) '''' [] None (Bandwidth s) = (f, d, r, bw)"
    by (metis surj_pair)
  note r = recv_prefix [OF recv]
  let ?s = "s\<lparr>Bandwidth := bw\<rparr>"
  have s: "P a ?s" using assms(1) by (rule P_Bandwidth)
  have stored: "P a (?s\<lparr>FileDirectory := snd (WriteFile os f d (FileDirectory s))\<rparr>)" if "GetFile (Meta s) f = None"
  proof (rule P_write [OF s])
    fix g
    assume "GetFile (Meta ?s) g \<noteq> None"
    then have "g \<noteq> f" using that by auto
    then show "map_of (snd (WriteFile os f d (FileDirectory s))) g = map_of (FileDirectory ?s) g"
      using WriteFile_other [of g f os d "FileDirectory s"] by simp
  qed
  show ?thesis
  proof (cases "broken \<or> GetFile (Meta s) f \<noteq> None \<or> MkdirFails os")
    case True
    then show ?thesis using ft recv s
      by (auto simp: FileTransfer_def Let_def saveFile_def split: if_splits)
  next
    case False
    then obtain x where x: "r = Some x" using ft recv
      by (cases r) (auto simp: FileTransfer_def Let_def saveFile_def)
    then have fx: "FileName x = f" "good_meta K N x" using r assms(2) by (simp_all add: good_meta_def)
    obtain ok dir where w: "WriteFile os f d (FileDirectory s) = (ok, dir)" by fastforce
    have dir: "P a (?s\<lparr>FileDirectory := dir\<rparr>)" using stored False w by simp
    have "P a (?s\<lparr>FileDirectory := dir, Meta := AddFile x (Meta s)\<rparr>)"
      using P_Meta [OF dir, of "AddFile x (Meta s)"] good_step_intros(1) [OF fx(2)] by simp
    then show ?thesis using False ft recv x fx w dir
      by (cases ok) (auto simp: FileTransfer_def Let_def saveFile_def)
  qed
qed

lemma recv_append_prefix:
  assumes "recv_append (take n (append_chunks data ap)) None [] bw = (first, d, bw')"
  shows "\<forall>c. first = Some c \<longrightarrow> AppendId c = AppendID ap"
proof -
  have rest: "\<exists>d' bw'. recv_append chunks (Some c) d bw = (Some c, d', bw')" for chunks c d bw
    by (induction chunks arbitrary: d bw) simp_all
  show ?thesis
  proof (cases "take n (append_chunks data ap)")
    case Nil
    show ?thesis using assms unfolding Nil by simp
  next
    case (Cons c chunks)
    then have "AppendId c = AppendID ap"
      by (cases n; cases "chunks_of data") (auto simp: append_chunks_def)
    moreover obtain d' bw'' where "recv_append chunks (Some c) (AppendData c) (AddReceived (chunk_bytes (AppendData c)) bw) =
        (Some c, d', bw'')"
      using rest by blast
    ultimately show ?thesis using assms by (auto simp: Cons)
  qed
qed

lemma data_AppendTransfer:
  assumes "P a s" and ap: "K (AppendID ap)"
  shows "P a (snd (AppendTransfer os (take n (append_chunks data ap)) broken s))"
proof -
  obtain first d bw where recv: "recv_append (take n (append_chunks data ap)) None [] (Bandwidth s) = (first, d, bw)"
    by (metis surj_pair)
  note id = recv_append_prefix [OF recv]
  let ?s = "s\<lparr>Bandwidth := bw\<rparr>" and ?c = "case first of None \<Rightarrow> no_chunk | Some c \<Rightarrow> c"
  let ?info = "\<lparr>AppFileName = AppendFilename ?c, AppendID = AppendId ?c, ClientID = ClientId ?c,
    ClientTimestamp = ClientTime ?c, AppendHash = AppendContentHash ?c, Size = int (length d)\<rparr>"
  have s: "P a ?s" using assms(1) by (rule P_Bandwidth)
  obtain ok dir where w: "WriteFile os (AppendId ?c) d (FileDirectory s) = (ok, dir)" by fastforce
  have dir: "P a (?s\<lparr>FileDirectory := dir\<rparr>)"
  proof (rule P_write [OF s])
    fix g
    assume "\<not> K g"
    moreover have "first = None \<Longrightarrow> dir = FileDirectory s" using w by (simp add: WriteFile_def no_chunk_def)
    ultimately show "map_of dir g = map_of (FileDirectory ?s) g"
      using WriteFile_other [of g "AppendId ?c" os d "FileDirectory s"] w id ap by (cases first) auto
  qed
  have ok: "first \<noteq> None" if "ok" using w that by (cases first) (auto simp: WriteFile_def no_chunk_def)
  have meta: "P a (?s\<lparr>FileDirectory := dir, Meta := snd (AppendToFile (AppendFilename ?c) ?info (Meta s))\<rparr>)" if "ok"
  proof -
    have "K (AppendID ?info)" using ok [OF that] id ap by (cases first) simp_all
    then have "good_step K N (Meta (?s\<lparr>FileDirectory := dir\<rparr>)) (snd (AppendToFile (AppendFilename ?c) ?info (Meta s)))"
      using good_step_intros(2) [of K ?info N "Meta s" "AppendFilename ?c"] by simp
    from P_Meta [OF dir this] show ?thesis .
  qed
  obtain e m where atf: "AppendToFile (AppendFilename ?c) ?info (Meta s) = (e, m)" by fastforce
  show ?thesis
    using s dir meta by (cases ok; cases e) (auto simp: AppendTransfer_def recv Let_def w atf)
qed

section \<open>Streams between nodes\<close>

lemma data_add_sent [data_intros]: "all_nodes P c \<Longrightarrow> all_nodes P (add_sent a ds c)"
  by (auto simp: add_sent_def split: option.split intro!: law_put P_Bandwidth dest: law_node)

lemma data_SendFileToNode:
  assumes "all_nodes P c" and "N (FileName m)"
  shows "all_nodes P (snd (SendFileToNode self t d m c))"
proof -
  obtain l c1 where l: "next_link c = (l, c1)" by fastforce
  note w = law_next_link [OF assms(1) l]
  obtain n where n: "(case l of Broken n \<Rightarrow> take n (file_chunks d m) | _ \<Rightarrow> file_chunks d m) = take n (file_chunks d m)"
    by (cases l) (auto intro: that [of "length (file_chunks d m)"])
  show ?thesis
    using w by (auto simp: SendFileToNode_def l Let_def n split: option.split sum.split prod.split
        intro!: law_put law_crash data_add_sent intro: data_FileTransfer [OF _ assms(2)] dest: law_node [OF data_add_sent [OF w]])
qed

lemma data_SendAppendToNode:
  assumes "all_nodes P c" and "K (AppendID ap)"
  shows "all_nodes P (snd (SendAppendToNode self t d ap c))"
proof -
  obtain l c1 where l: "next_link c = (l, c1)" by fastforce
  note w = law_next_link [OF assms(1) l]
  obtain n where n: "(case l of Broken n \<Rightarrow> take n (append_chunks d ap) | _ \<Rightarrow> append_chunks d ap) = take n (append_chunks d ap)"
    by (cases l) (auto intro: that [of "length (append_chunks d ap)"])
  have "P t t'" if "AppendTransfer os (take n (append_chunks d ap)) b s = (st, t')" "node t (add_sent self ds c1) = Some s"
    for os b s st t' ds
    using data_AppendTransfer [OF law_node [OF data_add_sent [OF w] that(2)] assms(2), of os n d b] that(1) by simp
  with w show ?thesis
    by (auto simp: SendAppendToNode_def l Let_def n split: option.split prod.split intro!: law_put data_add_sent)
qed

lemma receive_loop_other:
  "k \<noteq> name \<Longrightarrow> map_of (fst (snd (receive_loop os name chunks failed w dir bw))) k = map_of dir k"
  by (induction chunks arbitrary: w dir bw) (simp_all add: Let_def Remove_def update_conv' delete_conv')

lemma receive_file_other: "k \<noteq> Base lp \<Longrightarrow> map_of (fst (snd (receive_file os stream lp dir bw))) k = map_of dir k"
  using receive_loop_other [of k "Base lp"] by (auto simp: receive_file_def Let_def update_conv' split: option.split prod.split)

text \<open>A download into the store may write only a name that is harmless or not listed.\<close>

lemma data_ReceiveFileFromNode:
  assumes "all_nodes P c"
    and target: "b \<Longrightarrow> K (Base lp) \<or> (\<forall>s. node self c = Some s \<longrightarrow> GetFile (Meta s) (Base lp) = None)"
  shows "all_nodes P (snd (ReceiveFileFromNode self t f b lp c))"
proof -
  obtain l c1 where l: "next_link c = (l, c1)" by fastforce
  note w = law_next_link [OF assms(1) l]
  show ?thesis
  proof (cases "node self c1 = None \<or> node t c1 = None \<or> l = Unreachable")
    case True
    with w show ?thesis by (auto simp: ReceiveFileFromNode_def l)
  next
    case False
    then obtain ts where ts: "node t c1 = Some ts" by auto
    obtain all e t' where g: "HyDFS_GetFile (Os c t) f ts = ((all, e), t')" by (metis surj_pair)
    have t': "P t t'" "Meta t' = Meta ts" using law_node [OF w ts] g
      by (auto simp: HyDFS_GetFile_def Let_def split: option.splits intro: P_Bandwidth)
    then have w2: "all_nodes P (put_node t t' c1)" using w by (intro law_put)
    obtain s where s: "node self (put_node t t' c1) = Some s" using False by (cases "self = t") auto
    have Ps: "P self s" using law_node [OF w2 s] .
    have same: "node a c1 = node a c" for a using node_next_link [of a c] l by simp
    define stream where "stream = arriving l all e"
    obtain ok dir bw where r: "receive_file (Os c self) (Some stream) lp
        (if b then FileDirectory s else LocalDirectory s) (Bandwidth s) = (ok, dir, bw)" by (metis surj_pair)
    have meta: "\<exists>s0. node self c = Some s0 \<and> Meta s = Meta s0"
      using s ts t'(2) same by (auto split: if_splits)
    have "P self (if b then s\<lparr>FileDirectory := dir\<rparr> else s\<lparr>LocalDirectory := dir, Downloads := unlink dir (Downloads s)\<rparr>)"
    proof (cases b)
      case True
      have "map_of dir g = map_of (FileDirectory s) g" if "GetFile (Meta s) g \<noteq> None" "\<not> K g" for g
      proof -
        have "g \<noteq> Base lp" using target [OF True] meta that by auto
        then show ?thesis
          using receive_file_other [of g lp "Os c self" "Some stream" "FileDirectory s" "Bandwidth s"] r True by simp
      qed
      from P_write [OF Ps this] show ?thesis using True by simp
    qed (simp add: P_Downloads P_LocalDirectory [OF Ps])
    then have "all_nodes P (put_node self ((if b then s\<lparr>FileDirectory := dir\<rparr>
        else s\<lparr>LocalDirectory := dir, Downloads := unlink dir (Downloads s)\<rparr>)\<lparr>Bandwidth := bw\<rparr>)
        (put_node t t' c1))"
      by (intro law_put [OF w2] P_Bandwidth)
    moreover obtain y where "node self c1 = Some y" using False by auto
    ultimately show ?thesis using False s r
      by (simp add: ReceiveFileFromNode_def l ts g Let_def del: node_put flip: stream_def)
  qed
qed

section \<open>Stabilization\<close>

lemma data_read_call:
  assumes "all_nodes P c" and "makeRPCCall a (\<lambda>s. (g s, s)) c = (r, c1)"
  shows "all_nodes P c1 \<and> (\<forall>x. r = Some x \<longrightarrow> (\<exists>s. P a s \<and> x = g s))"
proof -
  obtain l c2 where l: "next_link c = (l, c2)" by fastforce
  have w: "all_nodes P c2" using law_next_link [OF assms(1) l] .
  then show ?thesis
    using assms(2) law_node [OF w] by (auto simp: makeRPCCall_def l split: option.splits if_splits intro!: law_put)
qed

lemma good_collected:
  assumes "good_files K N files" and "\<forall>name \<in> set names. map_of files name \<noteq> None" and "good_files K N result"
  shows "good_files K N (fold (\<lambda>name result. AList.update name
    (case map_of files name of None \<Rightarrow> zero_FileMetadata | Some meta \<Rightarrow> meta) result) names result)"
  using assms(2,3)
proof (induction names arbitrary: result)
  case (Cons n names)
  then obtain m where m: "map_of files n = Some m" by auto
  then have "FileName m = n \<and> good_meta K N m" using assms(1) by (simp add: good_files_def)
  then have "good_files K N (AList.update n m result)" using Cons.prems(2) by (simp add: good_files_def update_conv')
  then show ?case using Cons.prems(1) Cons.IH [of "AList.update n m result"] m by simp
qed simp

lemma good_GetFilesMetadata:
  assumes "P a s"
  shows "good_files K N (GetFilesMetadata ord lo hi s)"
proof -
  obtain names where names: "GetFilesWithinRange ord (Files (Meta s)) (Some (lo, hi)) = Inr names"
    by (simp add: GetFilesWithinRange_def)
  then have "\<forall>n \<in> set names. map_of (Files (Meta s)) n \<noteq> None"
    by (auto simp: GetFilesWithinRange_def split: option.splits)
  then show ?thesis using good_collected [OF listed [OF assms]] by (simp add: GetFilesMetadata_def names)
qed

lemma data_fetchMetadataFromNode:
  assumes "all_nodes P c" and "fetchMetadataFromNode m lo hi c = (files, c1)"
  shows "all_nodes P c1 \<and> good_files K N files"
proof -
  obtain r c2 where r: "makeRPCCall (Address m) (\<lambda>s. (GetFilesMetadata (Ord c) lo hi s, s)) c = (r, c2)" by fastforce
  show ?thesis using assms(2) data_read_call [OF assms(1) r] good_GetFilesMetadata r
    by (cases r) (auto simp: fetchMetadataFromNode_def GetKeysMetadata_def)
qed

lemma data_callGetFileMetadata:
  assumes "all_nodes P c" and "callGetFileMetadata a f c = (r, c1)"
  shows "all_nodes P c1 \<and> (\<forall>ok files. r = Some (ok, files) \<longrightarrow> good_files K N files)"
proof -
  note call = data_read_call [OF assms(1) assms(2) [unfolded callGetFileMetadata_def]]
  have "good_files K N (snd (GetFileMetadata f s))" if "P a s" for s
    using listed_meta [OF that] by (auto simp: GetFileMetadata_def good_files_def split: option.split)
  then show ?thesis using call by (metis snd_conv)
qed

lemma data_push_append:
  "all_nodes P c \<Longrightarrow> K (AppendID app) \<Longrightarrow> all_nodes P (push_append self t ra app c)"
  by (auto simp: push_append_def split: option.split intro!: data_SendAppendToNode)

lemma data_push_file:
  assumes "all_nodes P c"
  shows "all_nodes P (push_file self t sm f c)"
proof -
  have "N (FileName m) \<and> (\<forall>ap \<in> set (Appends m). K (AppendID ap))" if "node self c = Some s" "GetFile (Meta s) f = Some m" for s m
    using listed_meta [OF law_node [OF assms that(1)] that(2)] unfolding good_meta_def by blast
  then show ?thesis
    using assms unfolding push_file_def Let_def
    by (auto split: option.split intro!: fold_keeps [of _ "all_nodes P"] data_push_append data_SendFileToNode)
qed

lemma data_pushFilesToSuccessors:
  "all_nodes P c \<Longrightarrow> all_nodes P (pushFilesToSuccessors self fs succs a b c)"
  unfolding pushFilesToSuccessors_def
  by (rule fold_keeps [of _ "all_nodes P"])
    (auto split: prod.split intro!: fold_keeps [of _ "all_nodes P"] data_push_file dest: data_fetchMetadataFromNode)

lemma data_update_meta:
  assumes "all_nodes P c" and "\<And>m. good_step K N m (f m)"
  shows "all_nodes P (update_meta self f c)"
  using assms by (auto simp: update_meta_def split: option.split intro!: law_put P_Meta dest: law_node)

lemma data_pull_append:
  assumes "all_nodes P c" and "K (AppendID ra)"
  shows "all_nodes P (pull_append self t f la ra c)"
proof -
  have "all_nodes P (snd (ReceiveFileFromNode self t (AppendID ra) True (AppendID ra) c))"
    by (rule data_ReceiveFileFromNode [OF assms(1)]) (simp add: K_Base assms(2))
  then show ?thesis using assms
    by (auto simp: pull_append_def split: prod.split intro!: data_update_meta good_step_intros)
qed

lemma data_pull_file:
  assumes "all_nodes P c" and "good_files K N sm"
  shows "all_nodes P (pull_file self t sm f c)"
proof (cases "(node self c, map_of sm f)")
  case (Pair s m)
  show ?thesis
  proof (cases "s = None \<or> m = None")
    case True
    then show ?thesis using assms Pair by (auto simp: pull_file_def split: option.split)
  next
    case False
    then obtain s0 m0 where s: "node self c = Some s0" "map_of sm f = Some m0" using Pair by auto
    have m0: "N f" "good_meta K N (m0\<lparr>Appends := []\<rparr>)" "\<forall>ap \<in> set (Appends m0). K (AppendID ap)"
      using assms(2) s(2) by (auto simp: good_files_def good_meta_def)
    show ?thesis
    proof (cases "GetFile (Meta s0) f")
      case None
      have "all_nodes P (snd (ReceiveFileFromNode self t f True f c))"
        using N_Base [OF m0(1)] s(1) None by (intro data_ReceiveFileFromNode [OF assms(1)]) auto
      then show ?thesis using s None m0
        by (auto simp: pull_file_def split: prod.split bool.split
            intro!: fold_keeps [of _ "all_nodes P"] data_pull_append data_update_meta good_step_intros)
    next
      case (Some lm)
      then show ?thesis using s m0 assms(1)
        by (auto simp: pull_file_def intro!: fold_keeps [of _ "all_nodes P"] data_pull_append)
    qed
  qed
qed

lemma data_getFilesFromSuccessors:
  "all_nodes P c \<Longrightarrow> all_nodes P (getFilesFromSuccessors self succs a b c)"
  unfolding getFilesFromSuccessors_def
  by (rule fold_keeps [of _ "all_nodes P"])
    (auto split: prod.split intro!: fold_keeps [of _ "all_nodes P"] data_pull_file dest: data_fetchMetadataFromNode)

lemma data_stabilizeRing [data_intros]: "all_nodes P c \<Longrightarrow> all_nodes P (stabilizeRing self f c)"
  by (auto simp: stabilizeRing_def split: option.split sum.split prod.split
      intro!: law_crash data_getFilesFromSuccessors data_pushFilesToSuccessors)

lemma data_handleReplicationWindowChange [data_intros]:
  "all_nodes P c \<Longrightarrow> all_nodes P (handleReplicationWindowChange self i c)"
  by (auto simp: handleReplicationWindowChange_def Let_def split: option.split intro!: data_intros)

section \<open>Client operations\<close>

lemma data_send_all:
  "all_nodes P c \<Longrightarrow> (\<And>a c. all_nodes P c \<Longrightarrow> all_nodes P (snd (send a c))) \<Longrightarrow>
    send_all send as c = (n, c') \<Longrightarrow> all_nodes P c'"
proof (induction as arbitrary: c n)
  case (Cons a as)
  obtain ok c1 where s: "send a c = (ok, c1)" by fastforce
  then have "all_nodes P c1" using Cons.prems(2) [OF Cons.prems(1), of a] by simp
  with Cons s show ?case by (auto split: prod.splits)
qed simp

lemma data_handleCreate:
  assumes "all_nodes P c" and "N hf"
  shows "all_nodes P (snd (handleCreate self sched now lf hf c))"
proof -
  have "all_nodes P (snd (SendFileToNode self a d (new_file now s hf d) c))" if "all_nodes P c" for a d s c
    using data_SendFileToNode [OF that, of "new_file now s hf d"] assms(2) by (simp add: new_file_def)
  from data_send_all [OF assms(1) this] assms(1) show ?thesis
    by (auto simp: handleCreate_def split: option.split sum.split prod.split intro!: law_crash)
qed

lemma data_handleAppend [data_intros]:
  assumes "all_nodes P c"
  shows "all_nodes P (snd (handleAppend self sched now lf hf c))"
proof -
  have "all_nodes P (snd (SendAppendToNode self a d (new_append now s hf d) c))" if "all_nodes P c" for a d s c
    by (rule data_SendAppendToNode [OF that K_new])
  from data_send_all [OF assms(1) this] assms(1) show ?thesis
    by (auto simp: handleAppend_def split: option.split sum.split prod.split intro!: law_crash)
qed

lemma data_receive_local: "all_nodes P c \<Longrightarrow> all_nodes P (snd (ReceiveFileFromNode self t f False lp c))"
  by (rule data_ReceiveFileFromNode) simp_all

lemma data_moves: "P a s \<Longrightarrow> moves s s' \<Longrightarrow> P a s'"
  by (auto simp: moves_def intro!: P_Bandwidth P_Downloads P_LocalDirectory)

lemma data_slow_download:
  assumes c: "all_nodes P c"
  shows "all_nodes P (snd (slow_download self t f lf l sched c))"
proof (cases "node t c")
  case (Some ts)
  obtain all e t' where g: "HyDFS_GetFile (Os c t) f ts = ((all, e), t')" by (metis surj_pair)
  have "P t t'" using law_node [OF c Some] g
    by (auto simp: HyDFS_GetFile_def Let_def split: option.splits intro: P_Bandwidth)
  then have w: "all_nodes P (put_node t t' c)" using c by (intro law_put)
  have "P self s'" if "(if self = t then Some t' else node self c) = Some s"
    "run_until os k is (s\<lparr>Downloads := ds\<rparr>) = (r, s')" for s s' os k "is" ds r
    using data_moves [OF P_Downloads [OF law_node [OF w, of self s]], of ds s'] moves_run [of "s\<lparr>Downloads := ds\<rparr>" os k "is"] that
    by simp
  then show ?thesis using c w
    by (auto simp: slow_download_def Some g Let_def split: option.split prod.split intro!: law_put)
qed (use assms in \<open>simp add: slow_download_def\<close>)

lemma data_download_attempt:
  assumes "all_nodes P c"
  shows "all_nodes P (snd (download_attempt self t f lf c))"
proof -
  obtain l c1 where l: "next_link c = (l, c1)" by fastforce
  show ?thesis using assms law_next_link [OF assms l]
    by (auto simp: download_attempt_def l split: link.split intro!: data_slow_download data_receive_local)
qed

lemma data_try_targets: "all_nodes P c \<Longrightarrow> all_nodes P (snd (try_targets self hf lf as c))"
proof (induction as arbitrary: c)
  case (Cons a as)
  then show ?case
    using data_download_attempt [OF Cons.prems, of self a hf lf] by (auto split: prod.split)
qed simp

lemma data_handleGet [data_intros]: "all_nodes P c \<Longrightarrow> all_nodes P (snd (handleGet self hf lf c))"
  by (auto simp: handleGet_def split: option.split sum.split intro!: law_crash data_try_targets)

lemma data_handleGetFromReplica [data_intros]:
  "all_nodes P c \<Longrightarrow> all_nodes P (snd (handleGetFromReplica self v hf lf c))"
  using data_receive_local [of c self _ hf lf]
  by (auto simp: handleGetFromReplica_def split: option.split)

lemma data_handleLS [data_intros]:
  assumes "all_nodes P c"
  shows "all_nodes P (snd (handleLS self f c))"
proof -
  have "all_nodes P (snd (ls_targets f as c))" if "all_nodes P c" for as c
    using that
  proof (induction as arbitrary: c)
    case (Cons a as)
    obtain r c1 where r: "callGetFileMetadata a f c = (r, c1)" by fastforce
    obtain found c2 where f: "ls_targets f as c1 = (found, c2)" by fastforce
    have "all_nodes P (snd (ls_targets f as c1))"
      using Cons.IH data_callGetFileMetadata [OF Cons.prems r] by blast
    then show ?case by (simp add: r f)
  qed simp
  then show ?thesis using assms by (auto simp: handleLS_def split: option.split sum.split intro!: law_crash)
qed

section \<open>Merging\<close>

lemma data_UpdateAppendOrder:
  assumes "P a s" and "\<forall>ap \<in> set as. K (AppendID ap)"
  shows "P a (snd (UpdateAppendOrder f as s))"
proof (cases "GetFile (Meta s) f")
  case (Some m)
  then have "good_meta K N (m\<lparr>Appends := as\<rparr>)"
    using listed_meta [OF assms(1) Some] assms(2) by (auto simp: good_meta_def)
  then have "P a (s\<lparr>Meta := AddFile (m\<lparr>Appends := as\<rparr>) (Meta s)\<rparr>)"
    by (intro P_Meta assms(1) good_step_intros)
  then show ?thesis using Some by (simp add: UpdateAppendOrder_def)
qed (use assms in \<open>simp add: UpdateAppendOrder_def\<close>)

lemma data_ensureRemoteFileInSync:
  "all_nodes P c \<Longrightarrow> ensureRemoteFileInSync self m f lm c = (ok, c1) \<Longrightarrow> all_nodes P c1"
  by (auto simp: ensureRemoteFileInSync_def split: prod.splits option.splits if_splits
      dest: data_callGetFileMetadata intro!: data_stabilizeRing)

lemma data_syncRemoteAppendOrder:
  assumes "all_nodes P c" and "\<forall>ap \<in> set (Appends lm). K (AppendID ap)"
  shows "all_nodes P (syncRemoteAppendOrder m f lm ids c)"
proof -
  have "all_nodes P (snd (CallUpdateAppendOrder a f (Appends lm) c))" if "all_nodes P c" for a c
    unfolding CallUpdateAppendOrder_def by (intro law_makeRPCCall_snd that data_UpdateAppendOrder assms(2))
  then show ?thesis using assms(1)
    by (auto simp: syncRemoteAppendOrder_def split: prod.split option.split dest: data_callGetFileMetadata)
qed

lemma data_merge_successor:
  "all_nodes P c \<Longrightarrow> \<forall>ap \<in> set (Appends lm). K (AppendID ap) \<Longrightarrow> all_nodes P (merge_successor self f lm ids m c)"
  by (auto simp: merge_successor_def split: prod.split dest: data_ensureRemoteFileInSync
      intro!: data_syncRemoteAppendOrder)

lemma data_executeMerge [data_intros]:
  assumes "all_nodes P c"
  shows "all_nodes P (executeMerge self f c)"
proof -
  have "\<forall>ap \<in> set (Appends m). K (AppendID ap)" if "node self c = Some s" "GetFile (Meta s) f = Some m" for s m
    using listed_meta [OF law_node [OF assms that(1)] that(2)] by (simp add: good_meta_def)
  then show ?thesis using assms
    by (auto simp: executeMerge_def split: option.split sum.split
        intro!: law_crash fold_keeps [of _ "all_nodes P"] data_merge_successor)
qed

lemma data_executeMergeForAllFiles [data_intros]: "all_nodes P c \<Longrightarrow> all_nodes P (executeMergeForAllFiles self c)"
  by (auto simp: executeMergeForAllFiles_def split: option.split sum.split
      intro!: law_crash data_intros fold_keeps [of _ "all_nodes P"])

lemma data_handleMergeCommand [data_intros]: "all_nodes P c \<Longrightarrow> all_nodes P (snd (handleMergeCommand self f c))"
  by (auto simp: handleMergeCommand_def split: option.split sum.split prod.split list.split
      intro!: law_crash data_intros dest: law_next_link)

lemma data_CallMultiAppend: "all_nodes P c \<Longrightarrow> all_nodes P (snd (CallMultiAppend sched now a hf lf c))"
  by (auto simp: CallMultiAppend_def split: prod.split intro!: data_intros dest: law_next_link)

lemma data_multi_append: "all_nodes P c \<Longrightarrow> all_nodes P (snd (multi_append sched now hf ps c))"
proof (induction sched now hf ps c rule: multi_append.induct)
  case (2 sched now hf v lf rest c)
  show ?case
  proof (cases "map_of NodeMap v")
    case None
    with 2 show ?thesis by simp
  next
    case (Some a)
    obtain ok c1 where r: "CallMultiAppend sched now a hf lf c = (ok, c1)" by fastforce
    then have "all_nodes P c1" using data_CallMultiAppend [OF "2.prems", of sched now a hf lf] by simp
    with "2.IH"(2) [OF Some r [symmetric]] have "all_nodes P (snd (multi_append sched now hf rest c1))" .
    then show ?thesis by (cases "multi_append sched now hf rest c1") (simp add: Some r)
  qed
qed simp

lemma data_handleMultiAppend [data_intros]:
  "all_nodes P c \<Longrightarrow> all_nodes P (snd (handleMultiAppend self sched now hf vs ls c))"
  by (auto simp: handleMultiAppend_def intro!: law_crash data_multi_append)

end

section \<open>Events\<close>

text \<open>
  \<open>C\<close> holds of the command lines that may run, and \<open>free\<close> of the nodes that may be started and may
  collect: the events of a run that can only do what the laws describe.
\<close>

definition harmless_event :: "(string \<Rightarrow> bool) \<Rightarrow> (string \<Rightarrow> bool) \<Rightarrow> (string \<Rightarrow> bool) \<Rightarrow> event \<Rightarrow> bool" where
  "harmless_event K C free e \<longleftrightarrow>
     (case e of
        Start name _ _ \<Rightarrow> (case map_of NodeMap name of None \<Rightarrow> True | Some a \<Rightarrow> free a)
      | CollectorTick a \<Rightarrow> free a
      | CommandLine _ cmd \<Rightarrow> C cmd
      | Request _ (ExecuteCommandReq cmd) \<Rightarrow> C cmd
      | Request _ (UpdateAppendOrderReq _ as) \<Rightarrow> \<forall>ap \<in> set as. K (AppendID ap)
      | _ \<Rightarrow> True)"

locale data_event_law = data_law +
  fixes C :: "string \<Rightarrow> bool" and free :: "string \<Rightarrow> bool"
  assumes P_Config [data_intros]: "P a s \<Longrightarrow> P a (s\<lparr>Config := cfg\<rparr>)"
    and P_leave [data_intros]: "P a s \<Longrightarrow> P a (leaveGroup now s)"
    and P_merge [data_intros]: "P a s \<Longrightarrow> P a (mergeMembership clk ms sid s)"
    and P_Join [data_intros]: "P a s \<Longrightarrow> P a (snd (Join now m s))"
    and P_heartbeat [data_intros]: "P a s \<Longrightarrow> P a (increaseHeartbeat now s)"
    and P_detector [data_intros]: "P a s \<Longrightarrow> P a (snd (MarkSuspectIfNeeded clk st dt ct s))"
    and P_Goroutines: "P a s \<Longrightarrow> (\<And>cmd. HandleCommand cmd \<in> set g \<Longrightarrow> C cmd) \<Longrightarrow> P a (s\<lparr>Goroutines := g\<rparr>)"
    and P_tasks: "P a s \<Longrightarrow> HandleCommand cmd \<in> set (Goroutines s) \<Longrightarrow> C cmd"
    and P_New: "map_of NodeMap n = Some a \<Longrightarrow> free a \<Longrightarrow>
      P a (NewServer initial_Config created now fd ld a (IntroducerAddr initial_Config) i)"
    and P_clear: "free a \<Longrightarrow> P a s \<Longrightarrow> P a (s\<lparr>FileDirectory := d\<rparr>)"
    and P_collect: "free a \<Longrightarrow> P a s \<Longrightarrow> deleteFilesOutsideMyRange os ord s = Inr s' \<Longrightarrow> P a s'"
    and C_create: "C cmd \<Longrightarrow> parse_command cmd = Create l h \<Longrightarrow> N h"
begin

lemma data_update_node:
  "all_nodes P c \<Longrightarrow> (\<And>s. P a s \<Longrightarrow> P a (f s)) \<Longrightarrow> all_nodes P (update_node a f c)"
  by (rule law_update_node)

lemma data_ProtocolSwitch: "P a s \<Longrightarrow> P a (snd (ProtocolSwitch p x s))"
  by (simp add: ProtocolSwitch_def P_Config)

lemma data_handleSwitch [data_intros]: "all_nodes P c \<Longrightarrow> all_nodes P (snd (handleSwitch self p q c))"
  by (auto simp: handleSwitch_def Let_def split: option.split
      intro!: fold_keeps [of _ "all_nodes P"] law_makeRPCCall_snd law_put P_Config data_ProtocolSwitch dest: law_node)

lemma data_handleCommand:
  assumes "all_nodes P c" and "C cmd"
  shows "all_nodes P (handleCommand self sched pf now cmd c)"
  using assms(1) C_create [OF assms(2)]
  by (auto simp: handleCommand_def split: Command.split prod.split intro!: law_update_node data_handleCreate data_intros)

lemma data_at_node:
  assumes "all_nodes P c" and "\<And>s. P self s \<Longrightarrow> P self (snd (h s))"
  shows "all_nodes P (snd (at_node self w h c))"
proof (cases "node self c")
  case (Some s)
  have "P self (snd (h s))" using assms(2) law_node [OF assms(1) Some] by blast
  with assms(1) Some show ?thesis by (cases "h s") (auto simp: at_node_def intro: law_put)
qed (use assms in \<open>simp add: at_node_def\<close>)

lemma data_ExecuteCommand:
  assumes "P a s" and "C cmd"
  shows "P a (snd (ExecuteCommand cmd s))"
proof -
  have "P a (s\<lparr>Goroutines := Goroutines s @ [HandleCommand cmd]\<rparr>)"
    by (rule P_Goroutines [OF assms(1)]) (use P_tasks [OF assms(1)] assms(2) in auto)
  then show ?thesis by (simp add: ExecuteCommand_def)
qed

lemma data_handleRPCRequest:
  assumes "all_nodes P c" and "harmless_event K C free (Request self req)"
  shows "all_nodes P (snd (handleRPCRequest env self req c))"
  using assms
  by (cases req) (auto simp: handleRPCRequest_def harmless_event_def Gossip_def Ping_def Let_def
      intro!: data_at_node data_intros data_ProtocolSwitch data_ExecuteCommand data_UpdateAppendOrder)

lemma data_Ping: "P a s \<Longrightarrow> P a (snd (Ping clk sid ms s))"
  by (simp add: Ping_def Let_def P_merge)

lemma data_Gossip: "P a s \<Longrightarrow> P a (snd (Gossip clk sid ms s))"
  by (simp add: Gossip_def P_merge)

lemma data_run_call: "all_nodes P c \<Longrightarrow> all_nodes P (run_call env self call c)"
  by (cases call) (auto simp: run_call_def ping_answered_def split: prod.split option.split
      intro!: law_makeRPCCall_snd law_update_node data_Gossip P_merge dest: law_makeRPCCall [where P = P, OF _ _ data_Ping])

lemma data_message_tick: "all_nodes P (Sys y) \<Longrightarrow> all_nodes P (Sys (message_tick env self y))"
  by (auto simp: message_tick_def split: option.split sum.split
      intro!: law_crash fold_keeps [of _ "all_nodes P"] data_run_call)

lemma data_run_task:
  assumes "all_nodes P c"
  shows "all_nodes P (run_task env self i c)"
proof (cases "node self c")
  case (Some s)
  let ?g = "take i (Goroutines s) @ drop (Suc i) (Goroutines s)"
  let ?c = "put_node self (s\<lparr>Goroutines := ?g\<rparr>) c"
  have s: "P self s" using law_node [OF assms Some] .
  have "HandleCommand cmd \<in> set (Goroutines s)" if "HandleCommand cmd \<in> set ?g" for cmd
    using that in_set_takeD in_set_dropD by (metis Un_iff set_append)
  then have "P self (s\<lparr>Goroutines := ?g\<rparr>)" using P_Goroutines [OF s] P_tasks [OF s] by blast
  then have c: "all_nodes P ?c" using assms by (intro law_put)
  show ?thesis
  proof (cases "i < length (Goroutines s)")
    case True
    then have "C cmd" if "Goroutines s ! i = HandleCommand cmd" for cmd
      using P_tasks [OF s, of cmd] nth_mem [OF True] that by simp
    then show ?thesis using Some True c
      by (auto simp: run_task_def Let_def split: Task.split intro!: data_handleCommand data_intros)
  qed (use Some assms in \<open>simp add: run_task_def\<close>)
qed (use assms in \<open>simp add: run_task_def\<close>)

lemma data_start_node:
  assumes "all_nodes P c" and "\<And>a. map_of NodeMap n = Some a \<Longrightarrow> free a"
  shows "all_nodes P (start_node env n fd ld c)"
proof (cases "map_of NodeMap n")
  case (Some a)
  have a: "free a" by (rule assms(2) [OF Some])
  have new: "P a (NewServer initial_Config cr now fd ld a (IntroducerAddr initial_Config) i)" for cr now i
    by (rule P_New [OF Some a])
  show ?thesis
  proof (cases "node a c")
    case None
    let ?s = "NewServer initial_Config (Clk env 0) (Clk env 1) fd ld a (IntroducerAddr initial_Config)
      (a = IntroducerAddr initial_Config)"
    obtain resp c1 where call: "makeRPCCall (ServerIntroducerAddr ?s) (Join (Clk env 2) (join_member (Clk env 3) ?s)) c = (resp, c1)"
      by fastforce
    have c1: "all_nodes P c1" by (rule law_makeRPCCall [OF assms(1) call P_Join])
    have "P a s'" if "notifyIntroducer clk resp ?s = Some s'" for clk s'
      using that new by (auto simp: notifyIntroducer_def Let_def split: option.splits intro!: P_merge P_Config)
    then show ?thesis using None Some call c1 assms(1) new a
      by (auto simp: start_node_def Let_def split: option.split intro!: law_put P_clear)
  next
    case running: (Some s)
    then show ?thesis using Some assms(1) a law_node [OF assms(1) running]
      by (auto simp: start_node_def intro!: law_put P_clear)
  qed
qed (use assms in \<open>simp add: start_node_def\<close>)

lemma data_collector_tick: "all_nodes P c \<Longrightarrow> free self \<Longrightarrow> all_nodes P (collector_tick self c)"
  by (auto simp: collector_tick_def split: option.split sum.split intro!: law_crash law_put intro: P_collect dest: law_node)

lemma data_event_step:
  assumes "all_nodes P (Sys y)" and "harmless_event K C free (snd x)"
  shows "all_nodes P (Sys (event_step x y))"
proof (cases x)
  case (Pair env e)
  show ?thesis
  proof (cases e)
    case (Request self req)
    then show ?thesis using assms data_handleRPCRequest [of "Sys y" self req env] by (simp add: event_step_def Pair)
  qed (use assms Pair in \<open>auto simp: event_step_def harmless_event_def intro!: law_crash law_update_node law_Environment data_intros
      data_start_node data_moves [OF _ moves_step] data_handleCommand data_message_tick data_collector_tick data_run_task\<close>)
qed

lemma data_run:
  "all_nodes P (Sys y) \<Longrightarrow> \<forall>x \<in> set es. harmless_event K C free (snd x) \<Longrightarrow> all_nodes P (Sys (fold event_step es y))"
  by (induction es arbitrary: y) (simp_all add: data_event_step)

end

end
