(* ===== verification/Durability.thy ===== *)
theory Durability
  imports Data_Laws Cluster_Properties
begin

text \<open>
  What is stored stays stored: the interpretation of \<open>Data_Laws\<close> for the contents of a file on a node.
  Only the node's own garbage collector, a new start of the node and its crash can take a file away.
\<close>

section \<open>Names\<close>

text \<open>
  A name without separators and with fewer than two underscores is not the identifier of an append. A
  name is harmless to \<open>f\<close> if neither it nor its last element is \<open>f\<close>; files may be named \<open>f\<close> or have
  another last element; and a command may create such files.
\<close>

definition plain_name :: "string \<Rightarrow> bool" where
  "plain_name f \<longleftrightarrow> f \<noteq> '''' \<and> CHR ''/'' \<notin> set f \<and> count_list f (CHR ''_'') < 2"

definition harmless_name :: "string \<Rightarrow> string \<Rightarrow> bool" where
  "harmless_name f x \<longleftrightarrow> x \<noteq> f \<and> Base x \<noteq> f"

definition file_name_ok :: "string \<Rightarrow> string \<Rightarrow> bool" where
  "file_name_ok f g \<longleftrightarrow> g = f \<or> Base g \<noteq> f"

definition command_ok :: "string \<Rightarrow> string \<Rightarrow> bool" where
  "command_ok f cmd = (case parse_command cmd of Create _ h \<Rightarrow> file_name_ok f h | _ \<Rightarrow> True)"

lemma Base_tail:
  assumes "CHR ''/'' \<notin> set y" and "y \<noteq> []"
  shows "\<exists>h'. Base (h @ y) = h' @ y"
proof -
  have "last y \<noteq> CHR ''/''" using assms last_in_set by metis
  then have "rev y \<noteq> []" "hd (rev y) \<noteq> CHR ''/''" using assms(2) by (simp_all add: hd_rev)
  then have "dropWhile (\<lambda>c. c = CHR ''/'') (rev (h @ y)) = rev (h @ y)"
    by (cases "rev y") (simp_all add: dropWhile_append)
  moreover have "takeWhile (\<lambda>c. c \<noteq> CHR ''/'') (rev (h @ y)) = rev y @ takeWhile (\<lambda>c. c \<noteq> CHR ''/'') (rev h)"
    using assms(1) by (auto simp: takeWhile_append)
  ultimately have "Base (h @ y) = rev (takeWhile (\<lambda>c. c \<noteq> CHR ''/'') (rev h)) @ y"
    using assms(2) by (simp add: Base_def Let_def)
  then show ?thesis by blast
qed

lemma Base_Base: "Base (Base x) = Base x"
proof -
  define last_element where
    "last_element = rev (takeWhile (\<lambda>c. c \<noteq> CHR ''/'') (dropWhile (\<lambda>c. c = CHR ''/'') (rev x)))"
  have "Base x = (if x = '''' then ''.'' else if last_element = '''' then ''/'' else last_element)"
    by (simp add: Base_def Let_def last_element_def)
  moreover have "CHR ''/'' \<notin> set last_element"
    using set_takeWhileD by (fastforce simp: last_element_def)
  moreover have "Base ''.'' = ''.''" "Base ''/'' = ''/''" by (simp_all add: Base_def)
  ultimately show ?thesis using Base_plain by simp
qed

lemma vm_name_plain: "CHR ''/'' \<notin> set (vm_name a)"
proof -
  have "list_all (\<lambda>(k, v). CHR ''/'' \<notin> set v) (AddressToVMName id)" by code_simp
  then have "CHR ''/'' \<notin> set v" if "map_of (AddressToVMName id) a = Some v" for v
    using map_of_SomeD [OF that] by (auto simp: list_all_iff)
  then show ?thesis by (simp add: vm_name_def split: option.split)
qed

lemma itoa_plain: "CHR ''/'' \<notin> set (itoa i)"
proof -
  have "char_digit (CHR ''/'') = None" by code_simp
  then have "CHR ''/'' \<notin> set (digits n)" for n using digits_all [of "CHR ''/''" n] by auto
  then show ?thesis by (simp add: itoa_def)
qed

text \<open>The identifiers of new appends are harmless to every plain name.\<close>

lemma new_append_harmless:
  assumes "plain_name f"
  shows "harmless_name f (AppendID (new_append now s h d))"
proof -
  let ?y = "''_'' @ itoa (Unix now) @ ''_'' @ vm_name (Addr s)"
  have id: "AppendID (new_append now s h d) = h @ ?y" by (simp add: new_append_def Let_def)
  have "CHR ''/'' \<notin> set ?y" using vm_name_plain itoa_plain by simp
  then obtain h' where base: "Base (h @ ?y) = h' @ ?y" using Base_tail [of ?y h] by auto
  have "g @ ?y \<noteq> f" for g
  proof
    assume "g @ ?y = f"
    then have "count_list f (CHR ''_'') = count_list (g @ ?y) (CHR ''_'')" by simp
    then show False using assms by (simp add: plain_name_def)
  qed
  then show ?thesis using base by (simp only: harmless_name_def id) metis
qed

section \<open>Nodes that keep a file\<close>

text \<open>
  A tidy node: well-formed, its files and the appends listed for them have harmless names, and so have the
  files that its pending commands may create. On the nodes of \<open>A\<close> the file is listed and has these
  contents; the name of the file is asked to be plain where it matters.
\<close>

definition tidy_node :: "string \<Rightarrow> Server \<Rightarrow> bool" where
  "tidy_node f s \<longleftrightarrow> wf_server s \<and> good_files (harmless_name f) (file_name_ok f) (Files (Meta s)) \<and>
     (\<forall>cmd. HandleCommand cmd \<in> set (Goroutines s) \<longrightarrow> command_ok f cmd)"

definition stored_at :: "string \<Rightarrow> bytes \<Rightarrow> Server \<Rightarrow> bool" where
  "stored_at f d s \<longleftrightarrow> GetFile (Meta s) f \<noteq> None \<and> map_of (FileDirectory s) f = Some d"

definition harmless_append :: "string \<Rightarrow> string \<Rightarrow> bool" where
  "harmless_append f x \<longleftrightarrow> (plain_name f \<longrightarrow> harmless_name f x)"

definition kept :: "string set \<Rightarrow> string \<Rightarrow> bytes \<Rightarrow> string \<Rightarrow> Server \<Rightarrow> bool" where
  "kept A f d a s \<longleftrightarrow> wf_server s \<and> good_files (harmless_append f) (file_name_ok f) (Files (Meta s)) \<and>
     (\<forall>cmd. HandleCommand cmd \<in> set (Goroutines s) \<longrightarrow> command_ok f cmd) \<and>
     (plain_name f \<and> a \<in> A \<longrightarrow> stored_at f d s)"

lemma kept_plain:
  assumes "plain_name f"
  shows "harmless_append f = harmless_name f" and "kept A f d a s \<longleftrightarrow> tidy_node f s \<and> (a \<in> A \<longrightarrow> stored_at f d s)"
proof -
  show eq: "harmless_append f = harmless_name f" using assms by (simp add: harmless_append_def fun_eq_iff)
  show "kept A f d a s \<longleftrightarrow> tidy_node f s \<and> (a \<in> A \<longrightarrow> stored_at f d s)"
    using assms by (auto simp: kept_def tidy_node_def eq)
qed

text \<open>Metadata, contents and pending commands: what the control operations leave alone.\<close>

definition data_part :: "Server \<Rightarrow> Metadata \<times> directory \<times> string set" where
  "data_part s = (Meta s, FileDirectory s, {cmd. HandleCommand cmd \<in> set (Goroutines s)})"

lemma kept_cong: "data_part s' = data_part s \<Longrightarrow> wf_server s' \<Longrightarrow> kept A f d a s \<Longrightarrow> kept A f d a s'"
  by (auto simp: kept_def stored_at_def data_part_def)

lemma data_part_update [simp]:
  "data_part (s\<lparr>Members := ms\<rparr>) = data_part s" "data_part (s\<lparr>IncarnationNumber := i\<rparr>) = data_part s"
  "data_part (handleDeadNode m s) = data_part s" "data_part (handleNewlyJoinedNode m s) = data_part s"
  "data_part (set_member m s) = data_part s"
  by (auto simp: data_part_def handleDeadNode_def handleNewlyJoinedNode_def set_member_def)

lemma data_part_fold [simp]: "data_part (fold handleDeadNode ms s) = data_part s"
  by (induction ms arbitrary: s) simp_all

lemma data_part_merge_one: "data_part (merge_one now snap sid r s) = data_part s"
  by (cases rule: merge_one_cases [of now snap sid r s]) auto

lemma data_part_merge [simp]: "data_part (mergeMembership clk ms sid s) = data_part s"
proof -
  have "data_part (merge_loop clk snap sid ms s) = data_part s" for snap
    by (induction ms arbitrary: clk s) (simp_all add: data_part_merge_one)
  then show ?thesis by (simp add: mergeMembership_def)
qed

lemma data_part_detector [simp]: "wf_server s \<Longrightarrow> data_part (snd (MarkSuspectIfNeeded clk st dt ct s)) = data_part s"
  by (simp add: MarkSuspectIfNeeded_eq [OF wf_server_members refl])

lemma good_files_step:
  assumes "wf_metadata m" and "good_files K N (Files m)" and "good_step K N m m'"
  shows "good_files K N (Files m')" and "GetFile m f \<noteq> None \<Longrightarrow> GetFile m' f \<noteq> None"
proof -
  have "good_files K N (Files m') \<and> (GetFile m f \<noteq> None \<longrightarrow> GetFile m' f \<noteq> None)"
    using assms(3) unfolding good_step_def
  proof (elim disjE exE conjE)
    fix x
    assume m': "m' = AddFile x m" and x: "good_meta K N x"
    have "Files m' = AList.update (FileName x) x (Files m)" by (simp add: m' AddFile_def Let_def)
    then show ?thesis using assms(2) x by (simp add: good_files_def GetFile_def update_conv')
  next
    fix g ap
    assume m': "m' = snd (AppendToFile g ap m)" and ap: "K (AppendID ap)"
    show ?thesis
    proof (cases "GetFile m g")
      case None
      then have "\<not> getFileLock m g" using assms(1) by (simp add: wf_metadata_def)
      then show ?thesis using assms(2) by (simp add: m' AppendToFile_missing)
    next
      case (Some x)
      then have lock: "getFileLock m g" using assms(1) by (simp add: wf_metadata_def)
      have x: "FileName x = g" "good_meta K N x" using assms(2) Some by (simp_all add: good_files_def GetFile_def)
      then have new: "good_meta K N (insertAppend ap x)" using ap by (simp add: good_meta_def)
      show ?thesis
      proof (cases "AppendID ap \<in> AppendID ` set (Appends x)")
        case True
        then show ?thesis using assms(2) AppendToFile_known [OF lock Some] by (simp add: m')
      next
        case False
        note get = AppendToFile_fresh(2) [OF lock Some False]
        have "FileName m2 = k \<and> good_meta K N m2" if "map_of (Files m') k = Some m2" for k m2
        proof -
          have "GetFile m' k = Some m2" using that by (simp add: GetFile_def)
          then have "(if k = g then Some (insertAppend ap x) else GetFile m k) = Some m2" using get [of k] by (simp add: m')
          then have "(if k = g then Some (insertAppend ap x) else map_of (Files m) k) = Some m2" by (simp only: GetFile_def)
          then show ?thesis using new x(1) assms(2) by (auto simp: good_files_def split: if_splits)
        qed
        then show ?thesis using get by (simp add: m' good_files_def)
      qed
    qed
  qed
  then show "good_files K N (Files m')" "GetFile m f \<noteq> None \<Longrightarrow> GetFile m' f \<noteq> None" by auto
qed

lemma wf_good_step: "wf_metadata m \<Longrightarrow> good_step K N m m' \<Longrightarrow> wf_metadata m'"
  using wf_meta_step by (auto simp: good_step_def)

lemma new_node_kept: "a \<notin> A \<Longrightarrow> kept A f d a (NewServer cfg created now fd ld a i b)"
  using wf_NewServer [of cfg created now fd ld a i]
  by (simp add: kept_def NewServer_def Let_def new_Metadata_def)

lemma kept_frame:
  assumes "kept A f d a s"
  shows "kept A f d a (s\<lparr>Bandwidth := b\<rparr>)" "kept A f d a (s\<lparr>LocalDirectory := ld\<rparr>)" "kept A f d a (s\<lparr>Downloads := ds\<rparr>)" "kept A f d a (s\<lparr>Config := cfg\<rparr>)"
    "(\<And>cmd. HandleCommand cmd \<in> set g \<Longrightarrow> command_ok f cmd) \<Longrightarrow> kept A f d a (s\<lparr>Goroutines := g\<rparr>)"
  using assms by (simp_all add: kept_def stored_at_def wf_server_def)

lemma kept_collect_file:
  assumes "a \<notin> A" and "kept A f d a s"
  shows "kept A f d a (collect_file os lo hi g s)"
proof -
  have "good_files K N (Files (snd (DeleteFile g m)))" if "good_files K N (Files m)" for K N m
    using that GetFile_DeleteFile [of g m] by (simp add: good_files_def GetFile_def)
  then show ?thesis using assms
    by (auto simp: collect_file_def kept_def wf_server_def split: option.split intro: wf_DeleteFile)
qed

interpretation files: data_event_law "kept A f d" "harmless_append f" "file_name_ok f" "command_ok f" "\<lambda>a. a \<notin> A"
  for A f d
proof unfold_locales
  fix a s b dir cfg m clk ms sid st dt ct g cmd now ld ds n created fd i os ord s' x h c l
  show "kept A f d a s \<Longrightarrow> good_files (harmless_append f) (file_name_ok f) (Files (Meta s))"
    by (simp add: kept_def)
  show "kept A f d a s \<Longrightarrow> kept A f d a (s\<lparr>Bandwidth := b\<rparr>)" "kept A f d a s \<Longrightarrow> kept A f d a (s\<lparr>LocalDirectory := ld\<rparr>)"
    "kept A f d a s \<Longrightarrow> kept A f d a (s\<lparr>Downloads := ds\<rparr>)"
    "kept A f d a s \<Longrightarrow> kept A f d a (s\<lparr>Config := cfg\<rparr>)"
    "kept A f d a s \<Longrightarrow> (\<And>cmd. HandleCommand cmd \<in> set g \<Longrightarrow> command_ok f cmd) \<Longrightarrow> kept A f d a (s\<lparr>Goroutines := g\<rparr>)"
    by (rule kept_frame; assumption)+
  show "kept A f d a s \<Longrightarrow> (\<And>g. GetFile (Meta s) g \<noteq> None \<Longrightarrow> \<not> harmless_append f g \<Longrightarrow> map_of dir g = map_of (FileDirectory s) g) \<Longrightarrow>
      kept A f d a (s\<lparr>FileDirectory := dir\<rparr>)"
    by (auto simp: kept_def stored_at_def wf_server_def harmless_append_def harmless_name_def)
  show "kept A f d a s \<Longrightarrow> good_step (harmless_append f) (file_name_ok f) (Meta s) m \<Longrightarrow> kept A f d a (s\<lparr>Meta := m\<rparr>)"
    using good_files_step [of "Meta s" "harmless_append f" "file_name_ok f" m] wf_good_step
    by (auto simp: kept_def stored_at_def wf_server_def)
  show "harmless_append f x \<Longrightarrow> harmless_append f (Base x)" by (simp add: harmless_append_def harmless_name_def Base_Base)
  show "file_name_ok f x \<Longrightarrow> Base x = x \<or> harmless_append f (Base x)"
    by (auto simp: file_name_ok_def harmless_append_def harmless_name_def Base_Base)
  show "harmless_append f (AppendID (new_append now s' h c))" by (simp add: harmless_append_def new_append_harmless)
  show "kept A f d a s \<Longrightarrow> kept A f d a (leaveGroup now s)"
    by (rule kept_cong) (auto simp: leaveGroup_def kept_def split: option.split intro!: inv_intros)
  show "kept A f d a s \<Longrightarrow> kept A f d a (mergeMembership clk ms sid s)"
    by (rule kept_cong) (auto simp: kept_def intro: inv_intros)
  show "kept A f d a s \<Longrightarrow> kept A f d a (snd (Join now x' s))" for x'
    by (rule kept_cong) (auto simp: Join_def Let_def kept_def intro!: inv_intros)
  show "kept A f d a s \<Longrightarrow> kept A f d a (increaseHeartbeat now s)"
    by (rule kept_cong) (simp_all add: kept_def wf_increaseHeartbeat, simp add: data_part_def increaseHeartbeat_def Let_def)
  show "kept A f d a s \<Longrightarrow> kept A f d a (snd (MarkSuspectIfNeeded clk st dt ct s))"
    by (rule kept_cong) (auto simp: kept_def intro: inv_intros)
  show "kept A f d a s \<Longrightarrow> HandleCommand cmd \<in> set (Goroutines s) \<Longrightarrow> command_ok f cmd"
    by (simp add: kept_def)
  show "map_of NodeMap n = Some a \<Longrightarrow> a \<notin> A \<Longrightarrow>
      kept A f d a (NewServer initial_Config created now' fd ld a (IntroducerAddr initial_Config) i')" for now' i'
    by (rule new_node_kept)
  show "a \<notin> A \<Longrightarrow> kept A f d a s \<Longrightarrow> kept A f d a (s\<lparr>FileDirectory := dir\<rparr>)"
    by (simp add: kept_def wf_server_def)
  show "a \<notin> A \<Longrightarrow> kept A f d a s \<Longrightarrow> deleteFilesOutsideMyRange os ord s = Inr s' \<Longrightarrow> kept A f d a s'"
    by (auto simp: deleteFilesOutsideMyRange_def Let_def split: if_splits sum.splits option.splits
        intro!: fold_keeps [of _ "kept A f d a"] kept_collect_file)
  show "command_ok f cmd \<Longrightarrow> parse_command cmd = Create l h \<Longrightarrow> file_name_ok f h"
    by (simp add: command_ok_def)
qed

section \<open>Durability\<close>

text \<open>Runs from the start keep all nodes tidy, whoever collects and is started, whatever the addresses.\<close>

lemma tidy_run:
  assumes "plain_name f" and "Nodes (Sys y) = []"
    and "\<forall>x \<in> set es. harmless_event (harmless_name f) (command_ok f) (\<lambda>_. True) (snd x)"
  shows "all_nodes (\<lambda>_. tidy_node f) (Sys (fold event_step es y))"
proof -
  have "all_nodes (kept {} f []) (Sys y)" using assms(2) by (simp add: all_nodes_def node_def)
  from files.data_run [OF this] show ?thesis using assms(3) by (auto simp: all_nodes_def kept_plain [OF assms(1)])
qed

text \<open>
  C2. Stored files are durable: let a plain file name (not empty, no slash, fewer than two underscores: no
  append's identifier looks like this) be stored with contents \<open>d\<close> on any nodes \<open>A\<close>, in a system whose
  metadata is tidy (well-formed, and no listed file or append other than the file itself has its name as
  last element). Take any run of events (requests, commands, membership changes, stabilizations, merges,
  crashes, with disks that fail and recover and calls that are lost at any time) in which the nodes of
  \<open>A\<close> are not started anew and do not collect, and no \<open>create\<close> command
  carries another name, and no \<open>UpdateAppendOrder\<close> request an append's identifier, whose last element is
  the file's name (an upload or append under such a name would overwrite the file). Then
  each of these nodes that is still up lists the file and has exactly the contents \<open>d\<close>, and the metadata
  is tidy again.
\<close>

theorem stored_files_are_durable:
  assumes plain: "plain_name f" and tidy: "all_nodes (\<lambda>_. tidy_node f) (Sys y)"
    and stored: "\<forall>a \<in> A. \<forall>s. node a (Sys y) = Some s \<longrightarrow> stored_at f d s"
    and es: "\<forall>x \<in> set es. harmless_event (harmless_name f) (command_ok f) (\<lambda>a. a \<notin> A) (snd x)"
  shows "all_nodes (\<lambda>_. tidy_node f) (Sys (fold event_step es y)) \<and>
    (\<forall>a \<in> A. \<forall>s. node a (Sys (fold event_step es y)) = Some s \<longrightarrow> stored_at f d s)"
proof -
  have "all_nodes (kept A f d) (Sys y)"
    using tidy stored by (auto simp: all_nodes_def kept_plain [OF plain])
  from files.data_run [OF this] es show ?thesis by (auto simp: all_nodes_def kept_plain [OF plain])
qed

text \<open>
  The file is appended to; then the disks fail, a node collects, another is sent an append order, calls
  will be lost, and a node is killed.
\<close>

definition failing_disk :: os_faults where
  "failing_disk = no_faults\<lparr>WriteFails := (\<lambda>_. Some (Some [])), RemoveFails := (\<lambda>_. True)\<rparr>"

definition rough_run :: "(Env \<times> event) list" where
  "rough_run = map (Pair example_env) [CommandLine ''127.0.0.1:5000'' ''append a.txt f'',
     Environment (\<lambda>_. failing_disk) rev [Broken 1, Unreachable], CollectorTick ''127.0.0.1:5002'',
     Request ''127.0.0.1:5000'' (UpdateAppendOrderReq ''f'' []), Kill ''127.0.0.1:5001'']"

lemma parse_rough: "parse_command ''append a.txt f'' = AppendCmd ''a.txt'' ''f''"
  by code_simp

lemma up_events:
  "node a (Sys (event_step (env, Environment os ord links) y)) = node a (Sys y)"
  "a \<noteq> b \<Longrightarrow> node a (Sys (event_step (env, CollectorTick b) y)) = node a (Sys y)"
  "a \<noteq> b \<Longrightarrow> node a (Sys (event_step (env, Kill b) y)) = node a (Sys y)"
  "node a (Sys (event_step (env, Request a (UpdateAppendOrderReq f as)) y)) = None \<longleftrightarrow> node a (Sys y) = None"
  by (auto simp: event_step_def collector_tick_def handleRPCRequest_def at_node_def node_def crash_def put_node_def
      update_conv' delete_conv' split: option.splits sum.splits prod.splits)

lemma rough_run_up: "node ''127.0.0.1:5000'' (Sys (fold event_step rough_run
    \<lparr>Sys = stocked_cluster, Robin = \<lambda>_. initial_round_robin\<rparr>)) \<noteq> None"
proof -
  let ?a = "''127.0.0.1:5000''" and ?s = "stocked_server ''127.0.0.1:5000''"
  obtain ts where ts: "findTargetNodes trio (file_hash ?s ''f'') 3 = Inr ts"
    "ts \<noteq> []" "distinct (map Address ts)" "set ts \<subseteq> set trio"
    using trio_targets by blast
  have at: "node (Address t) stocked_cluster = Some (stocked_server (Address t))" if "t \<in> set ts" for t
    using that ts(4) by (auto simp: trio_def)
  obtain out c1 where c1: "handleAppend ?a id 0 ''a.txt'' ''f'' stocked_cluster = (out, c1)" by fastforce
  have "view ?a c1 \<noteq> None"
    using append_stores [OF _ _ _ ts(2,3) _ _ _ _ c1, of ?s "[1, 2, 3]"] ts(1) at
    by (auto simp: appendable_def new_append_def Let_def example_file_def Base_def) (simp_all add: view_def)
  then have "node ?a (Sys (event_step (example_env, CommandLine ?a ''append a.txt f'')
      \<lparr>Sys = stocked_cluster, Robin = \<lambda>_. initial_round_robin\<rparr>)) \<noteq> None"
    by (simp add: event_step_def handleCommand_def example_env_def c1 view_None parse_rough)
  then show ?thesis by (simp add: rough_run_def up_events)
qed

theorem stored_files_are_durable_witness:
  "\<exists>s. node ''127.0.0.1:5000'' (Sys (fold event_step rough_run
      \<lparr>Sys = stocked_cluster, Robin = \<lambda>_. initial_round_robin\<rparr>)) = Some s \<and> stored_at ''f'' [9] s"
proof -
  let ?y = "\<lparr>Sys = stocked_cluster, Robin = \<lambda>_. initial_round_robin\<rparr>" and ?es = rough_run
  have plain: "plain_name ''f''" by (simp add: plain_name_def)
  have tidy: "tidy_node ''f'' (stocked_server a)" for a
  proof -
    have "Files (Meta (stocked_server a)) = [(''f'', example_file ''f'' 20)]"
      by (simp add: stocked_server_def AddFile_def new_Metadata_def example_file_def)
    moreover have "wf_members trio" by (simp add: trio_def wf_members_def ID_example)
    then have "wf_server (stocked_server a)"
      using stocked_simps(6) by (simp add: wf_server_def) (simp add: stocked_server_def trio_server_def example_server_def inv_intros)
    moreover have "good_files (harmless_name ''f'') (file_name_ok ''f'') [(''f'', example_file ''f'' 20)]"
      by (simp add: good_files_def good_meta_def file_name_ok_def example_file_def)
    moreover have "Goroutines (stocked_server a) = []" by (simp add: stocked_server_def trio_server_def example_server_def inv_intros)
    ultimately show ?thesis by (simp add: tidy_node_def)
  qed
  have "all_nodes (\<lambda>_. tidy_node ''f'') (Sys ?y)" using tidy by (auto simp: all_nodes_def)
  moreover have "\<forall>a \<in> {''127.0.0.1:5000''}. \<forall>s. node a (Sys ?y) = Some s \<longrightarrow> stored_at ''f'' [9] s"
    by (simp add: stored_at_def)
  moreover have "\<forall>x \<in> set ?es. harmless_event (harmless_name ''f'') (command_ok ''f'') (\<lambda>a. a \<notin> {''127.0.0.1:5000''}) (snd x)"
    by (auto simp: harmless_event_def rough_run_def command_ok_def parse_rough)
  ultimately have "\<forall>a \<in> {''127.0.0.1:5000''}. \<forall>s. node a (Sys (fold event_step ?es ?y)) = Some s \<longrightarrow> stored_at ''f'' [9] s"
    using stored_files_are_durable [OF plain] by blast
  then show ?thesis using rough_run_up by auto
qed

end
