(* ===== verification/Merge_Overrides.thy ===== *)
theory Merge_Overrides
  imports Durability Replication_Properties
begin

text \<open>
  What a merge does to a replica that lists other appends than the primary, in any cluster in which the
  calls get through: it takes over the list of the primary.
\<close>

section \<open>Calls that get through\<close>

lemma next_link_idle: "Network c = [] \<Longrightarrow> next_link c = (Up, c)"
  by (simp add: next_link_def)

lemma idle_crash [simp]: "Network (crash a c) = Network c"
  by (simp add: crash_def)

lemma idle_call: "Network c = [] \<Longrightarrow> Network (snd (makeRPCCall a h c)) = []"
  by (simp add: makeRPCCall_def next_link_idle split: option.split prod.split)

lemma idle_call_eq: "makeRPCCall a h c = (r, c1) \<Longrightarrow> Network c = [] \<Longrightarrow> Network c1 = []"
  using idle_call [of c a h] by simp

lemma idle_send:
  "Network c = [] \<Longrightarrow> Network (snd (SendFileToNode self t d m c)) = []"
  "Network c = [] \<Longrightarrow> Network (snd (SendAppendToNode self t d a c)) = []"
  "Network c = [] \<Longrightarrow> Network (snd (ReceiveFileFromNode self t f b lp c)) = []"
  by (simp_all add: SendFileToNode_def SendAppendToNode_def ReceiveFileFromNode_def next_link_idle add_sent_def Let_def
      split: option.split prod.split sum.split)

lemma idle_push_file: "Network c = [] \<Longrightarrow> Network (push_file self t sm f c) = []"
  unfolding push_file_def Let_def push_append_def
  by (auto split: option.split intro!: fold_keeps [of _ "\<lambda>c. Network c = []"] idle_send)

lemma idle_fetch: "fetchMetadataFromNode m a b c = (fs, c1) \<Longrightarrow> Network c = [] \<Longrightarrow> Network c1 = []"
  by (auto simp: fetchMetadataFromNode_def GetKeysMetadata_def split: prod.splits option.splits dest: idle_call_eq)

lemma idle_pull_append: "Network c = [] \<Longrightarrow> Network (pull_append self t f la ra c) = []"
  using idle_send(3) [of c self t "AppendID ra" True "AppendID ra"]
  by (auto simp: pull_append_def update_meta_def split: prod.split option.split)

lemma idle_pull_file: "Network c = [] \<Longrightarrow> Network (pull_file self t sm f c) = []"
  using idle_send(3) [of c self t f True f]
  by (auto simp: pull_file_def update_meta_def split: option.split prod.split bool.split
      intro!: fold_keeps [of _ "\<lambda>c. Network c = []"] idle_pull_append)

lemma idle_stabilizeRing: "Network c = [] \<Longrightarrow> Network (stabilizeRing self f c) = []"
  unfolding stabilizeRing_def pushFilesToSuccessors_def getFilesFromSuccessors_def
  by (auto split: option.split sum.split prod.split dest: idle_fetch
      intro!: fold_keeps [of _ "\<lambda>c. Network c = []"] idle_push_file idle_pull_file)

lemma idle_merge_successor: "Network c = [] \<Longrightarrow> Network (merge_successor self f lm ids m c) = []"
  by (auto simp: merge_successor_def ensureRemoteFileInSync_def syncRemoteAppendOrder_def callGetFileMetadata_def
      CallUpdateAppendOrder_def split: prod.splits option.splits if_splits
      intro!: idle_call idle_stabilizeRing dest: idle_call_eq)

section \<open>The successor that is merged\<close>

text \<open>Every file is listed under its own name. A node that is up stays one that lists \<open>f\<close>; one that is down stays down.\<close>

definition keyed :: "Server \<Rightarrow> bool" where
  "keyed s \<longleftrightarrow> wf_metadata (Meta s) \<and> (\<forall>g m. GetFile (Meta s) g = Some m \<longrightarrow> FileName m = g)"

definition lists_at :: "bool \<Rightarrow> string \<Rightarrow> string \<Rightarrow> string \<Rightarrow> Server \<Rightarrow> bool" where
  "lists_at up t f a s \<longleftrightarrow> keyed s \<and> (a = t \<longrightarrow> up \<and> GetFile (Meta s) f \<noteq> None)"

lemma keyed_good: "keyed s \<longleftrightarrow> wf_metadata (Meta s) \<and> good_files (\<lambda>_. True) (\<lambda>_. True) (Files (Meta s))"
  by (auto simp: keyed_def good_files_def good_meta_def GetFile_def)

interpretation replica: data_law "lists_at up t f" "\<lambda>_. True" "\<lambda>_. True" for up t f
proof unfold_locales
  fix a s b d ds m
  show "lists_at up t f a s \<Longrightarrow> good_files (\<lambda>_. True) (\<lambda>_. True) (Files (Meta s))"
    by (simp add: lists_at_def keyed_good)
  show "lists_at up t f a s \<Longrightarrow> lists_at up t f a (s\<lparr>Bandwidth := b\<rparr>)" "lists_at up t f a s \<Longrightarrow> lists_at up t f a (s\<lparr>LocalDirectory := d\<rparr>)"
    "lists_at up t f a s \<Longrightarrow> lists_at up t f a (s\<lparr>Downloads := ds\<rparr>)" "lists_at up t f a s \<Longrightarrow> lists_at up t f a (s\<lparr>FileDirectory := d\<rparr>)"
    by (simp_all add: lists_at_def keyed_def)
  show "lists_at up t f a s \<Longrightarrow> good_step (\<lambda>_. True) (\<lambda>_. True) (Meta s) m \<Longrightarrow> lists_at up t f a (s\<lparr>Meta := m\<rparr>)"
    using good_files_step [of "Meta s" "\<lambda>_. True" "\<lambda>_. True" m] wf_good_step [of "Meta s"]
    by (auto simp: lists_at_def keyed_good)
qed simp_all

lemma merge_successor_lists:
  assumes keyed: "all_nodes (\<lambda>_. keyed) c" and idle: "Network c = []" and x: "node (Address u) c = Some x" "GetFile (Meta x) f \<noteq> None"
    and self: "node self (merge_successor self f lm (map AppendID (Appends lm)) u c) \<noteq> None"
    and x': "node (Address u) (merge_successor self f lm (map AppendID (Appends lm)) u c) = Some x'"
  shows "\<exists>m. GetFile (Meta x') f = Some m \<and> map AppendID (Appends m) = map AppendID (Appends lm)"
proof -
  let ?c' = "merge_successor self f lm (map AppendID (Appends lm)) u c"
  have s: "node self c \<noteq> None"
  proof
    assume "node self c = None"
    then show False using self by (simp add: merge_successor_def)
  qed
  have read: "callGetFileMetadata (Address u) f c = (Some (True, [(f, the (GetFile (Meta x) f))]), put_node (Address u) x c)"
    using x idle by (auto simp: callGetFileMetadata_def makeRPCCall_up GetFileMetadata_def split: option.split)
  define c1 where "c1 = snd (ensureRemoteFileInSync self u f lm c)"
  have ens: "ensureRemoteFileInSync self u f lm c = (True, c1)"
    by (simp add: c1_def ensureRemoteFileInSync_def read)
  have c1: "c1 = put_node (Address u) x c \<or> c1 = stabilizeRing self f (put_node (Address u) x c)"
    by (simp add: c1_def ensureRemoteFileInSync_def read)
  have idle1: "Network c1 = []" using c1 idle idle_stabilizeRing [of "put_node (Address u) x c" self f] by auto
  have kept: "all_nodes (lists_at up t f) c1" if "all_nodes (lists_at up t f) (put_node (Address u) x c)" for up t
    using c1 that replica.data_stabilizeRing by auto
  have merged: "?c' = (if node self c1 = None then c1 else syncRemoteAppendOrder u f lm (map AppendID (Appends lm)) c1)"
    using s by (auto simp: merge_successor_def ens)
  have s1: "node self c1 \<noteq> None"
  proof
    assume none: "node self c1 = None"
    then have "?c' = c1" using merged by simp
    then show False using self none by simp
  qed
  have "node (Address u) c1 \<noteq> None"
  proof
    assume "node (Address u) c1 = None"
    then have "?c' = c1" using s1 merged idle1
      by (simp add: syncRemoteAppendOrder_def callGetFileMetadata_def makeRPCCall_def next_link_idle)
    then show False using x' \<open>node (Address u) c1 = None\<close> by simp
  qed
  then obtain r where r: "node (Address u) c1 = Some r" by auto
  have "all_nodes (lists_at True (Address u) f) (put_node (Address u) x c)"
    using keyed x by (auto simp: all_nodes_def lists_at_def)
  then have "lists_at True (Address u) f (Address u) r" using law_node [OF kept r] by blast
  then obtain rm where rm: "GetFile (Meta r) f = Some rm" "FileName rm = f" by (auto simp: lists_at_def keyed_def)
  from merge_imposes_order [OF s ens idle1 s1 r rm] x' show ?thesis by auto
qed

text \<open>
  C36. A merge overrides what a replica lists: in a cluster in which the calls get through, whatever the
  nodes store and however their disks fail, let a primary list a file, and let the successor that it
  merges last list it too. Then after \<open>executeMerge\<close>, if both are still up, this successor lists exactly
  the appends that the primary listed before, in the primary's order. An append that only the
  successor has, even one that was acknowledged, is not kept on its list.
\<close>

theorem merge_overrides_replica:
  assumes keyed: "all_nodes (\<lambda>_. keyed) c" and idle: "Network c = []" and s: "node self c = Some s"
    and succ: "GetSuccessors (Members s) (ServerID s) (ReplicationFactor (Config s)) = Inr (us @ [u])"
    and f: "GetFile (Meta s) f = Some lm" and x: "node (Address u) c = Some x" "GetFile (Meta x) f \<noteq> None"
    and up: "node self (executeMerge self f c) \<noteq> None" "node (Address u) (executeMerge self f c) = Some x'"
  shows "\<exists>m. GetFile (Meta x') f = Some m \<and> map AppendID (Appends m) = map AppendID (Appends lm)"
proof -
  define merge where "merge = merge_successor self f lm (map AppendID (Appends lm))"
  define c0 where "c0 = fold merge us c"
  have exec: "executeMerge self f c = merge u c0"
    using s succ f by (simp add: executeMerge_def GetAll_def c0_def merge_def)
  have laws: "all_nodes (lists_at b t g) c0" if "all_nodes (lists_at b t g) c" for b t g
    unfolding c0_def merge_def using that by (intro fold_keeps [of _ "all_nodes (lists_at b t g)"] replica.data_merge_successor) simp_all
  have idle0: "Network c0 = []"
    unfolding c0_def merge_def using idle by (intro fold_keeps [of _ "\<lambda>c. Network c = []"] idle_merge_successor)
  have "all_nodes (lists_at True (Address u) f) c" using keyed x by (auto simp: all_nodes_def lists_at_def)
  then have at: "all_nodes (lists_at True (Address u) f) c0" by (rule laws)
  have "node (Address u) c0 \<noteq> None"
  proof
    assume "node (Address u) c0 = None"
    then have "all_nodes (lists_at False (Address u) f) c0" using at by (auto simp: all_nodes_def lists_at_def)
    then have "all_nodes (lists_at False (Address u) f) (merge u c0)"
      unfolding merge_def by (rule replica.data_merge_successor) simp
    then show False using law_node [OF _ up(2) [unfolded exec]] by (fastforce simp: lists_at_def)
  qed
  then obtain x0 where x0: "node (Address u) c0 = Some x0" by auto
  have "GetFile (Meta x0) f \<noteq> None" using law_node [OF at x0] by (simp add: lists_at_def)
  moreover have "all_nodes (\<lambda>_. keyed) c0" using at by (auto simp: all_nodes_def lists_at_def)
  ultimately show ?thesis
    using merge_successor_lists [OF _ idle0 x0 _ up [unfolded exec merge_def]] by blast
qed

text \<open>The successor has stored, and acknowledged, an append that the primary missed; the merge drops it from its list.\<close>

theorem merge_overrides_replica_witness:
  "map_option (\<lambda>x. map_option (map AppendID \<circ> Appends) (GetFile (Meta x) ''f'')) (node ''127.0.0.1:5001'' behind_cluster) =
     Some (Some [''f_7_vm2'']) \<and>
   map_option (\<lambda>x. map_option (map AppendID \<circ> Appends) (GetFile (Meta x) ''f''))
     (node ''127.0.0.1:5001'' (executeMerge ''127.0.0.1:5000'' ''f'' behind_cluster)) = Some (Some [])"
proof -
  let ?u = "example_member ''127.0.0.1:5001'' 88 StatusAlive" and ?c' = "executeMerge ''127.0.0.1:5000'' ''f'' behind_cluster"
  have at: "node ''127.0.0.1:5000'' behind_cluster = Some behind_server" "node ''127.0.0.1:5001'' behind_cluster = Some ahead_server"
    "Network behind_cluster = []"
    by (simp_all add: behind_cluster_def node_def)
  have files: "GetFile (Meta behind_server) g = (if g = ''f'' then Some (example_file ''f'' 20) else None)"
    "GetFile (Meta ahead_server) g = (if g = ''f'' then Some ((example_file ''f'' 20)\<lparr>Appends := [lost_append]\<rparr>) else None)" for g
    by (simp_all add: behind_server_def ahead_server_def GetFile_AddFile example_file_def)
  have "keyed behind_server" "keyed ahead_server"
    by (auto simp: keyed_def files example_file_def) (simp_all add: behind_server_def ahead_server_def wf_AddFile wf_new_Metadata)
  then have keyed: "all_nodes (\<lambda>_. keyed) behind_cluster"
    by (auto simp: all_nodes_def node_def behind_cluster_def split: if_splits)
  have succ: "GetSuccessors (Members behind_server) (ServerID behind_server) (ReplicationFactor (Config behind_server)) = Inr ([] @ [?u])"
    by code_simp
  have up: "node ''127.0.0.1:5000'' ?c' \<noteq> None" "node (Address ?u) ?c' \<noteq> None"
    by code_simp+
  then obtain x' where "node (Address ?u) ?c' = Some x'" by auto
  moreover from this obtain m where "GetFile (Meta x') ''f'' = Some m" "map AppendID (Appends m) = []"
    using merge_overrides_replica [OF keyed at(3,1) succ _ _ _ up(1), of "example_file ''f'' 20" ahead_server x']
    by (auto simp: files at example_member_def example_file_def)
  ultimately show ?thesis by (simp add: at files lost_append_def example_member_def)
qed

end
