(* ===== verification/Console.thy ===== *)
theory Console
  imports Wire_Format Operations Examples
begin

text \<open>
  \<^verbatim>\<open>logger.go\<close> and the commands that only show something: what the process writes to its
  terminal and to its log file. An entry of the log is its text without the time stamp; a write that
  fails is not noticed by the code and is not modelled.
\<close>

section \<open>Formats\<close>

text \<open>
  An argument of \<^verbatim>\<open>fmt.Sprintf\<close> with its Go type. The verbs are those that fit strings and
  integers in the program, \<^verbatim>\<open>%s\<close>, \<^verbatim>\<open>%d\<close>, \<^verbatim>\<open>%v\<close> and
  \<^verbatim>\<open>%%\<close>; the rest is what \<^verbatim>\<open>fmt\<close> makes of a verb that does not fit, has no
  argument, or is missing, and of arguments left over.
\<close>

datatype arg = Text string string | Number string int

fun arg_text :: "arg \<Rightarrow> string" where
  "arg_text (Text ty s) = s"
| "arg_text (Number ty i) = itoa i"

fun arg_type :: "arg \<Rightarrow> string" where
  "arg_type (Text ty s) = ty"
| "arg_type (Number ty i) = ty"

fun fits_verb :: "char \<Rightarrow> arg \<Rightarrow> bool" where
  "fits_verb v (Text ty s) = (v = CHR ''s'' \<or> v = CHR ''v'')"
| "fits_verb v (Number ty i) = (v = CHR ''d'' \<or> v = CHR ''v'')"

definition print_arg :: "char \<Rightarrow> arg \<Rightarrow> string" where
  "print_arg v a =
     (if fits_verb v a then arg_text a
      else CHR ''%'' # CHR ''!'' # v # ''('' @ arg_type a @ ''='' @ arg_text a @ '')'')"

fun joined :: "string \<Rightarrow> string list \<Rightarrow> string" where
  "joined sep [] = []"
| "joined sep [x] = x"
| "joined sep (x # xs) = x @ sep @ joined sep xs"

definition left_over :: "arg list \<Rightarrow> string" where
  "left_over args =
     (if args = [] then []
      else ''%!(EXTRA '' @ joined '', '' (map (\<lambda>a. arg_type a @ ''='' @ arg_text a) args) @ '')'')"

fun Sprintf :: "string \<Rightarrow> arg list \<Rightarrow> string" where
  "Sprintf [] args = left_over args"
| "Sprintf (c # cs) args =
     (if c \<noteq> CHR ''%'' then c # Sprintf cs args
      else case cs of
          [] \<Rightarrow> ''%!(NOVERB)'' @ left_over args
        | v # r \<Rightarrow>
            if v = CHR ''%'' then CHR ''%'' # Sprintf r args
            else (case args of
                [] \<Rightarrow> CHR ''%'' # CHR ''!'' # v # ''(MISSING)'' @ Sprintf r []
              | a # as \<Rightarrow> print_arg v a @ Sprintf r as))"

definition nl :: string where
  "nl = [CHR 0x0A]"

definition Sprintln :: "string list \<Rightarrow> string" where
  "Sprintln args = joined '' '' args @ nl"

lemma Sprintf_plain: "CHR ''%'' \<notin> set s \<Longrightarrow> Sprintf (s @ r) args = s @ Sprintf r args"
  by (induction s) auto

lemma Sprintf_nl [simp]: "Sprintf (nl @ r) args = nl @ Sprintf r args" "Sprintf nl args = nl @ left_over args"
  by (simp_all add: nl_def)

lemma left_over_Nil [simp]: "left_over [] = []"
  by (simp add: left_over_def)

section \<open>The log and the terminal\<close>

text \<open>What is on the screen, the log files of the directory \<^verbatim>\<open>log\<close>, and the one that is open.\<close>

record Terminal =
  Screen :: string
  LogDir :: "(string list) go_map"
  LogFile :: "string option"

definition logged :: "Terminal \<Rightarrow> string list" where
  "logged t = (case LogFile t of None \<Rightarrow> [] | Some f \<Rightarrow> (case map_of (LogDir t) f of None \<Rightarrow> [] | Some es \<Rightarrow> es))"

definition InitializeLogger :: "bool \<Rightarrow> bool \<Rightarrow> string \<Rightarrow> Terminal \<Rightarrow> bool \<times> Terminal" where
  "InitializeLogger mkdirFails openFails nodeName t =
     (if mkdirFails \<or> openFails then (False, t)
      else let logFile = nodeName @ ''.log''
           in (True, t\<lparr>LogFile := Some logFile,
                LogDir := (if map_of (LogDir t) logFile = None then AList.update logFile [] (LogDir t) else LogDir t)\<rparr>))"

definition log_entry :: "string \<Rightarrow> string" where
  "log_entry s = (if s \<noteq> [] \<and> last s = CHR 0x0A then s else s @ nl)"

definition write_log :: "string \<Rightarrow> Terminal \<Rightarrow> Terminal" where
  "write_log s t =
     (case LogFile t of
        None \<Rightarrow> t
      | Some f \<Rightarrow> t\<lparr>LogDir := AList.update f (logged t @ [log_entry s]) (LogDir t)\<rparr>)"

definition LogInfo :: "bool \<Rightarrow> string \<Rightarrow> arg list \<Rightarrow> Terminal \<Rightarrow> Terminal" where
  "LogInfo enable format args t = (if enable then write_log (Sprintf (''[INFO] '' @ format) args) t else t)"

definition LogError :: "bool \<Rightarrow> string \<Rightarrow> arg list \<Rightarrow> Terminal \<Rightarrow> Terminal" where
  "LogError enable format args t = (if enable then write_log (Sprintf (''[ERROR] '' @ format) args) t else t)"

definition LogPrintln :: "string list \<Rightarrow> Terminal \<Rightarrow> Terminal" where
  "LogPrintln args = write_log (Sprintln args)"

definition ConsolePrintf :: "string \<Rightarrow> arg list \<Rightarrow> Terminal \<Rightarrow> Terminal" where
  "ConsolePrintf format args t = LogInfo True format args (t\<lparr>Screen := Screen t @ Sprintf format args\<rparr>)"

text \<open>The text of the line is the format of its log entry.\<close>

definition ConsolePrintln :: "string list \<Rightarrow> Terminal \<Rightarrow> Terminal" where
  "ConsolePrintln args t = LogInfo True (Sprintln args) [] (t\<lparr>Screen := Screen t @ Sprintln args\<rparr>)"

section \<open>What the commands show\<close>

text \<open>\<^verbatim>\<open>MembershipList.Print\<close>. The branches for the two protocols are one after the other, so
  with any other protocol no member is shown.\<close>

definition member_args :: "Member \<Rightarrow> arg list" where
  "member_args m = [Text ''string'' (vm_name (Address m)), Text ''string'' (ID m), Text ''string'' (itoa (Hash m)),
     Text ''main.Status'' (status_text (Status m))]"

definition counters :: "ProtocolType \<Rightarrow> Member \<Rightarrow> arg list" where
  "counters protocol m =
     (if protocol = GossipProtocol then [Number ''uint64'' (uint (Heartbeat m))] else []) @
     [Number ''uint64'' (uint (Incarnation m))]"

definition gossip_row :: string where
  "gossip_row = ''VMName: %s | Member: %s | Hash: %s | Status:  %s| Heartbeat: %d| Incarnation: %d'' @ nl"

definition gossip_log_row :: string where
  "gossip_log_row = ''VMName: %s | Member: %s | Hash: %s| Status:  %s| Heartbeat: %d| Incarnation: %d'' @ nl"

definition ping_row :: string where
  "ping_row = ''VMName: %s | Member: %s | Hash: %s | Status:  %s| Incarnation: %d '' @ nl"

definition print_member :: "bool \<Rightarrow> ProtocolType \<Rightarrow> Member \<Rightarrow> Terminal \<Rightarrow> Terminal" where
  "print_member printOnConsole protocol m t =
     (let args = member_args m @ counters protocol m
      in if protocol = GossipProtocol then
           LogInfo True gossip_log_row args
             (if printOnConsole
              then ConsolePrintf gossip_row args t
              else t)
         else if protocol = PingAckProtocol then
           LogInfo True ping_row args
             (if printOnConsole
              then ConsolePrintf ping_row args t
              else t)
         else t)"

definition Print :: "bool \<Rightarrow> ProtocolType \<Rightarrow> Member list \<Rightarrow> Terminal \<Rightarrow> Terminal" where
  "Print printOnConsole protocol nodes t =
     (let t1 = (if printOnConsole then ConsolePrintln [''---- Membership List ----''] t else t);
          t2 = fold (print_member printOnConsole protocol) nodes t1
      in if printOnConsole then ConsolePrintln [''-------------------------''] t2 else t2)"

text \<open>\<^verbatim>\<open>PrintSuspectedNodes\<close>; RFC 3339 without a fraction is the text of the whole second.\<close>

definition gossip_suspect_row :: string where
  "gossip_suspect_row = ''Suspected Member: %s | Status:  %s| Heartbeat: %d| Incarnation: %d| Hash: %s| LastUpdated: %s'' @ nl"

definition ping_suspect_row :: string where
  "ping_suspect_row = ''Suspected Member: %s | Status:  %s| Incarnation: %d| Hash: %s'' @ nl"

definition print_suspect :: "(instant \<Rightarrow> int) \<Rightarrow> ProtocolType \<Rightarrow> Member \<Rightarrow> Terminal \<Rightarrow> Terminal" where
  "print_suspect zone protocol m t =
     (let u = LastUpdated m;
          head = [Text ''string'' (ID m), Text ''main.Status'' (status_text (Status m))] @ counters protocol m @
            [Text ''string'' (itoa (Hash m))]
      in if Status m \<noteq> StatusSuspect then t
         else if protocol = GossipProtocol then
           let args = head @ [Text ''string'' (time_text (zone u) (u - u mod 1000000000))]
           in LogInfo True gossip_suspect_row args (ConsolePrintf gossip_suspect_row args t)
         else if protocol = PingAckProtocol then
           LogInfo True ping_suspect_row head (ConsolePrintf ping_suspect_row head t)
         else t)"

definition PrintSuspectedNodes :: "(instant \<Rightarrow> int) \<Rightarrow> ProtocolType \<Rightarrow> Member list \<Rightarrow> Terminal \<Rightarrow> Terminal" where
  "PrintSuspectedNodes zone protocol nodes t =
     ConsolePrintln [''-------------------------'']
       (fold (print_suspect zone protocol) nodes (ConsolePrintln [''---- Membership List ----''] t))"

definition print_append :: "nat \<times> AppendInfo \<Rightarrow> Terminal \<Rightarrow> Terminal" where
  "print_append = (\<lambda>(i, a). ConsolePrintf nl [] \<circ>
     ConsolePrintf (''      Size:            %d bytes'' @ nl) [Number ''int64'' (Size a)] \<circ>
     ConsolePrintf (''      AppendHash:      %s'' @ nl) [Text ''string'' (AppendHash a)] \<circ>
     ConsolePrintf (''      ClientTimestamp: %s'' @ nl) [Text ''string'' (ClientTimestamp a)] \<circ>
     ConsolePrintf (''      ClientID:        %s'' @ nl) [Text ''string'' (ClientID a)] \<circ>
     ConsolePrintf (''  [%d] AppendID:        %s'' @ nl) [Number ''int'' (int (i + 1)), Text ''string'' (AppendID a)])"

definition PrintFileMetadata :: "string \<Rightarrow> Metadata \<Rightarrow> Terminal \<Rightarrow> Terminal" where
  "PrintFileMetadata filename m t =
     (case GetFile m filename of
        None \<Rightarrow> ConsolePrintf (''File '%s' not found in metadata'' @ nl) [Text ''string'' filename] t
      | Some fileMeta \<Rightarrow>
          let t1 = ConsolePrintf (nl @ ''=== File Metadata: %s ==='' @ nl) [Text ''string'' filename] t;
              t2 = ConsolePrintf (''FileName:        %s'' @ nl) [Text ''string'' (FileName fileMeta)] t1;
              t3 = ConsolePrintf (''FileContentHash: %s'' @ nl) [Text ''string'' (FileContentHash fileMeta)] t2;
              t4 = ConsolePrintf (''FileNameHash:    %s'' @ nl) [Text ''string'' (itoa (FileNameHash fileMeta))] t3;
              t5 = ConsolePrintf (''CreationTime:    %s'' @ nl) [Text ''string'' (CreationTime fileMeta)] t4;
              t6 = ConsolePrintf (''Number of Appends: %d'' @ nl) [Number ''int'' (int (length (Appends fileMeta)))] t5;
              t7 = (if Appends fileMeta \<noteq> []
                    then fold print_append (enumerate 0 (Appends fileMeta))
                           (ConsolePrintf (nl @ ''--- Appends (in order) ---'' @ nl) [] t6)
                    else t6)
          in ConsolePrintf (''==========================='' @ nl @ nl) [] t7)"

text \<open>\<^verbatim>\<open>printCurrentProtocol\<close>: the percentage is written before, by the verb
  \<^verbatim>\<open>%.2f\<close>, which rounds to the nearest hundredth, ties to even.\<close>

definition hundredths :: "rat \<Rightarrow> nat" where
  "hundredths q =
     (let x = q * 100; n = floor x; r = x - of_int n
      in nat (if r > 1 / 2 \<or> (r = 1 / 2 \<and> odd n) then n + 1 else n))"

definition fixed2 :: "float64 \<Rightarrow> string" where
  "fixed2 x =
     (case x of
        Finite q \<Rightarrow> (let h = hundredths \<bar>q\<bar> in (if q < 0 then ''-'' else []) @ digits (h div 100) @ ''.'' @ pad 2 (h mod 100))
      | PosInf \<Rightarrow> ''+Inf''
      | NegInf \<Rightarrow> ''-Inf''
      | NaN \<Rightarrow> ''NaN'')"

definition percent :: "float64 \<Rightarrow> float64" where
  "percent x = (case x of Finite q \<Rightarrow> Finite (q * 100) | _ \<Rightarrow> x)"

definition printCurrentProtocol :: "Configuration \<Rightarrow> Terminal \<Rightarrow> Terminal" where
  "printCurrentProtocol cfg =
     ConsolePrintf (''Current Protocol: %s | Suspicion: %s | Message Drop Rate: %s%%'' @ nl)
       [Text ''main.ProtocolType'' (protocol_text (Protocol cfg)),
        Text ''main.SuspicionType'' (suspicion_text (Suspicion cfg)),
        Text ''float64'' (fixed2 (percent (MessageDropRate cfg)))]"

text \<open>\<^verbatim>\<open>handleListStore\<close>: the number of an entry is its place in the list of names.\<close>

definition print_stored :: "Metadata \<Rightarrow> nat \<times> string \<Rightarrow> Terminal \<Rightarrow> Terminal" where
  "print_stored m = (\<lambda>(i, filename) t.
     case GetFile m filename of
        None \<Rightarrow> t
      | Some fileMeta \<Rightarrow>
          ConsolePrintf (''  [%d] File: %s | FileID: %s'' @ nl)
            [Number ''int'' (int (i + 1)), Text ''string'' filename, Text ''string'' (itoa (FileNameHash fileMeta))] t)"

definition print_store :: "(string list \<Rightarrow> string list) \<Rightarrow> Server \<Rightarrow> Terminal \<Rightarrow> Terminal" where
  "print_store ord s t =
     (let vmName = (if vm_name (Addr s) = [] then Addr s else vm_name (Addr s));
          t1 = ConsolePrintf (''VM: %s | Address: %s | ID:  %s | Hash: %s'' @ nl)
                 [Text ''string'' vmName, Text ''string'' (Addr s), Text ''string'' (ServerID s),
                  Text ''string'' (itoa (ServerHash s))] t;
          fileNames = ListFiles ord (Meta s)
      in if fileNames = [] then ConsolePrintf (''No files stored on this VM's HyDFS'' @ nl) [] t1
         else fold (print_stored (Meta s)) (enumerate 0 fileNames)
           (ConsolePrintf (''Files stored on this VM's HyDFS (%d file(s)):'' @ nl)
             [Number ''int'' (int (length fileNames))] t1))"

text \<open>The usage lines, and the commands of \<open>handleCommand\<close> that only show something.\<close>

definition usage :: "string \<Rightarrow> string" where
  "usage command =
     (if command = ''switch'' then ''switch <protocol> <suspicion>''
      else if command = ''drop'' then ''drop <percentage>''
      else if command = ''create'' then ''create <localfilename> <HyDFSfilename>''
      else if command = ''get'' then ''get <HyDFSfilename> <localfilename>''
      else if command = ''append'' then ''append <localfilename> <HyDFSfilename>''
      else if command = ''merge'' then ''merge <HyDFSfilename>''
      else if command = ''multiappend'' then ''multiappend <HyDFSfilename> <VM1> ... <VMN> <localfile1> ... <localfileN>''
      else if command = ''printmeta'' then ''printmeta <HyDFSfilename>''
      else if command = ''ls'' then ''ls <HyDFSfilename>''
      else ''getfromreplica <VMID> <HyDFSfilename> <localfilename>'')"

definition show_command ::
    "(instant \<Rightarrow> int) \<Rightarrow> (string list \<Rightarrow> string list) \<Rightarrow> Server \<Rightarrow> string \<Rightarrow> Terminal \<Rightarrow> Terminal" where
  "show_command zone ord s cmd t =
     (case parse_command cmd of
        ListSelf \<Rightarrow> ConsolePrintf (''Self ID: %s'' @ nl) [Text ''string'' (ServerID s)] t
      | DisplaySuspects \<Rightarrow> PrintSuspectedNodes zone (Protocol (Config s)) (Members s) t
      | DisplayProtocol \<Rightarrow> printCurrentProtocol (Config s) t
      | PrintMeta filename \<Rightarrow> PrintFileMetadata filename (Meta s) t
      | ListStore \<Rightarrow> print_store ord s t
      | ListMemIds \<Rightarrow> Print True (Protocol (Config s)) (Members s) t
      | BadFormat command \<Rightarrow>
          ConsolePrintf (''Invalid '' @ command @ '' command format. Expected: '' @ usage command @ nl) [] t
      | UnknownCommand command \<Rightarrow> ConsolePrintf (''Unknown command: %s'' @ nl) [Text ''string'' command] t
      | _ \<Rightarrow> t)"

section \<open>What is written is what is shown\<close>

definition info :: "string \<Rightarrow> string" where
  "info s = ''[INFO] '' @ s"

lemma write_log_simps [simp]:
  "Screen (write_log s t) = Screen t" "LogFile (write_log s t) = LogFile t"
  "LogFile t \<noteq> None \<Longrightarrow> logged (write_log s t) = logged t @ [log_entry s]"
  by (auto simp: write_log_def logged_def update_conv' split: option.split)

lemma logged_Screen [simp]: "logged (t\<lparr>Screen := x\<rparr>) = logged t"
  by (simp add: logged_def split: option.split)

lemma LogInfo_simps [simp]:
  "Screen (LogInfo e f args t) = Screen t" "LogFile (LogInfo e f args t) = LogFile t"
  "LogFile t \<noteq> None \<Longrightarrow> logged (LogInfo True f args t) = logged t @ [log_entry (info (Sprintf f args))]"
  by (simp_all add: LogInfo_def info_def)

lemma ConsolePrintf_simps [simp]:
  "Screen (ConsolePrintf f args t) = Screen t @ Sprintf f args" "LogFile (ConsolePrintf f args t) = LogFile t"
  "LogFile t \<noteq> None \<Longrightarrow> logged (ConsolePrintf f args t) = logged t @ [log_entry (info (Sprintf f args))]"
  by (simp_all add: ConsolePrintf_def)

text \<open>The text of \<open>ConsolePrintln\<close> comes back from its use as a format if it has no percent sign.\<close>

lemma ConsolePrintln_simps [simp]:
  "Screen (ConsolePrintln args t) = Screen t @ Sprintln args" "LogFile (ConsolePrintln args t) = LogFile t"
  "LogFile t \<noteq> None \<Longrightarrow> logged (ConsolePrintln args t) = logged t @ [log_entry (info (Sprintf (Sprintln args) []))]"
  by (simp_all add: ConsolePrintln_def)

lemma Sprintf_Sprintln: "CHR ''%'' \<notin> set (Sprintln args) \<Longrightarrow> Sprintf (Sprintln args) [] = Sprintln args"
  using Sprintf_plain [of "Sprintln args" "[]" "[]"] by simp

text \<open>Something that writes one item after the other, as long as the output is open.\<close>

locale writer =
  fixes emit :: "'a \<Rightarrow> 't \<Rightarrow> 't" and out :: "'t \<Rightarrow> 'o list" and opened :: "'t \<Rightarrow> bool" and shown :: "'a \<Rightarrow> 'o list"
  assumes out_emit: "opened t \<Longrightarrow> out (emit x t) = out t @ shown x"
    and opened_emit: "opened t \<Longrightarrow> opened (emit x t)"
begin

lemma out_fold: "opened t \<Longrightarrow> out (fold emit xs t) = out t @ concat (map shown xs)"
  by (induction xs arbitrary: t) (simp_all add: out_emit opened_emit)

lemma opened_fold: "opened t \<Longrightarrow> opened (fold emit xs t)"
  by (induction xs arbitrary: t) (simp_all add: opened_emit)

end

definition member_line :: "string \<Rightarrow> ProtocolType \<Rightarrow> Member \<Rightarrow> string" where
  "member_line bar protocol m =
     ''VMName: '' @ vm_name (Address m) @ '' | Member: '' @ ID m @ '' | Hash: '' @ itoa (Hash m) @ bar @ '' Status:  '' @
     status_text (Status m) @
     (if protocol = GossipProtocol
      then ''| Heartbeat: '' @ itoa (uint (Heartbeat m)) @ ''| Incarnation: '' @ itoa (uint (Incarnation m)) @ nl
      else ''| Incarnation: '' @ itoa (uint (Incarnation m)) @ '' '' @ nl)"

definition has_rows :: "ProtocolType \<Rightarrow> bool" where
  "has_rows protocol \<longleftrightarrow> protocol = GossipProtocol \<or> protocol = PingAckProtocol"

lemma log_entry_nl [simp]: "log_entry (a @ nl) = a @ nl" "log_entry (c # a @ nl) = c # a @ nl"
  by (simp_all add: log_entry_def nl_def)

lemma member_format:
  "Sprintf gossip_row (member_args m @ counters GossipProtocol m) = member_line '' |'' GossipProtocol m"
  "Sprintf gossip_log_row (member_args m @ counters GossipProtocol m) = member_line ''|'' GossipProtocol m"
  "Sprintf ping_row (member_args m @ counters PingAckProtocol m) = member_line '' |'' PingAckProtocol m"
  by (simp_all add: gossip_row_def gossip_log_row_def ping_row_def member_args_def counters_def member_line_def print_arg_def)

lemma log_entry_member [simp]:
  "log_entry (info (member_line bar protocol m)) = info (member_line bar protocol m)"
  by (simp add: member_line_def log_entry_def info_def nl_def)

interpretation screen_members: writer "print_member True protocol" Screen "\<lambda>_. True"
    "\<lambda>m. if has_rows protocol then member_line '' |'' protocol m else []" for protocol
  by unfold_locales (auto simp: print_member_def has_rows_def member_format Let_def)

text \<open>With the protocol left empty by a rejected join, no row is shown.\<close>

definition log_bar :: "ProtocolType \<Rightarrow> string" where
  "log_bar protocol = (if protocol = GossipProtocol then ''|'' else '' |'')"

interpretation log_members: writer "print_member True protocol" logged "\<lambda>t. LogFile t \<noteq> None"
    "\<lambda>m. if has_rows protocol
      then [info (member_line '' |'' protocol m), info (member_line (log_bar protocol) protocol m)] else []" for protocol
  by unfold_locales (auto simp: print_member_def has_rows_def log_bar_def member_format Let_def)

definition suspect_line :: "(instant \<Rightarrow> int) \<Rightarrow> ProtocolType \<Rightarrow> Member \<Rightarrow> string" where
  "suspect_line zone protocol m =
     ''Suspected Member: '' @ ID m @ '' | Status:  suspect'' @
     (if protocol = GossipProtocol
      then ''| Heartbeat: '' @ itoa (uint (Heartbeat m)) @ ''| Incarnation: '' @ itoa (uint (Incarnation m)) @
        ''| Hash: '' @ itoa (Hash m) @ ''| LastUpdated: '' @
        time_text (zone (LastUpdated m)) (LastUpdated m - LastUpdated m mod 1000000000) @ nl
      else ''| Incarnation: '' @ itoa (uint (Incarnation m)) @ ''| Hash: '' @ itoa (Hash m) @ nl)"

lemma suspect_format:
  "Sprintf gossip_suspect_row (Text ty (ID m) # Text ty' (status_text StatusSuspect) # counters GossipProtocol m @
     [Text ty'' (itoa (Hash m)), Text ty'' (time_text (zone (LastUpdated m)) (LastUpdated m - LastUpdated m mod 1000000000))]) =
   suspect_line zone GossipProtocol m"
  "Sprintf ping_suspect_row (Text ty (ID m) # Text ty' (status_text StatusSuspect) # counters PingAckProtocol m @
     [Text ty'' (itoa (Hash m))]) = suspect_line zone PingAckProtocol m"
  by (simp_all add: gossip_suspect_row_def ping_suspect_row_def counters_def suspect_line_def print_arg_def status_text_def)

lemma log_entry_suspect [simp]:
  "log_entry (info (suspect_line zone protocol m)) = info (suspect_line zone protocol m)"
  by (simp add: suspect_line_def log_entry_def info_def nl_def)

interpretation screen_suspects: writer "print_suspect zone protocol" Screen "\<lambda>_. True"
    "\<lambda>m. if has_rows protocol \<and> Status m = StatusSuspect then suspect_line zone protocol m else []" for zone protocol
  by unfold_locales (auto simp: print_suspect_def has_rows_def suspect_format [where zone = zone] Let_def)

text \<open>The appends of a file, numbered from one.\<close>

definition append_lines :: "nat \<times> AppendInfo \<Rightarrow> string" where
  "append_lines = (\<lambda>(i, a). ''  ['' @ itoa (int (i + 1)) @ ''] AppendID:        '' @ AppendID a @ nl @
     ''      ClientID:        '' @ ClientID a @ nl @
     ''      ClientTimestamp: '' @ ClientTimestamp a @ nl @
     ''      AppendHash:      '' @ AppendHash a @ nl @
     ''      Size:            '' @ itoa (Size a) @ '' bytes'' @ nl @ nl)"

interpretation screen_appends: writer print_append Screen "\<lambda>_. True" append_lines
  by unfold_locales (simp_all add: print_append_def append_lines_def print_arg_def split: prod.split)

interpretation screen_store: writer "print_stored m" Screen "\<lambda>_. True"
    "\<lambda>(i, f). case GetFile m f of None \<Rightarrow> []
      | Some meta \<Rightarrow> ''  ['' @ itoa (int (i + 1)) @ ''] File: '' @ f @ '' | FileID: '' @ itoa (FileNameHash meta) @ nl" for m
  by unfold_locales (simp_all add: print_stored_def print_arg_def split: prod.split option.split)

definition title :: string where
  "title = ''---- Membership List ----'' @ nl"

definition rule :: string where
  "rule = ''-------------------------'' @ nl"

lemma title_rule:
  "Sprintln [''---- Membership List ----''] = title" "Sprintln [''-------------------------''] = rule"
  "Sprintf title [] = title" "Sprintf rule [] = rule"
  "log_entry (info title) = info title" "log_entry (info rule) = info rule"
  by (simp_all add: Sprintln_def title_def rule_def nl_def info_def log_entry_def)

lemma list_mem_ids_shows:
  "Screen (Print True protocol ms t) =
     Screen t @ title @ concat (map (\<lambda>m. if has_rows protocol then member_line '' |'' protocol m else []) ms) @ rule"
  by (simp add: Print_def title_rule Let_def screen_members.out_fold)

lemma display_suspects_shows:
  "Screen (PrintSuspectedNodes zone protocol ms t) =
     Screen t @ title @
     concat (map (\<lambda>m. if has_rows protocol then suspect_line zone protocol m else []) (GetSuspectedNodes ms)) @ rule"
proof -
  have "concat (map (\<lambda>m. if has_rows protocol \<and> Status m = StatusSuspect then suspect_line zone protocol m else []) ms) =
      concat (map (\<lambda>m. if has_rows protocol then suspect_line zone protocol m else []) (GetSuspectedNodes ms))"
    by (induction ms) (simp_all add: GetSuspectedNodes_def)
  then show ?thesis by (simp add: PrintSuspectedNodes_def title_rule screen_suspects.out_fold)
qed

definition file_report :: "string \<Rightarrow> FileMetadata \<Rightarrow> string" where
  "file_report filename m =
     nl @ ''=== File Metadata: '' @ filename @ '' ==='' @ nl @
     ''FileName:        '' @ FileName m @ nl @
     ''FileContentHash: '' @ FileContentHash m @ nl @
     ''FileNameHash:    '' @ itoa (FileNameHash m) @ nl @
     ''CreationTime:    '' @ CreationTime m @ nl @
     ''Number of Appends: '' @ itoa (int (length (Appends m))) @ nl @
     (if Appends m = [] then [] else nl @ ''--- Appends (in order) ---'' @ nl) @
     concat (map append_lines (enumerate 0 (Appends m))) @
     ''==========================='' @ nl @ nl"

lemma report_format:
  "Sprintf (nl @ ''=== File Metadata: %s ==='' @ nl) [Text ty f] = nl @ ''=== File Metadata: '' @ f @ '' ==='' @ nl"
  "Sprintf (''FileName:        %s'' @ nl) [Text ty f] = ''FileName:        '' @ f @ nl"
  "Sprintf (''FileContentHash: %s'' @ nl) [Text ty f] = ''FileContentHash: '' @ f @ nl"
  "Sprintf (''FileNameHash:    %s'' @ nl) [Text ty f] = ''FileNameHash:    '' @ f @ nl"
  "Sprintf (''CreationTime:    %s'' @ nl) [Text ty f] = ''CreationTime:    '' @ f @ nl"
  "Sprintf (''Number of Appends: %d'' @ nl) [Number ty i] = ''Number of Appends: '' @ itoa i @ nl"
  "Sprintf (nl @ ''--- Appends (in order) ---'' @ nl) [] = nl @ ''--- Appends (in order) ---'' @ nl"
  "Sprintf (''==========================='' @ nl @ nl) [] = ''==========================='' @ nl @ nl"
  by (simp_all add: print_arg_def)

lemma printmeta_shows:
  assumes "GetFile meta filename = Some m"
  shows "Screen (PrintFileMetadata filename meta t) = Screen t @ file_report filename m"
  unfolding PrintFileMetadata_def file_report_def assms option.case Let_def
  by (simp only: ConsolePrintf_simps(1) screen_appends.out_fold report_format if_distrib [of Screen] append_assoc append_Nil
      enumerate_simps list.map concat.simps split: if_split) simp

lemma list_mem_ids_logs:
  assumes "LogFile t \<noteq> None"
  shows "logged (Print True protocol ms t) = logged t @ info title # concat (map (\<lambda>m. if has_rows protocol
      then [info (member_line '' |'' protocol m), info (member_line (log_bar protocol) protocol m)] else []) ms) @ [info rule]"
proof -
  let ?t = "ConsolePrintln [''---- Membership List ----''] t"
  have t: "LogFile ?t \<noteq> None" using assms by simp
  show ?thesis
    using log_members.opened_fold [OF t, of protocol ms] log_members.out_fold [OF t, of protocol ms] assms
    by (simp add: Print_def title_rule Let_def)
qed

text \<open>
  C40. The commands that show the state show it completely and in order, under either protocol:
  \<open>list_mem_ids\<close> has one row for each member of the list and \<open>display_suspects\<close> one for each suspect;
  \<open>printmeta\<close> shows a file with its appends as they are listed. The log gets every row of the member
  list twice.
\<close>

theorem display_commands_show_state:
  assumes "parse_command cmd = PrintMeta f" and "GetFile (Meta s) f = Some m" and "LogFile t \<noteq> None"
    and "has_rows (Protocol (Config s))"
  shows "Screen (show_command zone ord s ''list_mem_ids'' t) =
      Screen t @ title @ concat (map (member_line '' |'' (Protocol (Config s))) (Members s)) @ rule \<and>
    Screen (show_command zone ord s ''display_suspects'' t) =
      Screen t @ title @ concat (map (suspect_line zone (Protocol (Config s))) (GetSuspectedNodes (Members s))) @ rule \<and>
    Screen (show_command zone ord s cmd t) = Screen t @ file_report f m \<and>
    logged (show_command zone ord s ''list_mem_ids'' t) = logged t @ info title # concat (map (\<lambda>m.
      [info (member_line '' |'' (Protocol (Config s)) m), info (member_line (log_bar (Protocol (Config s))) (Protocol (Config s)) m)])
      (Members s)) @ [info rule]"
proof -
  have c: "parse_command ''list_mem_ids'' = ListMemIds" "parse_command ''display_suspects'' = DisplaySuspects"
    by code_simp+
  show ?thesis
    using assms list_mem_ids_logs [of t "Protocol (Config s)" "Members s"]
    by (simp add: show_command_def c list_mem_ids_shows display_suspects_shows printmeta_shows)
qed

text \<open>A node with two members and a file, with the log open: the two rows, and the report of the file.\<close>

theorem display_commands_show_state_witness:
  "let s = example_server\<lparr>Meta := AddFile (example_file ''f'' 20) new_Metadata\<rparr>;
       t = \<lparr>Screen = [], LogDir = [], LogFile = Some ''vm1.log''\<rparr>; row = member_line '' |'' GossipProtocol
   in Screen (show_command (\<lambda>_. 0) id s ''list_mem_ids'' t) = title @
        row (example_member ''127.0.0.1:5000'' 29 StatusAlive) @ row (example_member ''127.0.0.1:5001'' 88 StatusAlive) @ rule \<and>
      Screen (show_command (\<lambda>_. 0) id s ''display_suspects'' t) = title @ rule \<and>
      Screen (show_command (\<lambda>_. 0) id s ''printmeta f'' t) = file_report ''f'' (example_file ''f'' 20)"
proof -
  let ?s = "example_server\<lparr>Meta := AddFile (example_file ''f'' 20) new_Metadata\<rparr>"
  let ?t = "\<lparr>Screen = [], LogDir = [], LogFile = Some ''vm1.log''\<rparr>"
  have parse: "parse_command ''printmeta f'' = PrintMeta ''f''" by code_simp
  have meta: "GetFile (Meta ?s) ''f'' = Some (example_file ''f'' 20)" by (simp add: GetFile_AddFile example_file_def)
  have log: "LogFile ?t \<noteq> None" by simp
  have rows: "has_rows (Protocol (Config ?s))" by (simp add: has_rows_def)
  have "GetSuspectedNodes (Members ?s) = []" by (simp add: GetSuspectedNodes_def two_ring_def)
  then show ?thesis
    using display_commands_show_state [OF parse meta log rows, of "\<lambda>_. 0" id] by (simp add: Let_def two_ring_def)
qed

end
