(* ===== verification/Spec2Isabelle.thy ===== *)
theory Spec2Isabelle
  imports Ring_Properties Membership_Properties Merge_Replicas Metadata_Locks Append_Slices Traffic
    Fault_Appends Slow_Reads Merge_Overrides Console
begin

text \<open>
  HyDFS is a replicated file store written in Go (\<^verbatim>\<open>src/*.go\<close>, one
  \<^verbatim>\<open>main\<close> package). Every process keeps a membership list ordered by position on a
  hash ring, spreads it by gossip or ping-ack, suspects and removes silent members, and stores files
  with appends on the node that follows the file's hash on the ring and on the next two. Control calls
  are JSON over UDP, data moves over gRPC streams. Stabilization, a periodic merge and a garbage
  collector move replicas when the ring changes.

  \<^bold>\<open>Layers and files.\<close> Each theory names the source file it models.

  \<^item> \<open>Prelude\<close>, \<open>Go_Strings\<close>: Go's slices, maps, integers, time and strings as far as the program uses
    them; the interfaces \<open>slice_sorter\<close> and \<open>event_machine\<close>.
  \<^item> \<open>Hashing\<close> (\<^verbatim>\<open>utils.go\<close>): SHA-1 and SHA-256 written out, ring positions,
    identities and addresses. \<open>Member_Model\<close> (\<^verbatim>\<open>member.go\<close>), \<open>Membership_List\<close>
    (\<^verbatim>\<open>membership_list.go\<close>), \<open>Config_Model\<close> (\<^verbatim>\<open>config.go\<close>,
    \<^verbatim>\<open>bandwidth.go\<close>), \<open>Metadata_Store\<close> (\<^verbatim>\<open>metadata.go\<close>).
  \<^item> \<open>Ring\<close> (\<^verbatim>\<open>ring.go\<close>, \<open>findTargetNodes\<close>), \<open>Placement\<close> (its arithmetic) and
    \<open>Ring_Properties\<close>: ranges, targets, successors and the trigger of a stabilization agree, and where
    they do not.
  \<^item> \<open>Server_State\<close> (\<^verbatim>\<open>server.go\<close>): the record of a process. \<open>Membership_Merge\<close>
    (\<^verbatim>\<open>membership_merge.go\<close>), \<open>Merge_Entries\<close>, \<open>Failure_Detector\<close> (the checks of
    \<^verbatim>\<open>MarkSuspectIfNeeded\<close>), \<open>Membership_Properties\<close>, \<open>Gossip_Convergence\<close> (a
    merge takes the maximum of an order of knowledge, so gossip converges), \<open>Protocols\<close>
    (\<^verbatim>\<open>protocols.go\<close>).
  \<^item> \<open>Disk\<close> (the calls of the operating system, with their failures as an argument), \<open>File_Streams\<close>
    (\<^verbatim>\<open>grpc_client.go\<close>, \<^verbatim>\<open>grpc_server.go\<close>), \<open>File_Properties\<close>, and \<open>Downloads\<close>: the
    downloads of a node that run side by side on its local files, one system call or message at a time.
  \<^item> \<open>Rpc_Server\<close> (\<^verbatim>\<open>rpc_server.go\<close>), \<open>Cluster\<close> (\<^verbatim>\<open>rpc_client.go\<close>,
    the streams between nodes, the stabilization and collection of \<^verbatim>\<open>ring.go\<close>),
    \<open>Operations\<close> (\<^verbatim>\<open>hydfs_operations.go\<close>, \<^verbatim>\<open>cli.go\<close>), \<open>System\<close>
    (\<^verbatim>\<open>main.go\<close>, the dispatch of requests and the tickers): all nodes, the network
    between them, and one event after the other.
  \<^item> \<open>Node_Laws\<close>: what all these operations keep of every node, proved once in three locales for any
    property that elementary updates keep; \<open>System_Invariant\<close> interprets them. \<open>Cluster_Properties\<close> and
    \<open>Replication_Properties\<close>: what holds over any run, and what happens to the replicas of a file.
    \<open>Calm_Cluster\<close> names the clusters in which no call is lost and no file operation fails, and shows
    what the clients and the streams do there; \<open>Stabilization\<close> and \<open>Merge_Replicas\<close> build on it.
    \<open>Fault_Tolerance\<close> and \<open>Fault_Appends\<close> are about creating, reading and appending whatever becomes of
    the calls and the disks; \<open>Slow_Reads\<close> about downloads that a \<open>handleGet\<close> has given up and that run on. \<open>Data_Laws\<close> has laws for the contents of directories, in two more locales, and
    \<open>Durability\<close> interprets them: over any run, a node keeps what it stores unless it collects or restarts.
    \<open>Merge_Overrides\<close> interprets them once more: a merge replaces what a replica lists.
  \<^item> \<open>Metadata_Locks\<close>: the steps between the locks of the metadata table, interleaved. \<open>Append_Slices\<close>:
    the shared backing arrays behind the lists of appends.
  \<^item> \<open>Json\<close>, \<open>Time_Text\<close>, \<open>Codec\<close>: what the messages use of \<^verbatim>\<open>encoding/json\<close>,
    its scanner as an automaton and the filling of structs, with the interface \<open>codec\<close> of a type that
    travels. \<open>Wire_Format\<close> (\<^verbatim>\<open>rpc_types.go\<close> and the two ends of a call) interprets it for every
    message; \<open>Wire\<close> shows that a call over datagrams is the call of \<open>Cluster\<close>, and which do not fit;
    \<open>Traffic\<close> adds the traffic counters of both ends to such a call.
  \<^item> \<open>Console\<close> (\<^verbatim>\<open>logger.go\<close>, the printing functions): the screen, the log file, and
    the commands that only show the state.
  \<^item> \<open>Examples\<close>: small concrete states on which the properties are applied.

  \<^bold>\<open>State and time.\<close> A process is a \<open>Server\<close> record, its files and local files are two of its
  fields, and the process-wide \<^verbatim>\<open>Config\<close> is another, since there is one process per
  node. A \<open>Cluster\<close> maps addresses to processes. What the environment decides is an argument: clock
  readings, random numbers, the order in which a Go map is ranged over (any permutation), the order in
  which the goroutines of one operation run, which file operations fail, and a list with the outcome of
  each network call: \<open>Unreachable\<close>, \<open>Broken\<close> off, \<open>Up\<close>, \<open>Late\<close> (a download that has done nothing when its
  time is up), or \<open>Slow\<close> (a download during which others move, with the order of their steps). The event
  \<open>Environment\<close> replaces the faults of the disks, the order of maps and the coming outcomes at any point
  of a run. A panic in any goroutine ends its process:
  the node disappears. Goroutines that outlive their handler (stabilizations after a membership change,
  remote commands) are kept in the state and run as events of their own; a download whose time is up is
  kept in \<open>Downloads\<close> and goes on by \<open>DownloadStep\<close> events, beside later downloads of the same local file,
  or never.

  \<^bold>\<open>What is shown.\<close> Placement: the primary range, the targets of a write, the successors and the
  collector's range agree on rings without dead members, and how they differ otherwise; no call panics
  but the one characterized. Membership: a merge is pointwise and takes maxima, gossip converges,
  suspicion, refutation, death and departure behave as a state machine, with the exceptions stated.
  Files: chunking and streams round-trip; a created file is on all its targets and is read back; what
  a failed download, an empty upload, a repeated append identifier do. System: invariants of every
  node after any sequence of events.
  Replicas: in a cluster without failures an append is on all targets and is read by every node, a
  stabilization leaves the files of the primary on all their targets, a merge makes the replicas
  equal; what a collection does; a merge overrides the list of a replica, an append that the primary missed
  included; and the state in which a replica is lost. With
  failures: what a create counts is stored, nothing else is touched, a read that succeeds is right if no
  other download of its node moved meanwhile, and needs one reachable target, and so an acknowledged create
  can be read; overlapping downloads that deliver the same do no harm, and one that was given up and fails
  later removes what a successful get has delivered; and over any run of events a plain name keeps its
  contents. What is not guaranteed: a read may be answered by a target that missed an append.
  Concurrency: appends linearize; a deletion under an append does not. Wire: messages come back as they
  were sent, unless they exceed the buffers of 4096 bytes, which long lists do. Console: the display
  commands show the state completely and in order.

  \<^bold>\<open>Bounds.\<close> Loops of the code are structural recursions or functions with a measure; none needs fuel.
  Counters are 64-bit words that wrap; hashes are unbounded integers as in the code, cut to 32 bits
  where a stream carries them; the ring has \<open>2^8\<close> positions.

  \<^bold>\<open>Not modelled.\<close> What operations other than the display commands print and log, and the
  time stamps of the log; the generated protobuf code and gRPC itself; JSON numbers beyond \<open>2^53\<close>; socket errors at
  start; the periods of the tickers; data races on fields without a lock other than those of
  \<open>Metadata_Locks\<close>, \<open>Append_Slices\<close> and \<open>Downloads\<close>: a handler runs to its end before the next, so the
  existence check and the \<open>saveFile\<close> of an upload are one step, where in Go two uploads of a name may both
  pass the check. What a target sends is fixed when a download begins. Streams that never return: they have no deadline (\<^verbatim>\<open>context.Background()\<close>), so
  an upload to a peer that hangs blocks its goroutine, and a \<open>handleCreate\<close> or stabilization that waits for
  it, for ever; every call of the model other than a download of \<open>handleGet\<close> returns, with success or not.
  Paths with separators in file names. Floating-point numbers are exact.
\<close>

end
